(* ===== verification/Gw_Prelude.thy ===== *)
theory Gw_Prelude
  imports Main "HOL-Library.Word" "HOL-Library.Monad_Syntax"
begin

text \<open>
  Shared vocabulary of the development: names for the machine integers the program uses,
  the little-endian conversions of the Rust standard library (\<open>to_le_bytes\<close>,
  \<open>from_le_bytes\<close>, \<open>try_into\<close> on a slice, \<open>copy_from_slice\<close>), I/O results as sums, the
  lemma collections of the components, and the generic lemmas on words, lists and maps
  that more than one component uses.
\<close>

unbundle bit_operations_syntax

section \<open>Types and lemma collections\<close>

type_synonym u8 = "8 word"
type_synonym u16 = "16 word"
type_synonym u32 = "32 word"
type_synonym u64 = "64 word"
type_synonym bytes = "8 word list"

text \<open>\<open>frame\<close> collects what an operation leaves alone, \<open>outcome\<close> the equations that say
  what it returns.\<close>

named_theorems frame
named_theorems outcome

text \<open>\<open>std::io::Error\<close>, reduced to the kinds the program produces or distinguishes.\<close>

datatype io_error = WriteError | UnexpectedEof | InvalidData | TimedOut

type_synonym 'a io_result = "io_error + 'a"

abbreviation is_ok :: "'e + 'a \<Rightarrow> bool" where
  "is_ok r \<equiv> \<not> isl r"

section \<open>Little-endian conversions\<close>

text \<open>The first \<open>n\<close> bytes of a word, least significant first.\<close>

definition to_le :: "nat \<Rightarrow> 'a::len word \<Rightarrow> bytes" where
  "to_le n w = map (\<lambda>i. ucast (drop_bit (8 * i) w)) [0..<n]"

fun from_le :: "bytes \<Rightarrow> 'a::len word" where
  "from_le [] = 0"
| "from_le (b # bs) = ucast b OR push_bit 8 (from_le bs)"

text \<open>\<open>slice.try_into().ok()\<close> at the array type \<open>[u8; n]\<close>.\<close>

definition try_into_array :: "nat \<Rightarrow> bytes \<Rightarrow> bytes option" where
  "try_into_array n bs = (if length bs = n then Some bs else None)"

text \<open>\<open>bytes[i..j]\<close> as a value, and \<open>bytes[i..i + len].copy_from_slice(src)\<close>.\<close>

definition slice_range :: "nat \<Rightarrow> nat \<Rightarrow> bytes \<Rightarrow> bytes" where
  "slice_range i j bs = take (j - i) (drop i bs)"

definition copy_into :: "nat \<Rightarrow> bytes \<Rightarrow> bytes \<Rightarrow> bytes" where
  "copy_into i src bs = take i bs @ src @ drop (i + length src) bs"

lemma length_to_le [simp]: "length (to_le n w) = n"
  by (simp add: to_le_def)

lemma to_le_nth: "i < n \<Longrightarrow> to_le n w ! i = ucast (drop_bit (8 * i) w)"
  by (simp add: to_le_def)

lemma bit_from_le:
  "bit (from_le bs :: 'a::len word) k \<longleftrightarrow>
     k < LENGTH('a) \<and> k div 8 < length bs \<and> bit (bs ! (k div 8)) (k mod 8)"
proof (induction bs arbitrary: k)
  case Nil
  then show ?case by simp
next
  case (Cons b bs)
  show ?case
  proof (cases "k < 8")
    case True
    then show ?thesis by (auto simp: bit_or_iff bit_push_bit_iff bit_ucast_iff)
  next
    case False
    then obtain j where k: "k = j + 8" by (metis add.commute le_Suc_ex not_less)
    have "\<not> bit b k" using False bit_imp_le_length[of b k] by auto
    moreover have div: "k div 8 = Suc (j div 8)" using k by simp
    moreover have "(b # bs) ! (k div 8) = bs ! (j div 8)" unfolding div by simp
    moreover have "k mod 8 = j mod 8" using k by simp
    ultimately show ?thesis using k
      by (auto simp: bit_or_iff bit_push_bit_iff bit_ucast_iff Cons.IH dest: bit_imp_le_length)
  qed
qed

lemma mod_8_less: "(k::nat) mod 8 < 8"
  by simp

lemma from_le_to_le:
  assumes "LENGTH('a) = 8 * n"
  shows "from_le (to_le n w) = (w :: 'a::len word)"
proof (rule bit_word_eqI)
  fix k assume "k < LENGTH('a)"
  then have "k div 8 < n" using assms by (simp add: less_mult_imp_div_less mult.commute)
  then show "bit (from_le (to_le n w) :: 'a word) k = bit w k"
    using \<open>k < LENGTH('a)\<close>
    by (simp add: bit_from_le to_le_nth bit_ucast_iff bit_drop_bit_eq add.commute mod_8_less del: One_nat_def)
qed

lemma to_le_from_le:
  assumes "length bs = n" and "8 * n \<le> LENGTH('a)"
  shows "to_le n (from_le bs :: 'a::len word) = bs"
proof (rule nth_equalityI)
  show "length (to_le n (from_le bs :: 'a word)) = length bs" using assms by simp
next
  fix i assume "i < length (to_le n (from_le bs :: 'a word))"
  then have i: "i < n" by simp
  show "to_le n (from_le bs :: 'a word) ! i = bs ! i"
  proof (rule bit_word_eqI)
    fix k assume "k < LENGTH(8)"
    then have k: "k < 8" by simp
    then have "8 * i + k < LENGTH('a)" using i assms(2) by linarith
    then show "bit (to_le n (from_le bs :: 'a word) ! i) k = bit (bs ! i) k"
      using i k assms(1)
      by (simp add: to_le_nth bit_ucast_iff bit_drop_bit_eq bit_from_le)
  qed
qed

lemma to_le_inj:
  fixes v w :: "'a::len word"
  assumes "LENGTH('a) = 8 * n" and "to_le n v = to_le n w"
  shows "v = w"
  using assms by (metis from_le_to_le)

section \<open>Strings\<close>

text \<open>\<open>str::as_bytes\<close>.\<close>

definition as_bytes :: "string \<Rightarrow> bytes" where
  "as_bytes s = map of_char s"

section \<open>Lists, options and maps\<close>

lemma slice_append_left [simp]:
  "length xs = i \<Longrightarrow> slice_range i j (xs @ ys) = take (j - i) ys"
  by (simp add: slice_range_def)

lemma length_slice: "length (slice_range i j bs) = min (j - i) (length bs - i)"
  by (simp add: slice_range_def min.commute)

lemma try_into_array_Some [simp]:
  "try_into_array n bs = Some as \<longleftrightarrow> length bs = n \<and> as = bs"
  by (auto simp: try_into_array_def)

lemma try_into_array_exact [simp]: "length bs = n \<Longrightarrow> try_into_array n bs = Some bs"
  by simp

lemma unat_of_nat_u16: "n < 65536 \<Longrightarrow> unat (of_nat n :: u16) = n"
  by (simp add: unat_of_nat take_bit_eq_mod)

lemma unat_u16_less: "unat (x :: u16) < 65536"
  using unsigned_less[of x] by simp

lemma ran_upd_subset: "ran (m(k \<mapsto> v)) \<subseteq> insert v (ran m)"
  by (auto simp: ran_def)

lemma ran_del_subset: "ran (m(k := None)) \<subseteq> ran m"
  by (auto simp: ran_def)

section \<open>Lists of tasks\<close>

text \<open>What all tasks of a list have, in their order.\<close>

definition of_all :: "('t \<Rightarrow> 'b list) \<Rightarrow> 't list \<Rightarrow> 'b list" where
  "of_all f ts = concat (map f ts)"

lemma of_all_simps [simp]:
  "of_all f [] = []" "of_all f (t # ts) = f t @ of_all f ts" "of_all f (xs @ ys) = of_all f xs @ of_all f ys"
  by (simp_all add: of_all_def)

end
