(* ===== verification/Packet.thy ===== *)
theory Packet
  imports Gw_Prelude
begin

text \<open>
  The wire format of \<^verbatim>\<open>src/src/gateway/packet.rs\<close>: packet types and their codes,
  disconnect reasons, the 16-byte header \<open>PacketGW\<close> and its two conversions.
\<close>

section \<open>Constants and enumerations\<close>

definition PACKET_HEADER_SIZE :: nat where
  [simp]: "PACKET_HEADER_SIZE = 16"

definition PROTOCOL_VERSION_MAJOR :: u32 where
  [simp]: "PROTOCOL_VERSION_MAJOR = 0"

definition PROTOCOL_VERSION_MINOR :: u32 where
  [simp]: "PROTOCOL_VERSION_MINOR = 2"

definition PROTOCOL_VERSION_PATCH :: u32 where
  [simp]: "PROTOCOL_VERSION_PATCH = 0"

definition FLAG_COMPRESSED :: u8 where
  [simp]: "FLAG_COMPRESSED = 0x01"

datatype DisconnectReason =
    AuthFailed
  | VersionMismatch
  | ServerFull
  | Banned
  | RateLimited
  | SessionNotFound

text \<open>\<open>reason as u8\<close>.\<close>

fun DisconnectReason_code :: "DisconnectReason \<Rightarrow> u8" where
  "DisconnectReason_code AuthFailed = 0"
| "DisconnectReason_code VersionMismatch = 1"
| "DisconnectReason_code ServerFull = 2"
| "DisconnectReason_code Banned = 3"
| "DisconnectReason_code RateLimited = 4"
| "DisconnectReason_code SessionNotFound = 5"

definition DisconnectReason_from :: "u8 \<Rightarrow> DisconnectReason" where
  "DisconnectReason_from value =
     (if value = 0 then AuthFailed
      else if value = 1 then VersionMismatch
      else if value = 2 then ServerFull
      else if value = 3 then Banned
      else if value = 4 then RateLimited
      else if value = 5 then SessionNotFound
      else AuthFailed)"

datatype PacketType =
    Regular
  | Ping
  | Pong
  | Open
  | Opened
  | OpenFail
  | Close
  | Closed
  | GwAuth
  | GwConnected
  | GwDeny
  | ProtocolVersion
  | GwAuthChallenge
  | GwAuthResponse
  | SessionRestore

text \<open>\<open>packet_type as u8\<close>: the discriminants of the \<open>repr(u8)\<close> enum.\<close>

fun PacketType_code :: "PacketType \<Rightarrow> u8" where
  "PacketType_code Regular = 0"
| "PacketType_code Ping = 1"
| "PacketType_code Pong = 2"
| "PacketType_code Open = 6"
| "PacketType_code Opened = 7"
| "PacketType_code OpenFail = 8"
| "PacketType_code Close = 9"
| "PacketType_code Closed = 10"
| "PacketType_code GwAuth = 3"
| "PacketType_code GwConnected = 4"
| "PacketType_code GwDeny = 5"
| "PacketType_code ProtocolVersion = 11"
| "PacketType_code GwAuthChallenge = 12"
| "PacketType_code GwAuthResponse = 13"
| "PacketType_code SessionRestore = 30"

fun is_common :: "PacketType \<Rightarrow> bool" where
  "is_common Regular = True"
| "is_common Ping = True"
| "is_common Pong = True"
| "is_common Open = True"
| "is_common Opened = True"
| "is_common OpenFail = True"
| "is_common Close = True"
| "is_common Closed = True"
| "is_common ProtocolVersion = True"
| "is_common GwAuthChallenge = True"
| "is_common GwAuthResponse = True"
| "is_common SessionRestore = True"
| "is_common _ = False"

definition PacketType_from :: "u8 \<Rightarrow> PacketType" where
  "PacketType_from value =
     (if value = 0 then Regular
      else if value = 1 then Ping
      else if value = 2 then Pong
      else if value = 3 then GwAuth
      else if value = 4 then GwConnected
      else if value = 5 then GwDeny
      else if value = 6 then Open
      else if value = 7 then Opened
      else if value = 8 then OpenFail
      else if value = 9 then Close
      else if value = 10 then Closed
      else if value = 11 then ProtocolVersion
      else if value = 12 then GwAuthChallenge
      else if value = 13 then GwAuthResponse
      else if value = 30 then SessionRestore
      else Regular)"

section \<open>The packet header\<close>

record PacketGW =
  packet_type :: PacketType
  packet_id :: u64
  link_id :: u16
  data_size :: u16
  flags :: u8

definition PacketGW_new :: "PacketType \<Rightarrow> u64 \<Rightarrow> u16 \<Rightarrow> u16 \<Rightarrow> PacketGW" where
  "PacketGW_new ty pid lid sz =
     \<lparr>packet_type = ty, packet_id = pid, link_id = lid, data_size = sz, flags = 0\<rparr>"

definition is_compressed :: "PacketGW \<Rightarrow> bool" where
  "is_compressed p \<longleftrightarrow> flags p AND FLAG_COMPRESSED \<noteq> 0"

definition set_flag :: "u8 \<Rightarrow> PacketGW \<Rightarrow> PacketGW" where
  "set_flag flag p = p\<lparr>flags := flags p OR flag\<rparr>"

text \<open>\<open>to_bytes\<close> writes the fields into a zeroed array, one statement per line.\<close>

definition to_bytes :: "PacketGW \<Rightarrow> bytes" where
  "to_bytes p =
     (let bytes = replicate PACKET_HEADER_SIZE 0;
          bytes = bytes[0 := PacketType_code (packet_type p)];
          bytes = copy_into 1 (to_le 8 (packet_id p)) bytes;
          bytes = copy_into 9 (to_le 2 (link_id p)) bytes;
          bytes = copy_into 11 (to_le 2 (data_size p)) bytes;
          bytes = bytes[13 := flags p]
      in bytes)"

definition from_bytes :: "bytes \<Rightarrow> PacketGW option" where
  "from_bytes bytes =
     (if length bytes < PACKET_HEADER_SIZE then None
      else do {
        let ty = PacketType_from (bytes ! 0);
        pid \<leftarrow> try_into_array 8 (slice_range 1 9 bytes);
        lid \<leftarrow> try_into_array 2 (slice_range 9 11 bytes);
        sz \<leftarrow> try_into_array 2 (slice_range 11 13 bytes);
        let fl = bytes ! 13;
        Some \<lparr>packet_type = ty, packet_id = from_le pid, link_id = from_le lid,
              data_size = from_le sz, flags = fl\<rparr>
      })"

section \<open>Lemmas\<close>

lemma PacketType_from_code [simp]: "PacketType_from (PacketType_code t) = t"
  by (cases t) (simp_all add: PacketType_from_def)

lemma DisconnectReason_from_code [simp]: "DisconnectReason_from (DisconnectReason_code r) = r"
  by (cases r) (simp_all add: DisconnectReason_from_def)

lemma PacketType_code_from:
  "PacketType_code (PacketType_from b) = (if b \<le> 13 \<or> b = 30 then b else 0)"
proof -
  have "b = 0 \<or> b = 1 \<or> b = 2 \<or> b = 3 \<or> b = 4 \<or> b = 5 \<or> b = 6 \<or> b = 7 \<or> b = 8 \<or> b = 9
      \<or> b = 10 \<or> b = 11 \<or> b = 12 \<or> b = 13" if "b \<le> 13"
    using that by unat_arith
  then show ?thesis by (auto simp: PacketType_from_def)
qed

lemma PacketGW_new_simps [simp]:
  "packet_type (PacketGW_new t i l n) = t" "packet_id (PacketGW_new t i l n) = i"
  "link_id (PacketGW_new t i l n) = l" "data_size (PacketGW_new t i l n) = n"
  "flags (PacketGW_new t i l n) = 0"
  by (simp_all add: PacketGW_new_def)

lemma is_compressed_new [simp]: "\<not> is_compressed (PacketGW_new t i l n)"
  by (simp add: is_compressed_def)

lemma is_compressed_bit: "is_compressed p \<longleftrightarrow> bit (flags p) 0"
  by (simp add: is_compressed_def and_one_eq odd_iff_mod_2_eq_one bit_0)

lemma is_compressed_set_flag [simp]: "is_compressed (set_flag FLAG_COMPRESSED p)"
  by (simp add: is_compressed_bit set_flag_def bit_or_iff)

text \<open>The statements of \<open>to_bytes\<close> lay the fields out side by side.\<close>

lemma to_bytes_layout:
  "to_bytes p = PacketType_code (packet_type p) # to_le 8 (packet_id p) @ to_le 2 (link_id p) @
     to_le 2 (data_size p) @ [flags p, 0, 0]"
  by (simp add: to_bytes_def copy_into_def Let_def numeral_eq_Suc nth_append list_update_append)

lemma length_to_bytes [simp]: "length (to_bytes p) = 16"
  by (simp add: to_bytes_layout)

lemma to_bytes_fields:
  "(to_bytes p @ rest) ! 0 = PacketType_code (packet_type p)"
  "(to_bytes p @ rest) ! 13 = flags p"
  "slice_range 1 9 (to_bytes p @ rest) = to_le 8 (packet_id p)"
  "slice_range 9 11 (to_bytes p @ rest) = to_le 2 (link_id p)"
  "slice_range 11 13 (to_bytes p @ rest) = to_le 2 (data_size p)"
  by (simp_all add: to_bytes_layout slice_range_def nth_append nth_Cons')

lemma from_bytes_to_bytes_append [simp]: "from_bytes (to_bytes p @ rest) = Some p"
  by (simp add: from_bytes_def to_bytes_fields from_le_to_le del: One_nat_def)

text \<open>A buffer that is long enough always parses; bytes beyond the header are not looked at.\<close>

lemma from_bytes_eq:
  "from_bytes bs =
     (if length bs < 16 then None
      else Some \<lparr>packet_type = PacketType_from (bs ! 0), packet_id = from_le (slice_range 1 9 bs),
        link_id = from_le (slice_range 9 11 bs), data_size = from_le (slice_range 11 13 bs),
        flags = bs ! 13\<rparr>)"
  by (simp add: from_bytes_def length_slice del: One_nat_def)

lemma from_bytes_None_iff: "from_bytes bs = None \<longleftrightarrow> length bs < 16"
  by (simp add: from_bytes_eq)

end
