(* ===== verification/App_Config.thy ===== *)
theory App_Config
  imports Gw_Prelude
begin

text \<open>
  The configuration layer: \<open>AppMode\<close> of \<^verbatim>\<open>src/src/consts.rs\<close> and the settings of
  \<^verbatim>\<open>src/src/configuration.rs\<close>. A Rust \<open>String\<close> is its UTF-8 bytes (\<open>string\<close>). The
  \<open>config\<close> crate, which reads the file, is a parameter: it yields the tables of the file with
  each key present or not (\<open>raw_configuration\<close>), and the model applies the \<open>serde\<close>
  attributes of the source to them.
\<close>

section \<open>Application mode\<close>

datatype AppMode = Undefined | Client | Server

fun AppMode_display :: "AppMode \<Rightarrow> string" where
  "AppMode_display Undefined = ''UNDEFINED''"
| "AppMode_display Client = ''CLIENT''"
| "AppMode_display Server = ''SERVER''"

definition AppMode_default :: AppMode where
  "AppMode_default = Undefined"

text \<open>\<open>str::to_ascii_lowercase\<close> changes the bytes of \<open>A..Z\<close> only.\<close>

definition ascii_lower :: "char \<Rightarrow> char" where
  "ascii_lower c =
     (let n = (of_char c :: nat) in if 65 \<le> n \<and> n \<le> 90 then char_of (n + 32) else c)"

definition to_ascii_lowercase :: "string \<Rightarrow> string" where
  "to_ascii_lowercase s = map ascii_lower s"

definition AppMode_from :: "string \<Rightarrow> AppMode" where
  "AppMode_from s =
     (let l = to_ascii_lowercase s in
      if l = ''client'' then Client else if l = ''server'' then Server else Undefined)"

section \<open>Settings\<close>

record general_settings =
  mode :: string
  key :: string

record network_settings =
  port_gw :: u16
  port_app :: u16
  host_app :: string
  host_gw :: string
  port_metrics :: u16

record configuration =
  general :: general_settings
  network :: network_settings

definition default_metrics_port :: u16 where
  "default_metrics_port = 9090"

text \<open>What the \<open>config\<close> crate finds in the file: \<open>None\<close> for an absent key.\<close>

record raw_configuration =
  raw_mode :: "string option"
  raw_key :: "string option"
  raw_port_gw :: "u16 option"
  raw_port_app :: "u16 option"
  raw_host_app :: "string option"
  raw_host_gw :: "string option"
  raw_port_metrics :: "u16 option"

datatype config_error = ReadError string | MissingField string

definition or_default :: "'a option \<Rightarrow> 'a \<Rightarrow> 'a" where
  "or_default x d = (case x of None \<Rightarrow> d | Some v \<Rightarrow> v)"

definition general_from_raw :: "raw_configuration \<Rightarrow> config_error + general_settings" where
  "general_from_raw r =
     (case raw_mode r of
        None \<Rightarrow> Inl (MissingField ''mode'')
      | Some m \<Rightarrow>
         (case raw_key r of
            None \<Rightarrow> Inl (MissingField ''key'')
          | Some k \<Rightarrow> Inr \<lparr>mode = m, key = k\<rparr>))"

definition network_from_raw :: "raw_configuration \<Rightarrow> network_settings" where
  "network_from_raw r =
     \<lparr>port_gw = or_default (raw_port_gw r) 0,
      port_app = or_default (raw_port_app r) 0,
      host_app = or_default (raw_host_app r) [],
      host_gw = or_default (raw_host_gw r) [],
      port_metrics = or_default (raw_port_metrics r) default_metrics_port\<rparr>"

text \<open>\<open>Configuration::load\<close>; \<open>read\<close> is the builder of the \<open>config\<close> crate.\<close>

definition Configuration_load ::
  "(string \<Rightarrow> config_error + raw_configuration) \<Rightarrow> string \<Rightarrow> config_error + configuration" where
  "Configuration_load read filename =
     (case read filename of
        Inl e \<Rightarrow> Inl e
      | Inr r \<Rightarrow>
         (case general_from_raw r of
            Inl e \<Rightarrow> Inl e
          | Inr g \<Rightarrow> Inr \<lparr>general = g, network = network_from_raw r\<rparr>))"

definition app_mode :: "configuration \<Rightarrow> AppMode" where
  "app_mode c = AppMode_from (mode (general c))"

definition metrics_port :: "configuration \<Rightarrow> u16 option" where
  "metrics_port c =
     (if port_metrics (network c) > 0 then Some (port_metrics (network c)) else None)"

definition validate :: "configuration \<Rightarrow> string + unit" where
  "validate c =
     (case app_mode c of
        Client \<Rightarrow>
          (if port_gw (network c) = 0
           then Inl ''Client mode requires 'port_gw' in [network]''
           else if port_app (network c) = 0
           then Inl ''Client mode requires 'port_app' in [network]''
           else if host_app (network c) = []
           then Inl ''Client mode requires 'host_app' in [network]''
           else if host_gw (network c) = []
           then Inl ''Client mode requires 'host_gw' in [network]''
           else Inr ())
      | Server \<Rightarrow>
          (if port_app (network c) = 0
           then Inl ''Server mode requires 'port_app' in [network]''
           else Inr ())
      | Undefined \<Rightarrow>
          Inl ''Invalid or missing 'mode' in [general]. Must be 'client' or 'server'.'')"

section \<open>Lemmas\<close>

lemma ascii_lower_idem [simp]: "ascii_lower (ascii_lower c) = ascii_lower c"
  by (auto simp: ascii_lower_def Let_def)

lemma to_ascii_lowercase_idem [simp]:
  "to_ascii_lowercase (to_ascii_lowercase s) = to_ascii_lowercase s"
  by (simp add: to_ascii_lowercase_def)

lemma AppMode_from_lower: "AppMode_from (to_ascii_lowercase s) = AppMode_from s"
  by (simp add: AppMode_from_def)

lemma AppMode_from_cases:
  "AppMode_from s = Client \<longleftrightarrow> to_ascii_lowercase s = ''client''"
  "AppMode_from s = Server \<longleftrightarrow> to_ascii_lowercase s = ''server''"
  by (auto simp: AppMode_from_def Let_def)

lemma AppMode_from_display: "AppMode_from (AppMode_display m) = m"
  by (induct m; code_simp)

lemma validate_ok_iff:
  "validate c = Inr () \<longleftrightarrow>
     (app_mode c = Client \<and> port_gw (network c) \<noteq> 0 \<and> port_app (network c) \<noteq> 0 \<and>
      host_app (network c) \<noteq> [] \<and> host_gw (network c) \<noteq> []) \<or>
     (app_mode c = Server \<and> port_app (network c) \<noteq> 0)"
  by (simp add: validate_def split: AppMode.split)

lemma validate_not_undefined: "validate c = Inr () \<Longrightarrow> app_mode c \<noteq> Undefined"
  by (auto simp: validate_ok_iff)

end
