(* ===== verification/Gw_Consts.thy ===== *)
theory Gw_Consts
  imports Gw_Prelude
begin

text \<open>
  The constants, the gateway state and the traffic counters of
  \<^verbatim>\<open>src/src/gateway/consts.rs\<close>. The counters are \<open>u64\<close>: \<open>+=\<close> is addition on
  \<^typ>\<open>u64\<close>, which wraps as it does in the release profile of \<^verbatim>\<open>src/Cargo.toml\<close>
  (no overflow checks).
\<close>

definition BUFFER_SIZE :: nat where
  [simp]: "BUFFER_SIZE = 16384"

definition GW_PING_PERIOD :: nat where
  [simp]: "GW_PING_PERIOD = 30"

definition GW_RECONNECT_TIMEOUT :: nat where
  [simp]: "GW_RECONNECT_TIMEOUT = 5000"

definition GW_READINESS_TIMEOUT :: nat where
  [simp]: "GW_READINESS_TIMEOUT = 5000"

definition MAX_DATA_SIZE :: nat where
  [simp]: "MAX_DATA_SIZE = 10485760"

datatype GatewayState = GsWaiting | GsProcessing | GsConnected

fun GatewayState_display :: "GatewayState \<Rightarrow> string" where
  "GatewayState_display GsWaiting = ''WAITING''"
| "GatewayState_display GsProcessing = ''PROCESSING''"
| "GatewayState_display GsConnected = ''CONNECTED''"

record connection_statistics =
  packets_in :: u64
  packets_out :: u64
  bytes_in :: u64
  bytes_out :: u64
  connection_time :: int

definition ConnectionStatistics_new :: connection_statistics where
  "ConnectionStatistics_new =
     \<lparr>packets_in = 0, packets_out = 0, bytes_in = 0, bytes_out = 0, connection_time = 0\<rparr>"

definition ConnectionStatistics_default :: connection_statistics where
  "ConnectionStatistics_default = ConnectionStatistics_new"

definition inc_packets_in :: "connection_statistics \<Rightarrow> connection_statistics" where
  "inc_packets_in s = s\<lparr>packets_in := packets_in s + 1\<rparr>"

definition inc_packets_out :: "connection_statistics \<Rightarrow> connection_statistics" where
  "inc_packets_out s = s\<lparr>packets_out := packets_out s + 1\<rparr>"

definition add_bytes_in :: "u64 \<Rightarrow> connection_statistics \<Rightarrow> connection_statistics" where
  "add_bytes_in n s = s\<lparr>bytes_in := bytes_in s + n\<rparr>"

definition add_bytes_out :: "u64 \<Rightarrow> connection_statistics \<Rightarrow> connection_statistics" where
  "add_bytes_out n s = s\<lparr>bytes_out := bytes_out s + n\<rparr>"

lemmas statistics_defs =
  inc_packets_in_def inc_packets_out_def add_bytes_in_def add_bytes_out_def

lemma GatewayState_display_inject:
  "GatewayState_display a = GatewayState_display b \<longleftrightarrow> a = b"
  by (cases a; cases b) simp_all

end
