(* ===== verification/Compression.thy ===== *)
theory Compression
  imports Gw_Prelude
begin

text \<open>
  Payload compression, \<^verbatim>\<open>src/src/gateway/compression.rs\<close>. The \<open>zstd\<close> crate is a
  parameter: \<open>encode_all\<close> and \<open>decode_all\<close>, each with its failure. What the receiving side
  relies on, the documented inverse property of the two and that a frame is never empty (it
  starts with a magic number), is \<open>zstd_lawful\<close>.
\<close>

definition MIN_COMPRESS_SIZE :: nat where
  [simp]: "MIN_COMPRESS_SIZE = 1024"

definition COMPRESSION_LEVEL :: int where
  [simp]: "COMPRESSION_LEVEL = 3"

record zstd =
  encode_all :: "bytes \<Rightarrow> int \<Rightarrow> bytes option"
  decode_all :: "bytes \<Rightarrow> bytes option"

definition zstd_lawful :: "zstd \<Rightarrow> bool" where
  "zstd_lawful z \<longleftrightarrow>
     (\<forall>d l c. encode_all z d l = Some c \<longrightarrow> decode_all z c = Some d \<and> c \<noteq> [])"

record compression_result =
  cr_data :: bytes
  cr_is_compressed :: bool

definition compress_data :: "zstd \<Rightarrow> bytes \<Rightarrow> compression_result" where
  "compress_data z d =
     (if length d < MIN_COMPRESS_SIZE then \<lparr>cr_data = d, cr_is_compressed = False\<rparr>
      else
        (case encode_all z d COMPRESSION_LEVEL of
           Some compressed \<Rightarrow>
             (if length compressed < length d
              then \<lparr>cr_data = compressed, cr_is_compressed = True\<rparr>
              else \<lparr>cr_data = d, cr_is_compressed = False\<rparr>)
         | None \<Rightarrow> \<lparr>cr_data = d, cr_is_compressed = False\<rparr>))"

definition decompress_data :: "zstd \<Rightarrow> bytes \<Rightarrow> bool \<Rightarrow> bytes option" where
  "decompress_data z d compressed = (if \<not> compressed then Some d else decode_all z d)"

section \<open>Lemmas\<close>

lemma decompress_uncompressed [simp]: "decompress_data z d False = Some d"
  by (simp add: decompress_data_def)

lemma compress_small: "length d < 1024 \<Longrightarrow> compress_data z d = \<lparr>cr_data = d, cr_is_compressed = False\<rparr>"
  by (simp add: compress_data_def)

lemma compress_not_flagged: "\<not> cr_is_compressed (compress_data z d) \<Longrightarrow> cr_data (compress_data z d) = d"
  by (auto simp: compress_data_def split: option.splits if_splits)

lemma compress_flagged:
  "cr_is_compressed (compress_data z d) \<Longrightarrow>
     encode_all z d 3 = Some (cr_data (compress_data z d)) \<and>
     length (cr_data (compress_data z d)) < length d \<and> 1024 \<le> length d"
  by (auto simp: compress_data_def split: option.splits if_splits)

lemma compress_shrinks: "length (cr_data (compress_data z d)) \<le> length d"
  by (cases "cr_is_compressed (compress_data z d)")
    (auto simp: compress_not_flagged dest: compress_flagged)

lemma decompress_compress:
  "zstd_lawful z \<Longrightarrow>
     decompress_data z (cr_data (compress_data z d)) (cr_is_compressed (compress_data z d)) = Some d"
  by (cases "cr_is_compressed (compress_data z d)")
    (auto simp: compress_not_flagged decompress_data_def zstd_lawful_def dest: compress_flagged)

lemma compress_nonempty: "zstd_lawful z \<Longrightarrow> d \<noteq> [] \<Longrightarrow> cr_data (compress_data z d) \<noteq> []"
  by (cases "cr_is_compressed (compress_data z d)")
    (auto simp: compress_not_flagged zstd_lawful_def dest: compress_flagged)

section \<open>The interface the gateway uses\<close>

text \<open>What \<open>send_gw_packet\<close> and \<open>read_gw_packet\<close> need of the compressor.\<close>

locale payload_codec =
  fixes lawful :: "'z \<Rightarrow> bool"
    and compress :: "'z \<Rightarrow> bytes \<Rightarrow> compression_result"
    and decompress :: "'z \<Rightarrow> bytes \<Rightarrow> bool \<Rightarrow> bytes option"
  assumes inverse: "lawful z \<Longrightarrow>
      decompress z (cr_data (compress z d)) (cr_is_compressed (compress z d)) = Some d"
    and unflagged: "\<not> cr_is_compressed (compress z d) \<Longrightarrow> cr_data (compress z d) = d"
    and never_longer: "length (cr_data (compress z d)) \<le> length d"
    and plain: "decompress z d False = Some d"
    and nonempty: "lawful z \<Longrightarrow> d \<noteq> [] \<Longrightarrow> cr_data (compress z d) \<noteq> []"
begin

lemma fits: "length d \<le> n \<Longrightarrow> length (cr_data (compress z d)) \<le> n"
  using never_longer order_trans by blast

lemma injective: "lawful z \<Longrightarrow> compress z c = compress z d \<Longrightarrow> c = d"
  by (metis inverse option.inject)

end

interpretation zstd_codec: payload_codec zstd_lawful compress_data decompress_data
  by unfold_locales (simp_all add: decompress_compress compress_not_flagged compress_shrinks
      compress_nonempty)

end
