(* ===== verification/Buffer_Pool.thy ===== *)
theory Buffer_Pool
  imports Gw_Consts
begin

text \<open>
  The buffer pool of \<^verbatim>\<open>src/src/gateway/buffer_pool.rs\<close>. A \<open>Vec<u8>\<close> is its contents
  and its capacity, since \<open>PooledBuffer::new\<close> reads the capacity; \<open>resize\<close> grows the
  capacity as the standard library does (doubling, at least the requested length). The pool
  is the stack of idle buffers behind its mutex, with the poison flag of the mutex.
\<close>

section \<open>Vectors of bytes\<close>

record vec =
  vec_data :: bytes
  vec_cap :: nat

definition vec_zeroed :: "nat \<Rightarrow> vec" where
  "vec_zeroed n = \<lparr>vec_data = replicate n 0, vec_cap = n\<rparr>"

definition vec_empty :: vec where
  "vec_empty = \<lparr>vec_data = [], vec_cap = 0\<rparr>"

definition vec_clear :: "vec \<Rightarrow> vec" where
  "vec_clear v = v\<lparr>vec_data := []\<rparr>"

definition vec_reserve :: "nat \<Rightarrow> vec \<Rightarrow> vec" where
  "vec_reserve n v =
     (if n \<le> vec_cap v then v else v\<lparr>vec_cap := max 8 (max (2 * vec_cap v) n)\<rparr>)"

definition vec_resize :: "nat \<Rightarrow> u8 \<Rightarrow> vec \<Rightarrow> vec" where
  "vec_resize n b v =
     (let len = length (vec_data v) in
      if len < n
      then (vec_reserve n v)\<lparr>vec_data := vec_data v @ replicate (n - len) b\<rparr>
      else v\<lparr>vec_data := take n (vec_data v)\<rparr>)"

definition vec_wf :: "vec \<Rightarrow> bool" where
  "vec_wf v \<longleftrightarrow> length (vec_data v) \<le> vec_cap v"

lemma vec_resize_length [simp]: "length (vec_data (vec_resize n b v)) = n"
  by (simp add: vec_resize_def Let_def)

lemma vec_resize_wf: "vec_wf v \<Longrightarrow> vec_wf (vec_resize n b v)"
  by (auto simp: vec_resize_def vec_reserve_def vec_wf_def Let_def)

lemma vec_resize_cap_mono: "vec_cap v \<le> vec_cap (vec_resize n b v)"
  by (auto simp: vec_resize_def vec_reserve_def Let_def)

lemma vec_resize_cap_bound:
  "vec_cap v \<le> 2 * m \<Longrightarrow> n \<le> m \<Longrightarrow> 4 \<le> m \<Longrightarrow> vec_cap (vec_resize n b v) \<le> 2 * m"
  by (auto simp: vec_resize_def vec_reserve_def Let_def)

lemma vec_resize_no_grow: "n \<le> vec_cap v \<Longrightarrow> vec_cap (vec_resize n b v) = vec_cap v"
  by (simp add: vec_resize_def vec_reserve_def Let_def)

lemma vec_clear_resize [simp]:
  "vec_data (vec_resize n b (vec_clear v)) = replicate n b"
  by (simp add: vec_resize_def vec_clear_def Let_def)

lemma vec_clear_cap [simp]: "vec_cap (vec_clear v) = vec_cap v"
  by (simp add: vec_clear_def)

lemma vec_clear_wf [simp]: "vec_wf (vec_clear v)"
  by (simp add: vec_wf_def vec_clear_def)

section \<open>The pool and its buffers\<close>

definition POOL_SIZE :: nat where
  [simp]: "POOL_SIZE = 100"

record buffer_pool =
  bp_buffers :: "vec list"
  bp_poisoned :: bool
  bp_buffer_size :: nat

record pooled_buffer =
  pb_buffer :: vec
  pb_buffer_size :: nat

definition PooledBuffer_new :: "vec \<Rightarrow> pooled_buffer" where
  "PooledBuffer_new v =
     \<lparr>pb_buffer = v, pb_buffer_size = max (vec_cap v) (length (vec_data v))\<rparr>"

text \<open>\<open>Deref\<close> and \<open>DerefMut\<close>: a shared view of the vector, and a mutation of it.\<close>

definition deref :: "pooled_buffer \<Rightarrow> vec" where
  "deref b = pb_buffer b"

definition deref_mut :: "(vec \<Rightarrow> vec) \<Rightarrow> pooled_buffer \<Rightarrow> pooled_buffer" where
  "deref_mut f b = b\<lparr>pb_buffer := f (pb_buffer b)\<rparr>"

text \<open>\<open>Drop\<close>: the buffer is emptied, refilled with zeros and pushed back if there is room.\<close>

definition drop_buffer :: "pooled_buffer \<Rightarrow> buffer_pool \<Rightarrow> buffer_pool" where
  "drop_buffer b p =
     (let buffer = pb_buffer b;
          buffer = vec_clear buffer;
          buffer = vec_resize (pb_buffer_size b) 0 buffer
      in if bp_poisoned p then p
         else if length (bp_buffers p) < POOL_SIZE
         then p\<lparr>bp_buffers := bp_buffers p @ [buffer]\<rparr>
         else p)"

fun push_zeroed :: "nat \<Rightarrow> nat \<Rightarrow> vec list \<Rightarrow> vec list" where
  "push_zeroed 0 size_each buffers = buffers"
| "push_zeroed (Suc n) size_each buffers = push_zeroed n size_each (buffers @ [vec_zeroed size_each])"

definition BufferPool_new :: "nat \<Rightarrow> nat \<Rightarrow> buffer_pool" where
  "BufferPool_new pool_size buffer_size =
     \<lparr>bp_buffers = push_zeroed pool_size buffer_size [], bp_poisoned = False,
      bp_buffer_size = buffer_size\<rparr>"

definition vec_pop :: "'a list \<Rightarrow> ('a \<times> 'a list) option" where
  "vec_pop xs = (if xs = [] then None else Some (last xs, butlast xs))"

definition acquire :: "buffer_pool \<Rightarrow> pooled_buffer \<times> buffer_pool" where
  "acquire p =
     (case (if bp_poisoned p then None else vec_pop (bp_buffers p)) of
        Some (v, rest) \<Rightarrow> (PooledBuffer_new v, p\<lparr>bp_buffers := rest\<rparr>)
      | None \<Rightarrow> (PooledBuffer_new (vec_zeroed (bp_buffer_size p)), p))"

definition BufferPool_default :: buffer_pool where
  "BufferPool_default = BufferPool_new POOL_SIZE BUFFER_SIZE"

section \<open>Invariant\<close>

text \<open>
  \<open>m\<close> bounds the lengths that are ever requested: then no capacity exceeds \<open>2 * m\<close>.
  Idle buffers are all zero and at least as long as the pool's buffer size.
\<close>

definition idle_ok :: "nat \<Rightarrow> nat \<Rightarrow> vec \<Rightarrow> bool" where
  "idle_ok m sz v \<longleftrightarrow>
     vec_wf v \<and> sz \<le> length (vec_data v) \<and> vec_cap v \<le> 2 * m \<and>
     vec_data v = replicate (length (vec_data v)) 0"

definition pool_inv :: "nat \<Rightarrow> buffer_pool \<Rightarrow> bool" where
  "pool_inv m p \<longleftrightarrow>
     4 \<le> m \<and> bp_buffer_size p \<le> m \<and> length (bp_buffers p) \<le> POOL_SIZE \<and>
     list_all (idle_ok m (bp_buffer_size p)) (bp_buffers p)"

definition pooled_ok :: "nat \<Rightarrow> nat \<Rightarrow> pooled_buffer \<Rightarrow> bool" where
  "pooled_ok m sz b \<longleftrightarrow>
     vec_wf (pb_buffer b) \<and> sz \<le> pb_buffer_size b \<and>
     pb_buffer_size b \<le> vec_cap (pb_buffer b) \<and> vec_cap (pb_buffer b) \<le> 2 * m"

lemma push_zeroed_eq: "push_zeroed n k bs = bs @ replicate n (vec_zeroed k)"
  by (induction n k bs rule: push_zeroed.induct) (simp_all add: replicate_app_Cons_same)

lemma idle_ok_zeroed: "k \<le> m \<Longrightarrow> idle_ok m k (vec_zeroed k)"
  by (simp add: idle_ok_def vec_zeroed_def vec_wf_def)

lemma pool_inv_new: "n \<le> 100 \<Longrightarrow> k \<le> m \<Longrightarrow> 4 \<le> m \<Longrightarrow> pool_inv m (BufferPool_new n k)"
  by (auto simp: pool_inv_def BufferPool_new_def push_zeroed_eq list_all_iff idle_ok_zeroed)

lemma pool_inv_default: "pool_inv 65535 BufferPool_default"
  unfolding BufferPool_default_def by (rule pool_inv_new) simp_all

lemma acquire_size [simp]: "bp_buffer_size (snd (acquire p)) = bp_buffer_size p"
  by (auto simp: acquire_def split: option.splits)

lemma drop_size [simp]: "bp_buffer_size (drop_buffer b p) = bp_buffer_size p"
  by (simp add: drop_buffer_def Let_def)

text \<open>The buffer that \<open>acquire\<close> hands out: an idle one or a fresh zeroed one.\<close>

lemma acquire_cases:
  "acquire p = (PooledBuffer_new (vec_zeroed (bp_buffer_size p)), p) \<or>
   bp_buffers p \<noteq> [] \<and>
   acquire p = (PooledBuffer_new (last (bp_buffers p)), p\<lparr>bp_buffers := butlast (bp_buffers p)\<rparr>)"
  by (simp add: acquire_def vec_pop_def)

lemma acquire_idle:
  assumes "pool_inv m p" and "acquire p = (b, p')"
  shows "idle_ok m (bp_buffer_size p) (pb_buffer b)"
    and "b = PooledBuffer_new (pb_buffer b)" and "pool_inv m p'"
proof -
  consider "b = PooledBuffer_new (vec_zeroed (bp_buffer_size p))" "p' = p"
    | "bp_buffers p \<noteq> []" "b = PooledBuffer_new (last (bp_buffers p))"
      "p' = p\<lparr>bp_buffers := butlast (bp_buffers p)\<rparr>"
    using acquire_cases[of p] unfolding assms(2) prod.inject by blast
  then have "idle_ok m (bp_buffer_size p) (pb_buffer b) \<and> b = PooledBuffer_new (pb_buffer b)
      \<and> pool_inv m p'"
  proof cases
    case 1
    then show ?thesis using assms(1) by (simp add: pool_inv_def PooledBuffer_new_def idle_ok_zeroed)
  next
    case 2
    then show ?thesis using assms(1)
      by (auto simp: pool_inv_def PooledBuffer_new_def list_all_iff in_set_butlastD)
  qed
  then show "idle_ok m (bp_buffer_size p) (pb_buffer b)"
    and "b = PooledBuffer_new (pb_buffer b)" and "pool_inv m p'" by auto
qed

lemma idle_pooled_ok: "idle_ok m k v \<Longrightarrow> pooled_ok m k (PooledBuffer_new v)"
  by (auto simp: idle_ok_def pooled_ok_def PooledBuffer_new_def vec_wf_def)

lemma acquire_pooled_ok:
  "pool_inv m p \<Longrightarrow> acquire p = (b, p') \<Longrightarrow> pooled_ok m (bp_buffer_size p) b"
  using acquire_idle idle_pooled_ok by metis

lemma deref_mut_resize_ok:
  "pooled_ok m k b \<Longrightarrow> n \<le> m \<Longrightarrow> 4 \<le> m \<Longrightarrow> pooled_ok m k (deref_mut (vec_resize n x) b)"
  by (auto simp: pooled_ok_def deref_mut_def vec_resize_wf vec_resize_cap_bound
      intro: order_trans vec_resize_cap_mono)

text \<open>Overwriting the contents without changing their length, as \<open>read_exact\<close> does.\<close>

lemma deref_mut_overwrite_ok:
  "pooled_ok m k b \<Longrightarrow> length bs = length (vec_data (pb_buffer b)) \<Longrightarrow>
     pooled_ok m k (deref_mut (\<lambda>v. v\<lparr>vec_data := bs\<rparr>) b)"
  by (simp add: pooled_ok_def deref_mut_def vec_wf_def)

lemma pool_inv_drop:
  assumes "pool_inv m p" and "pooled_ok m (bp_buffer_size p) b"
  shows "pool_inv m (drop_buffer b p)"
proof -
  let ?v = "vec_resize (pb_buffer_size b) 0 (vec_clear (pb_buffer b))"
  have "vec_cap ?v = vec_cap (pb_buffer b)"
    using assms(2) by (simp add: pooled_ok_def vec_resize_no_grow)
  then have "idle_ok m (bp_buffer_size p) ?v"
    using assms(2) by (simp add: idle_ok_def pooled_ok_def vec_resize_wf)
  then show ?thesis using assms(1) by (auto simp: pool_inv_def drop_buffer_def Let_def)
qed

section \<open>The interface the packet reader uses\<close>

text \<open>
  A source of buffers: \<open>usable\<close> says what may be given back, \<open>sized\<close> prepares a buffer of a
  given length. Every borrow keeps the source's invariant.
\<close>

locale buffer_source =
  fixes inv :: "'p \<Rightarrow> bool"
    and usable :: "'p \<Rightarrow> 'b \<Rightarrow> bool"
    and get :: "'p \<Rightarrow> 'b \<times> 'p"
    and give :: "'b \<Rightarrow> 'p \<Rightarrow> 'p"
    and sized :: "nat \<Rightarrow> 'b \<Rightarrow> 'b"
    and fill :: "bytes \<Rightarrow> 'b \<Rightarrow> 'b"
    and contents :: "'b \<Rightarrow> bytes"
    and limit :: nat
  assumes get_inv: "inv p \<Longrightarrow> get p = (b, p') \<Longrightarrow> inv p' \<and> usable p' b"
    and sized_usable: "inv p \<Longrightarrow> usable p b \<Longrightarrow> n \<le> limit \<Longrightarrow> usable p (sized n b)"
    and sized_length: "length (contents (sized n b)) = n"
    and fill_usable: "usable p b \<Longrightarrow> length bs = length (contents b) \<Longrightarrow> usable p (fill bs b)"
    and fill_contents: "contents (fill bs b) = bs"
    and give_inv: "inv p \<Longrightarrow> usable p b \<Longrightarrow> inv (give b p)"
begin

lemma borrow_abandon:
  "inv p \<Longrightarrow> get p = (b, p') \<Longrightarrow> n \<le> limit \<Longrightarrow> inv (give (sized n b) p')"
  using get_inv give_inv sized_usable by blast

lemma borrow_fill:
  assumes "inv p" and "get p = (b, p')" and "length bs \<le> limit"
  shows "inv (give (fill bs (sized (length bs) b)) p')"
  using assms get_inv give_inv sized_usable fill_usable sized_length by metis

end

interpretation pool: buffer_source "pool_inv 65535" "\<lambda>p. pooled_ok 65535 (bp_buffer_size p)"
  acquire drop_buffer "\<lambda>n. deref_mut (vec_resize n 0)"
  "\<lambda>bs. deref_mut (\<lambda>v. v\<lparr>vec_data := bs\<rparr>)" "\<lambda>b. vec_data (deref b)" 65535
proof unfold_locales
  fix p b p' assume *: "pool_inv 65535 p" "acquire p = (b, p')"
  moreover have "bp_buffer_size p' = bp_buffer_size p" using * acquire_size by (metis snd_conv)
  ultimately show "pool_inv 65535 p' \<and> pooled_ok 65535 (bp_buffer_size p') b"
    using acquire_idle(3) acquire_pooled_ok by metis
next
  fix p :: buffer_pool and b n
  assume "pooled_ok 65535 (bp_buffer_size p) b" and "n \<le> (65535::nat)"
  then show "pooled_ok 65535 (bp_buffer_size p) (deref_mut (vec_resize n 0) b)"
    by (rule deref_mut_resize_ok) simp
next
  fix p :: buffer_pool and b and bs :: bytes
  assume "pooled_ok 65535 (bp_buffer_size p) b" and "length bs = length (vec_data (deref b))"
  then show "pooled_ok 65535 (bp_buffer_size p) (deref_mut (\<lambda>v. v\<lparr>vec_data := bs\<rparr>) b)"
    by (simp add: deref_def deref_mut_overwrite_ok)
qed (simp_all add: pool_inv_drop deref_def deref_mut_def)

end
