(* ===== verification/Metrics.thy ===== *)
theory Metrics
  imports Gw_Prelude
begin

text \<open>
  Prometheus metrics, \<^verbatim>\<open>src/src/gateway/metrics.rs\<close>. The collectors belong to the
  \<open>prometheus\<close> crate, so the model keeps what the program tells them: the commands issued to
  the collectors, in order. Before \<open>init_metrics\<close> has set the \<open>OnceLock\<close>s every command is
  dropped, as in the source.
\<close>

definition DEFAULT_METRICS_PORT :: u16 where
  [simp]: "DEFAULT_METRICS_PORT = 9090"

datatype metric_command =
    CountPacket string string   \<comment> \<open>\<open>PACKETS_TOTAL.with_label_values([type, direction]).inc()\<close>\<close>
  | CountBytes u64 string       \<comment> \<open>\<open>BYTES_TOTAL.with_label_values([direction]).inc_by(n)\<close>\<close>
  | SetConnections nat          \<comment> \<open>\<open>ACTIVE_CONNECTIONS.set(count)\<close>\<close>
  | ObserveProcessing string nat \<comment> \<open>type and duration (nanoseconds)\<close>

text \<open>The four \<open>OnceLock\<close>s are set together; \<open>mt_initialized\<close> is \<open>METRICS_INITIALIZED\<close>.\<close>

record metrics =
  mt_initialized :: bool
  mt_commands :: "metric_command list"

definition Metrics_start :: metrics where
  "Metrics_start = \<lparr>mt_initialized = False, mt_commands = []\<rparr>"

text \<open>\<open>register\<close> is the crate's registry; a failed registration panics (\<open>expect\<close>): None.\<close>

definition init_metrics :: "(string \<Rightarrow> bool) \<Rightarrow> metrics \<Rightarrow> metrics option" where
  "init_metrics register m =
     (if mt_initialized m then Some m
      else if \<not> register ''iog_packets_total'' then None
      else if \<not> register ''iog_bytes_total'' then None
      else if \<not> register ''iog_active_connections'' then None
      else if \<not> register ''iog_packet_processing_seconds'' then None
      else Some (m\<lparr>mt_initialized := True\<rparr>))"

definition issue :: "metric_command \<Rightarrow> metrics \<Rightarrow> metrics" where
  "issue c m = (if mt_initialized m then m\<lparr>mt_commands := mt_commands m @ [c]\<rparr> else m)"

definition inc_packets_total :: "string \<Rightarrow> string \<Rightarrow> metrics \<Rightarrow> metrics" where
  "inc_packets_total ty direction m = issue (CountPacket ty direction) m"

definition inc_bytes_total :: "u64 \<Rightarrow> string \<Rightarrow> metrics \<Rightarrow> metrics" where
  "inc_bytes_total n direction m = issue (CountBytes n direction) m"

definition set_active_connections :: "nat \<Rightarrow> metrics \<Rightarrow> metrics" where
  "set_active_connections count m = issue (SetConnections count) m"

definition observe_packet_processing :: "string \<Rightarrow> nat \<Rightarrow> metrics \<Rightarrow> metrics" where
  "observe_packet_processing ty duration m = issue (ObserveProcessing ty duration) m"

lemmas metrics_defs = inc_packets_total_def inc_bytes_total_def set_active_connections_def
  observe_packet_processing_def

text \<open>\<open>metrics_handler\<close>: \<open>encode\<close> is the text encoder with the registry it gathers,
  \<open>utf8\<close> is \<open>String::from_utf8\<close>.\<close>

definition metrics_handler :: "(metrics \<Rightarrow> bytes option) \<Rightarrow> (bytes \<Rightarrow> string option) \<Rightarrow> metrics \<Rightarrow> string" where
  "metrics_handler encode utf8 m =
     (case encode m of
        None \<Rightarrow> ''# Error encoding metrics'' @ [CHR 0x0A]
      | Some buffer \<Rightarrow>
         (case utf8 buffer of
            Some s \<Rightarrow> s
          | None \<Rightarrow> ''# Error encoding metrics'' @ [CHR 0x0A]))"

definition health_handler :: string where
  "health_handler = ''OK''"

text \<open>The routes; any other path is the router's own 404 (None).\<close>

definition metrics_router ::
  "(metrics \<Rightarrow> bytes option) \<Rightarrow> (bytes \<Rightarrow> string option) \<Rightarrow> string \<Rightarrow> (metrics \<Rightarrow> string) option" where
  "metrics_router encode utf8 path =
     (if path = ''/metrics'' then Some (metrics_handler encode utf8)
      else if path = ''/health'' then Some (\<lambda>m. health_handler)
      else None)"

text \<open>
  \<open>start_metrics_server\<close>: \<open>bindable\<close> says whether the port on 0.0.0.0 is free. The result is whether the
  router is served, with the collectors set; None when a registration panics.
\<close>

definition start_metrics_server ::
  "(string \<Rightarrow> bool) \<Rightarrow> (u16 \<Rightarrow> bool) \<Rightarrow> u16 \<Rightarrow> metrics \<Rightarrow> (bool \<times> metrics) option" where
  "start_metrics_server register bindable port m =
     (case init_metrics register m of
        None \<Rightarrow> None
      | Some m \<Rightarrow> Some (bindable port, m))"

section \<open>Lemmas\<close>

lemma issue_initialized [simp]: "mt_initialized (issue c m) = mt_initialized m"
  by (simp add: issue_def)

lemma issue_commands [simp]:
  "mt_commands (issue c m) = (if mt_initialized m then mt_commands m @ [c] else mt_commands m)"
  by (simp add: issue_def)

lemma init_metrics_idem: "init_metrics r m = Some m' \<Longrightarrow> init_metrics r' m' = Some m'"
  by (auto simp: init_metrics_def split: if_splits)

end
