(* ===== verification/Net_Io.thy ===== *)
theory Net_Io
  imports Gw_Prelude
begin

text \<open>
  The environment of the program: what the TCP sockets of the \<open>tokio\<close> runtime do, as data
  that the environment chooses and the program consumes. Nothing here models code of the
  repository.

  A write half (\<open>OwnedWriteHalf\<close>) holds the bytes the peer has been given so far and a credit:
  how many more bytes the connection accepts before it breaks. \<open>write_all\<close> writes everything or
  fails after a prefix, and a broken or shut-down half accepts nothing more. A gateway read half
  is the list of bytes that will arrive before the connection ends; \<open>read_exact\<close> takes exactly
  the bytes asked for or fails. An application read half is the list of the outcomes of its
  \<open>read\<close> calls, and \<open>Ok(0)\<close> (the empty chunk, or no more outcomes) is the end of the stream.
\<close>

section \<open>Write halves\<close>

record wsock =
  w_out :: bytes
  w_credit :: nat
  w_shut :: bool

definition wsock_open :: "nat \<Rightarrow> wsock" where
  "wsock_open credit = \<lparr>w_out = [], w_credit = credit, w_shut = False\<rparr>"

definition w_room :: "wsock \<Rightarrow> nat" where
  "w_room k = (if w_shut k then 0 else w_credit k)"

definition write_all :: "bytes \<Rightarrow> wsock \<Rightarrow> unit io_result \<times> wsock" where
  "write_all d k =
     (if length d \<le> w_room k
      then (Inr (), k\<lparr>w_out := w_out k @ d, w_credit := w_credit k - length d\<rparr>)
      else (Inl WriteError, k\<lparr>w_out := w_out k @ take (w_room k) d, w_credit := 0\<rparr>))"

definition shutdown :: "wsock \<Rightarrow> wsock" where
  "shutdown k = k\<lparr>w_shut := True\<rparr>"

lemma write_all_ok [simp]:
  "length d \<le> w_room k \<Longrightarrow>
     write_all d k = (Inr (), k\<lparr>w_out := w_out k @ d, w_credit := w_credit k - length d\<rparr>)"
  by (simp add: write_all_def)

lemma write_all_fail:
  "\<not> length d \<le> w_room k \<Longrightarrow>
     write_all d k = (Inl WriteError, k\<lparr>w_out := w_out k @ take (w_room k) d, w_credit := 0\<rparr>)"
  by (simp add: write_all_def)

lemma w_room_after [simp]:
  "w_room (k\<lparr>w_out := x, w_credit := w_credit k - n\<rparr>) = w_room k - n"
  by (simp add: w_room_def)

lemma w_room_broken [simp]: "w_room (k\<lparr>w_out := x, w_credit := 0\<rparr>) = 0"
  by (simp add: w_room_def)

lemma w_room_shutdown [simp]: "w_room (shutdown k) = 0"
  by (simp add: w_room_def shutdown_def)

lemma w_out_shutdown [simp]: "w_out (shutdown k) = w_out k"
  by (simp add: shutdown_def)

text \<open>Whatever the outcome, the peer gets a prefix of the data, after what it had.\<close>

lemma write_all_prefix:
  "w_out (snd (write_all d k)) = w_out k @ take (w_room k) d"
  by (simp add: write_all_def)

lemma write_all_result [simp]: "isl (fst (write_all d k)) \<longleftrightarrow> \<not> length d \<le> w_room k"
  by (simp add: write_all_def)

text \<open>Two writes in a row, the second only if the first succeeded, are one write.\<close>

lemma write_all_append:
  "write_all (a @ b) k =
     (case write_all a k of (Inl e, k') \<Rightarrow> (Inl e, k') | (Inr _, k') \<Rightarrow> write_all b k')"
  by (auto simp: write_all_def w_room_def)

lemma write_all_Nil [simp]: "write_all [] k = (Inr (), k)"
  by simp

lemma write_all_room [simp]: "w_room (snd (write_all d k)) = w_room k - length d"
  by (simp add: write_all_def)

lemma write_all_shut [simp]: "w_shut (snd (write_all d k)) = w_shut k"
  by (simp add: write_all_def)

section \<open>Read halves\<close>

type_synonym rsock = bytes

definition read_exact :: "nat \<Rightarrow> rsock \<Rightarrow> bytes io_result \<times> rsock" where
  "read_exact n r = (if n \<le> length r then (Inr (take n r), drop n r) else (Inl UnexpectedEof, []))"

lemma read_exact_append [simp]: "length d = n \<Longrightarrow> read_exact n (d @ r) = (Inr d, r)"
  by (simp add: read_exact_def)

lemma read_exact_Inr:
  "read_exact n r = (Inr d, r') \<longleftrightarrow> n \<le> length r \<and> d = take n r \<and> r' = drop n r"
  by (auto simp: read_exact_def)

lemma read_exact_Inl: "read_exact n r = (Inl e, r') \<longleftrightarrow> length r < n \<and> e = UnexpectedEof \<and> r' = []"
  by (auto simp: read_exact_def)

type_synonym app_reader = "bytes io_result list"

text \<open>\<open>read(&mut buffer)\<close> with a buffer of \<open>n\<close> bytes; a longer chunk comes in pieces.\<close>

fun app_read :: "nat \<Rightarrow> app_reader \<Rightarrow> bytes io_result \<times> app_reader" where
  "app_read n [] = (Inr [], [])"
| "app_read n (Inl e # rs) = (Inl e, rs)"
| "app_read n (Inr d # rs) =
     (if length d \<le> n then (Inr d, rs) else (Inr (take n d), Inr (drop n d) # rs))"

lemma app_read_length: "app_read n r = (Inr d, r') \<Longrightarrow> length d \<le> n"
  by (cases "(n, r)" rule: app_read.cases) (auto split: if_splits)

text \<open>
  What an exchange loop sees of an application: the non-empty chunks up to the end of the
  stream or the first error. Each successful read shrinks what is left.
\<close>

definition reader_size :: "app_reader \<Rightarrow> nat" where
  "reader_size r = (\<Sum>x\<leftarrow>r. case x of Inl e \<Rightarrow> 1 | Inr d \<Rightarrow> Suc (length d))"

lemma app_read_decreases:
  "app_read n r = (Inr d, r') \<Longrightarrow> d \<noteq> [] \<Longrightarrow> reader_size r' < reader_size r"
  by (cases "(n, r)" rule: app_read.cases) (auto simp: reader_size_def split: if_splits)

lemma app_read_size: "app_read n r = (x, r') \<Longrightarrow> reader_size r' \<le> reader_size r"
  by (cases "(n, r)" rule: app_read.cases) (auto simp: reader_size_def split: if_splits)

function chunks :: "nat \<Rightarrow> app_reader \<Rightarrow> bytes list" where
  "chunks n r =
     (case app_read n r of
        (Inl e, r') \<Rightarrow> []
      | (Inr d, r') \<Rightarrow> (if d = [] then [] else d # chunks n r'))"
  by pat_completeness auto
termination
  by (relation "measure (\<lambda>(n, r). reader_size r)") (auto dest: app_read_decreases[OF sym])

declare chunks.simps [simp del]

lemma chunks_small: "d \<in> set (chunks n r) \<Longrightarrow> d \<noteq> [] \<and> length d \<le> n"
proof (induction n r rule: chunks.induct)
  case (1 n r)
  then show ?case
    by (auto simp: chunks.simps[of n r] dest: app_read_length[OF sym] app_read_length
        split: sum.splits prod.splits if_splits)
qed

text \<open>Without errors, the chunks are the bytes the application wrote before its end of stream.\<close>

fun app_bytes :: "app_reader \<Rightarrow> bytes" where
  "app_bytes (Inr d # r) = (if d = [] then [] else d @ app_bytes r)"
| "app_bytes _ = []"

lemma concat_chunks: "0 < n \<Longrightarrow> concat (chunks n r) = app_bytes r"
proof (induction n r rule: chunks.induct)
  case (1 n r)
  show ?case
  proof (cases "(n, r)" rule: app_read.cases)
    case (3 m d rs)
    then show ?thesis using 1 by (auto simp: chunks.simps[of m "Inr d # rs"])
  next
    case (1 m)
    then show ?thesis by (simp add: chunks.simps[of m "[]"])
  next
    case (2 m e rs)
    then show ?thesis by (simp add: chunks.simps[of m "Inl e # rs"])
  qed
qed

section \<open>Streams and addresses\<close>

text \<open>A connection to an application, before and after \<open>into_split\<close>.\<close>

record tcp_stream =
  ts_reader :: app_reader
  ts_writer :: wsock

text \<open>A connection between gateways.\<close>

record gw_stream =
  gs_reader :: rsock
  gs_writer :: wsock

datatype SocketAddr = SocketAddr (addr_ip: u32) (addr_port: u16)

text \<open>\<open>SocketAddr\<close> is \<open>Ord\<close> in Rust: the address first, then the port.\<close>

instantiation SocketAddr :: linorder
begin

definition less_eq_SocketAddr :: "SocketAddr \<Rightarrow> SocketAddr \<Rightarrow> bool" where
  "less_eq_SocketAddr a b \<longleftrightarrow>
     addr_ip a < addr_ip b \<or> addr_ip a = addr_ip b \<and> addr_port a \<le> addr_port b"

definition less_SocketAddr :: "SocketAddr \<Rightarrow> SocketAddr \<Rightarrow> bool" where
  "less_SocketAddr a b \<longleftrightarrow>
     addr_ip a < addr_ip b \<or> addr_ip a = addr_ip b \<and> addr_port a < addr_port b"

instance
  by standard (auto simp: less_eq_SocketAddr_def less_SocketAddr_def SocketAddr.expand)

end

definition unspecified_addr :: SocketAddr where
  "unspecified_addr = SocketAddr 0 0"

text \<open>Lines and file contents are Unicode: lists of code points; \<open>trim\<close> is \<open>str::trim\<close>.\<close>

type_synonym ustring = "nat list"

definition is_white_space :: "nat \<Rightarrow> bool" where
  "is_white_space c \<longleftrightarrow>
     (9 \<le> c \<and> c \<le> 13) \<or> c = 32 \<or> c = 133 \<or> c = 160 \<or> c = 5760 \<or> (8192 \<le> c \<and> c \<le> 8202) \<or>
     c = 8232 \<or> c = 8233 \<or> c = 8239 \<or> c = 8287 \<or> c = 12288"

definition trim :: "ustring \<Rightarrow> ustring" where
  "trim s = rev (dropWhile is_white_space (rev (dropWhile is_white_space s)))"

lemma trim_id: "s = [] \<or> \<not> is_white_space (hd s) \<and> \<not> is_white_space (last s) \<Longrightarrow> trim s = s"
  by (cases "s = []") (auto simp: trim_def dropWhile_eq_self_iff[THEN iffD2] hd_rev)

end
