(* ===== verification/Link.thy ===== *)
theory Link
  imports Net_Io Gw_Consts
begin

text \<open>
  One connection to an application, \<^verbatim>\<open>src/src/gateway/link.rs\<close>. The two halves of the
  socket are environment data of \<open>Net_Io\<close>; the \<open>Notify\<close> that waits for the open confirmation
  is the number of \<open>notify_one\<close> calls made on it.
\<close>

datatype ConnectionState = Disconnected | Connected | Waiting

fun ConnectionState_display :: "ConnectionState \<Rightarrow> string" where
  "ConnectionState_display Disconnected = ''DISCONNECTED''"
| "ConnectionState_display Connected = ''CONNECTED''"
| "ConnectionState_display Waiting = ''WAITING''"

record link =
  link_reader :: app_reader
  connection_id :: u16
  link_writer :: wsock
  link_state :: ConnectionState
  link_statistics :: connection_statistics
  connection_awaiter :: "nat option"

definition Link_new :: "tcp_stream \<Rightarrow> u16 \<Rightarrow> link" where
  "Link_new socket cid =
     \<lparr>link_reader = ts_reader socket, connection_id = cid, link_writer = ts_writer socket,
      link_state = Disconnected, link_statistics = ConnectionStatistics_new,
      connection_awaiter = None\<rparr>"

definition link_send_packet :: "bytes option \<Rightarrow> link \<Rightarrow> link" where
  "link_send_packet payload l =
     (if link_state l \<noteq> Connected then l
      else
        let data_to_send = (case payload of None \<Rightarrow> [] | Some d \<Rightarrow> d);
            size_sent = (of_nat (length data_to_send) :: u64);
            (r, k) = write_all data_to_send (link_writer l);
            l = l\<lparr>link_writer := k\<rparr>
        in case r of
             Inl e \<Rightarrow> l
           | Inr u \<Rightarrow> l\<lparr>link_statistics :=
               (link_statistics l)\<lparr>bytes_out := bytes_out (link_statistics l) + size_sent\<rparr>\<rparr>)"

definition add_incoming :: "u64 \<Rightarrow> link \<Rightarrow> link" where
  "add_incoming n l =
     l\<lparr>link_statistics := (link_statistics l)\<lparr>bytes_in := bytes_in (link_statistics l) + n\<rparr>\<rparr>"

definition get_stats :: "link \<Rightarrow> u64 \<times> u64 \<times> ConnectionState" where
  "get_stats l = (bytes_in (link_statistics l), bytes_out (link_statistics l), link_state l)"

definition set_awaiter :: "nat option \<Rightarrow> link \<Rightarrow> link" where
  "set_awaiter a l = l\<lparr>connection_awaiter := a\<rparr>"

definition set_state :: "ConnectionState \<Rightarrow> link \<Rightarrow> link" where
  "set_state new_state l =
     (let l = l\<lparr>link_state := new_state\<rparr>;
          l = l\<lparr>link_statistics := (link_statistics l)\<lparr>bytes_in := 0\<rparr>\<rparr>;
          l = l\<lparr>link_statistics := (link_statistics l)\<lparr>bytes_out := 0\<rparr>\<rparr>
      in if link_state l = Connected
         then (case connection_awaiter l of
                 Some permits \<Rightarrow> l\<lparr>connection_awaiter := Some (permits + 1)\<rparr>
               | None \<Rightarrow> l)
         else l)"

definition close_connection :: "link \<Rightarrow> link" where
  "close_connection l =
     (let l = l\<lparr>link_writer := shutdown (link_writer l)\<rparr> in l\<lparr>link_state := Disconnected\<rparr>)"

section \<open>Lemmas\<close>

lemma Link_new_simps [simp]:
  "link_reader (Link_new k c) = ts_reader k" "connection_id (Link_new k c) = c"
  "link_writer (Link_new k c) = ts_writer k" "link_state (Link_new k c) = Disconnected"
  by (simp_all add: Link_new_def)

lemma set_state_state [simp]: "link_state (set_state x l) = x"
  by (simp add: set_state_def Let_def split: option.split)

lemma link_frame [simp, frame]:
  "connection_id (link_send_packet d l) = connection_id l"
  "connection_id (add_incoming n l) = connection_id l"
  "connection_id (set_state x l) = connection_id l"
  "connection_id (close_connection l) = connection_id l"
  "link_reader (link_send_packet d l) = link_reader l"
  "link_reader (add_incoming n l) = link_reader l"
  "link_reader (set_state x l) = link_reader l"
  "link_reader (close_connection l) = link_reader l"
  "link_writer (add_incoming n l) = link_writer l"
  "link_writer (set_state x l) = link_writer l"
  "link_state (link_send_packet d l) = link_state l"
  "link_state (add_incoming n l) = link_state l"
  by (auto simp: link_send_packet_def add_incoming_def set_state_def close_connection_def Let_def
      split: option.splits sum.splits prod.splits)

lemma close_connection_simps [simp]:
  "link_state (close_connection l) = Disconnected"
  "link_writer (close_connection l) = shutdown (link_writer l)"
  by (simp_all add: close_connection_def Let_def)

lemma close_connection_idem [simp]: "close_connection (close_connection l) = close_connection l"
  by (simp add: close_connection_def shutdown_def Let_def)

lemma link_send_not_connected [simp]: "link_state l \<noteq> Connected \<Longrightarrow> link_send_packet d l = l"
  by (simp add: link_send_packet_def)

text \<open>What the application receives from one \<open>send_packet\<close>.\<close>

lemma link_send_out:
  "link_state l = Connected \<Longrightarrow>
     w_out (link_writer (link_send_packet (Some d) l)) =
       w_out (link_writer l) @ take (w_room (link_writer l)) d"
  using write_all_prefix[of d "link_writer l"]
  by (auto simp: link_send_packet_def Let_def split: sum.splits prod.splits)

lemma link_send_room:
  "link_state l = Connected \<Longrightarrow>
     w_room (link_writer (link_send_packet (Some d) l)) = w_room (link_writer l) - length d"
  by (simp add: link_send_packet_def write_all_def Let_def)

end
