(* ===== verification/Session_Store.thy ===== *)
theory Session_Store
  imports Net_Io "HOL-Library.Finite_Map"
begin

text \<open>
  The session store of \<^verbatim>\<open>src/src/gateway/session_store.rs\<close> and the file that keeps the
  client's session identifier. A \<open>HashMap\<close> is a finite map. A saved link is its identifier
  and a reference to the shared \<open>Link\<close>. The \<open>uuid\<close> crate is a parameter: \<open>to_str\<close> and
  \<open>parse_str\<close>, of which the code relies on the documented round trip (\<open>uuid_lawful\<close>). The file
  system is a map from paths to contents, with the paths that cannot be written.
\<close>

type_synonym uuid = "128 word"
type_synonym lref = nat

type_synonym session_store = "(uuid, (u16 \<times> lref) list) fmap"

definition SessionStore_new :: session_store where
  "SessionStore_new = fmempty"

definition SessionStore_default :: session_store where
  "SessionStore_default = SessionStore_new"

definition save_session :: "uuid \<Rightarrow> (u16 \<times> lref) list \<Rightarrow> session_store \<Rightarrow> session_store" where
  "save_session sid links st = fmupd sid links st"

definition restore_session ::
  "uuid \<Rightarrow> session_store \<Rightarrow> (u16 \<times> lref) list option \<times> session_store" where
  "restore_session sid st = (fmlookup st sid, fmdrop sid st)"

definition has_session :: "uuid \<Rightarrow> session_store \<Rightarrow> bool" where
  "has_session sid st \<longleftrightarrow> sid |\<in>| fmdom st"

definition remove_session :: "uuid \<Rightarrow> session_store \<Rightarrow> session_store" where
  "remove_session sid st = fmdrop sid st"

definition session_count :: "session_store \<Rightarrow> nat" where
  "session_count st = fcard (fmdom st)"

section \<open>The session file\<close>

record uuid_crate =
  to_str :: "uuid \<Rightarrow> ustring"
  parse_str :: "ustring \<Rightarrow> uuid option"

text \<open>The printed form has no white space at its ends and parses back.\<close>

definition uuid_lawful :: "uuid_crate \<Rightarrow> bool" where
  "uuid_lawful u \<longleftrightarrow>
     (\<forall>i. parse_str u (to_str u i) = Some i \<and> to_str u i \<noteq> [] \<and>
          \<not> is_white_space (hd (to_str u i)) \<and> \<not> is_white_space (last (to_str u i)))"

record file_system =
  fs_files :: "(string, ustring) fmap"
  fs_readonly :: "string fset"

text \<open>\<open>generate_session_id\<close>: \<open>new_v4\<close> is the crate's random identifier.\<close>

definition generate_session_id :: "(unit \<Rightarrow> uuid) \<Rightarrow> uuid" where
  "generate_session_id new_v4 = new_v4 ()"

definition SESSION_FILE :: string where
  "SESSION_FILE = ''iog_session_id''"

definition session_path :: "string option \<Rightarrow> string" where
  "session_path path = (case path of Some p \<Rightarrow> p | None \<Rightarrow> SESSION_FILE)"

definition persist_session_id ::
  "uuid_crate \<Rightarrow> uuid \<Rightarrow> string option \<Rightarrow> file_system \<Rightarrow> unit io_result \<times> file_system" where
  "persist_session_id u sid path fs =
     (let file_path = session_path path in
      if file_path |\<in>| fs_readonly fs then (Inl WriteError, fs)
      else (Inr (), fs\<lparr>fs_files := fmupd file_path (to_str u sid) (fs_files fs)\<rparr>))"

definition load_session_id :: "uuid_crate \<Rightarrow> string option \<Rightarrow> file_system \<Rightarrow> uuid option" where
  "load_session_id u path fs =
     (let file_path = session_path path in
      case fmlookup (fs_files fs) file_path of
        Some contents \<Rightarrow> parse_str u (trim contents)
      | None \<Rightarrow> None)"

section \<open>Lemmas\<close>

lemmas session_store_defs = save_session_def restore_session_def has_session_def
  remove_session_def session_count_def SessionStore_new_def

lemma persist_ok_iff:
  "is_ok (fst (persist_session_id u i path fs)) \<longleftrightarrow> session_path path |\<notin>| fs_readonly fs"
  by (simp add: persist_session_id_def Let_def)

lemma load_after_persist:
  "uuid_lawful u \<Longrightarrow> persist_session_id u i path fs = (Inr (), fs') \<Longrightarrow>
     load_session_id u path fs' = Some i"
  by (auto simp: persist_session_id_def load_session_id_def uuid_lawful_def Let_def trim_id
      split: if_splits)

lemma load_other_path:
  "session_path q \<noteq> session_path path \<Longrightarrow> persist_session_id u i path fs = (r, fs') \<Longrightarrow>
     load_session_id u q fs' = load_session_id u q fs"
  by (auto simp: persist_session_id_def load_session_id_def Let_def split: if_splits)

section \<open>The interface of a keyed store\<close>

text \<open>
  What the server relies on: a saved session is found until it is restored or removed, other
  sessions are left alone, and the count follows the identifiers held.
\<close>

locale keyed_store =
  fixes empty :: "'st"
    and put :: "'k \<Rightarrow> 'v \<Rightarrow> 'st \<Rightarrow> 'st"
    and take_out :: "'k \<Rightarrow> 'st \<Rightarrow> 'v option \<times> 'st"
    and del :: "'k \<Rightarrow> 'st \<Rightarrow> 'st"
    and has :: "'k \<Rightarrow> 'st \<Rightarrow> bool"
    and count :: "'st \<Rightarrow> nat"
    and view :: "'st \<Rightarrow> 'k \<rightharpoonup> 'v"
  assumes view_empty: "view empty = Map.empty"
    and view_put: "view (put k v st) = (view st)(k \<mapsto> v)"
    and view_take: "fst (take_out k st) = view st k" "view (snd (take_out k st)) = (view st)(k := None)"
    and view_del: "view (del k st) = (view st)(k := None)"
    and has_iff: "has k st \<longleftrightarrow> k \<in> dom (view st)"
    and count_eq: "count st = card (dom (view st))"
    and view_finite: "finite (dom (view st))"
begin

lemma take_after_put: "fst (take_out k (put k v st)) = Some v"
  by (simp add: view_take view_put)

lemma take_removes: "\<not> has k (snd (take_out k st))"
  by (simp add: has_iff view_take)

lemma take_once: "fst (take_out k (snd (take_out k st))) = None"
  by (simp add: view_take)

lemma put_keeps_other: "k \<noteq> k' \<Longrightarrow> view (put k v st) k' = view st k'"
  by (simp add: view_put)

lemma count_put_new: "\<not> has k st \<Longrightarrow> count (put k v st) = Suc (count st)"
  by (simp add: has_iff count_eq view_put view_finite)

lemma count_put_old: "has k st \<Longrightarrow> count (put k v st) = count st"
  by (simp add: has_iff count_eq view_put insert_absorb)

lemma count_take: "count (snd (take_out k st)) = (if has k st then count st - 1 else count st)"
  by (simp add: has_iff count_eq view_take view_finite)

lemma count_empty: "count empty = 0"
  by (simp add: count_eq view_empty)

end

interpretation sessions: keyed_store SessionStore_new save_session restore_session remove_session
  has_session session_count fmlookup
proof unfold_locales
  fix st :: session_store
  have "fset (fmdom st) = dom (fmlookup st)" by (simp add: fmdom.rep_eq)
  then show "session_count st = card (dom (fmlookup st))"
    by (simp add: session_count_def fcard.rep_eq)
qed (auto simp: session_store_defs fmlookup_dom_iff fmlookup_dom'_iff intro: fmdomI)

end
