(* ===== verification/Gateway.thy ===== *)
theory Gateway
  imports Packet App_Config Gw_Consts Compression Buffer_Pool Metrics Link Session_Store
begin

text \<open>
  The base gateway of \<^verbatim>\<open>src/src/gateway/mod.rs\<close>, which the client and the server embed.
  What the tasks of one process share is explicit state: \<open>process\<close> holds the objects behind
  \<open>Arc<Mutex<..>>\<close> (a heap of links, a heap of write halves), the global buffer pool and the
  global metrics, and what the clock shows; \<open>gateway\<close> adds the fields of the struct \<open>Gateway\<close>.
  The composition \<open>base: Gateway\<close> of client and server is record extension, so the operations
  work on \<open>'a gateway_scheme\<close>.
\<close>

type_synonym wref = nat

record process =
  pr_links :: "lref \<Rightarrow> link"
  pr_next_link :: lref
  pr_writers :: "wref \<Rightarrow> wsock"
  pr_next_writer :: wref
  pr_pool :: buffer_pool
  pr_metrics :: metrics
  pr_now :: int
  pr_elapsed :: nat

record gateway = process +
  gw_config :: configuration
  gw_state :: GatewayState
  gw_links :: "(u16, lref) fmap"
  gw_statistics :: connection_statistics
  gw_packet_id_counter :: u64
  gw_link_id_counter :: u16
  gw_keep_alive_stamp :: int

section \<open>Shared objects\<close>

definition alloc_link :: "link \<Rightarrow> 'a process_scheme \<Rightarrow> lref \<times> 'a process_scheme" where
  "alloc_link l s =
     (let r = pr_next_link s in
      (r, s\<lparr>pr_links := (pr_links s)(r := l), pr_next_link := Suc r\<rparr>))"

definition update_link :: "lref \<Rightarrow> (link \<Rightarrow> link) \<Rightarrow> 'a process_scheme \<Rightarrow> 'a process_scheme" where
  "update_link r f s = s\<lparr>pr_links := (pr_links s)(r := f (pr_links s r))\<rparr>"

definition alloc_writer :: "wsock \<Rightarrow> 'a process_scheme \<Rightarrow> wref \<times> 'a process_scheme" where
  "alloc_writer k s =
     (let w = pr_next_writer s in
      (w, s\<lparr>pr_writers := (pr_writers s)(w := k), pr_next_writer := Suc w\<rparr>))"

definition gw_write :: "wref \<Rightarrow> bytes \<Rightarrow> 'a process_scheme \<Rightarrow> unit io_result \<times> 'a process_scheme" where
  "gw_write w d s =
     (let (r, k) = write_all d (pr_writers s w) in
      (r, s\<lparr>pr_writers := (pr_writers s)(w := k)\<rparr>))"

definition gw_shutdown_writer :: "wref \<Rightarrow> 'a process_scheme \<Rightarrow> 'a process_scheme" where
  "gw_shutdown_writer w s =
     s\<lparr>pr_writers := (pr_writers s)(w := shutdown (pr_writers s w))\<rparr>"

definition with_metrics :: "(metrics \<Rightarrow> metrics) \<Rightarrow> 'a process_scheme \<Rightarrow> 'a process_scheme" where
  "with_metrics f s = s\<lparr>pr_metrics := f (pr_metrics s)\<rparr>"

definition with_statistics ::
  "(connection_statistics \<Rightarrow> connection_statistics) \<Rightarrow> 'a gateway_scheme \<Rightarrow> 'a gateway_scheme" where
  "with_statistics f s = s\<lparr>gw_statistics := f (gw_statistics s)\<rparr>"

lemmas shared_defs = alloc_link_def update_link_def alloc_writer_def gw_write_def
  gw_shutdown_writer_def with_metrics_def with_statistics_def

section \<open>Construction and identifiers\<close>

definition Gateway_new :: "configuration \<Rightarrow> process \<Rightarrow> gateway" where
  "Gateway_new config p = process.extend p
     \<lparr>gw_config = config, gw_state = GsWaiting, gw_links = fmempty,
      gw_statistics = ConnectionStatistics_new, gw_packet_id_counter = 0,
      gw_link_id_counter = 1, gw_keep_alive_stamp = pr_now p\<rparr>"

definition next_packet_id :: "'a gateway_scheme \<Rightarrow> u64 \<times> 'a gateway_scheme" where
  "next_packet_id s =
     (let s = s\<lparr>gw_packet_id_counter := gw_packet_id_counter s + 1\<rparr> in
      (gw_packet_id_counter s, s))"

definition next_link_id :: "'a gateway_scheme \<Rightarrow> u16 \<times> 'a gateway_scheme" where
  "next_link_id s =
     (let lid = gw_link_id_counter s in
      (lid, s\<lparr>gw_link_id_counter := gw_link_id_counter s + 1\<rparr>))"

section \<open>The registry of links\<close>

definition update_connections_metric :: "'a gateway_scheme \<Rightarrow> 'a gateway_scheme" where
  "update_connections_metric s =
     (let count = fcard (fmdom (gw_links s)) in with_metrics (set_active_connections count) s)"

definition add_link :: "lref \<Rightarrow> 'a gateway_scheme \<Rightarrow> 'a gateway_scheme" where
  "add_link r s =
     (let lid = connection_id (pr_links s r);
          s = s\<lparr>gw_links := fmupd lid r (gw_links s)\<rparr>
      in update_connections_metric s)"

definition gw_remove_link :: "u16 \<Rightarrow> 'a gateway_scheme \<Rightarrow> lref option \<times> 'a gateway_scheme" where
  "gw_remove_link lid s =
     (let l = fmlookup (gw_links s) lid;
          s = s\<lparr>gw_links := fmdrop lid (gw_links s)\<rparr>
      in (l, update_connections_metric s))"

text \<open>
  \<open>drain\<close> yields every entry once, in an order that the hash map chooses: \<open>order\<close> lists the
  keys in that order.
\<close>

definition drains :: "'k list \<Rightarrow> ('k, 'v) fmap \<Rightarrow> bool" where
  "drains order m \<longleftrightarrow> distinct order \<and> fset_of_list order = fmdom m"

fun close_drained :: "u16 list \<Rightarrow> 'a gateway_scheme \<Rightarrow> 'a gateway_scheme" where
  "close_drained [] s = s"
| "close_drained (lid # order) s =
     (case fmlookup (gw_links s) lid of
        Some r \<Rightarrow> close_drained order (update_link r close_connection s)
      | None \<Rightarrow> close_drained order s)"

definition close_all_links :: "u16 list \<Rightarrow> 'a gateway_scheme \<Rightarrow> 'a gateway_scheme" where
  "close_all_links order s =
     (let s = close_drained order s;
          s = s\<lparr>gw_links := fmempty\<rparr>
      in update_connections_metric s)"

text \<open>\<open>format!("{:?}", packet_type)\<close>.\<close>

fun PacketType_debug :: "PacketType \<Rightarrow> string" where
  "PacketType_debug Regular = ''Regular''"
| "PacketType_debug Ping = ''Ping''"
| "PacketType_debug Pong = ''Pong''"
| "PacketType_debug Open = ''Open''"
| "PacketType_debug Opened = ''Opened''"
| "PacketType_debug OpenFail = ''OpenFail''"
| "PacketType_debug Close = ''Close''"
| "PacketType_debug Closed = ''Closed''"
| "PacketType_debug GwAuth = ''GwAuth''"
| "PacketType_debug GwConnected = ''GwConnected''"
| "PacketType_debug GwDeny = ''GwDeny''"
| "PacketType_debug ProtocolVersion = ''ProtocolVersion''"
| "PacketType_debug GwAuthChallenge = ''GwAuthChallenge''"
| "PacketType_debug GwAuthResponse = ''GwAuthResponse''"
| "PacketType_debug SessionRestore = ''SessionRestore''"

section \<open>Sending a packet\<close>

text \<open>The header and payload that go out, and whether the payload was compressed.\<close>

definition prepare_packet ::
  "zstd \<Rightarrow> PacketGW \<Rightarrow> bytes option \<Rightarrow> PacketGW \<times> bytes option \<times> bool" where
  "prepare_packet z packet data =
     (case data of
        Some d \<Rightarrow>
          (if length d \<ge> MIN_COMPRESS_SIZE
           then
             (let result = compress_data z d in
              if cr_is_compressed result
              then ((set_flag FLAG_COMPRESSED packet)
                      \<lparr>data_size := of_nat (length (cr_data result))\<rparr>,
                    Some (cr_data result), True)
              else (packet, Some d, False))
           else (packet, Some d, False))
      | None \<Rightarrow> (packet, None, False))"

definition payload_len :: "bytes option \<Rightarrow> nat" where
  "payload_len payload = (case payload of Some p \<Rightarrow> length p | None \<Rightarrow> 0)"

text \<open>Statistics and metrics of a packet that went out.\<close>

definition finish_send ::
  "PacketGW \<Rightarrow> nat \<Rightarrow> bool \<Rightarrow> 'a gateway_scheme \<Rightarrow> 'a gateway_scheme" where
  "finish_send send_packet total_bytes compressed_flag s =
     (let s = with_statistics inc_packets_out s;
          s = with_statistics (add_bytes_out (of_nat total_bytes)) s;
          ty = PacketType_debug (packet_type send_packet);
          s = with_metrics (inc_packets_total ty ''out'') s;
          s = with_metrics (inc_bytes_total (of_nat total_bytes) ''out'') s;
          s = (if compressed_flag then with_metrics (inc_packets_total ty ''compressed'') s else s);
          s = with_metrics (observe_packet_processing ty (pr_elapsed s)) s
      in s)"

definition send_gw_packet ::
  "zstd \<Rightarrow> wref \<Rightarrow> PacketGW \<Rightarrow> bytes option \<Rightarrow> 'a gateway_scheme
    \<Rightarrow> unit io_result \<times> 'a gateway_scheme" where
  "send_gw_packet z w packet data s =
     (let (send_packet, payload, compressed_flag) = prepare_packet z packet data;
          total_bytes = PACKET_HEADER_SIZE + payload_len payload;
          (r, s) = gw_write w (to_bytes send_packet) s
      in case r of Inl e \<Rightarrow> (Inl e, s) | Inr _ \<Rightarrow>
     (let (r, s) = (case payload of Some p \<Rightarrow> gw_write w p s | None \<Rightarrow> (Inr (), s))
      in case r of Inl e \<Rightarrow> (Inl e, s) | Inr _ \<Rightarrow>
     (Inr (), finish_send send_packet total_bytes compressed_flag s)))"

section \<open>Reading a packet\<close>

text \<open>The payload, through a buffer of the pool: \<open>None\<close> is the early return of the source.\<close>

definition read_payload ::
  "zstd \<Rightarrow> PacketGW \<Rightarrow> rsock \<Rightarrow> 'a gateway_scheme
    \<Rightarrow> (nat \<times> bytes) option \<times> rsock \<times> 'a gateway_scheme" where
  "read_payload z packet rs s =
     (if unat (data_size packet) > MAX_DATA_SIZE then (None, rs, s)
      else
        let (pooled, p) = acquire (pr_pool s);
            s = s\<lparr>pr_pool := p\<rparr>;
            pooled = deref_mut (vec_resize (unat (data_size packet)) 0) pooled;
            (r, rs) = read_exact (length (vec_data (deref pooled))) rs
        in case r of
             Inl e \<Rightarrow> (None, rs, s\<lparr>pr_pool := drop_buffer pooled (pr_pool s)\<rparr>)
           | Inr filled \<Rightarrow>
        (let pooled = deref_mut (\<lambda>v. v\<lparr>vec_data := filled\<rparr>) pooled;
             n = length (vec_data (deref pooled));
             s = with_statistics (add_bytes_in (of_nat n)) s;
             raw = vec_data (deref pooled);
             s = s\<lparr>pr_pool := drop_buffer pooled (pr_pool s)\<rparr>
         in case decompress_data z raw (is_compressed packet) of
              Some decompressed \<Rightarrow> (Some (n, decompressed), rs, s)
            | None \<Rightarrow> (None, rs, s)))"

definition finish_read :: "PacketGW \<Rightarrow> nat \<Rightarrow> 'a gateway_scheme \<Rightarrow> 'a gateway_scheme" where
  "finish_read packet total_bytes s =
     (let ty = PacketType_debug (packet_type packet);
          s = with_metrics (inc_packets_total ty ''in'') s;
          s = with_metrics (inc_bytes_total (of_nat total_bytes) ''in'') s;
          s = with_metrics (observe_packet_processing ty (pr_elapsed s)) s
      in s)"

definition read_gw_packet ::
  "zstd \<Rightarrow> rsock \<Rightarrow> 'a gateway_scheme
    \<Rightarrow> (PacketGW \<times> bytes option) option \<times> rsock \<times> 'a gateway_scheme" where
  "read_gw_packet z rs s =
     (let (r, rs) = read_exact PACKET_HEADER_SIZE rs
      in case r of Inl e \<Rightarrow> (None, rs, s) | Inr header_buf \<Rightarrow>
     (case from_bytes header_buf of None \<Rightarrow> (None, rs, s) | Some packet \<Rightarrow>
     (let total_bytes = PACKET_HEADER_SIZE;
          s = with_statistics inc_packets_in s;
          s = with_statistics (add_bytes_in (of_nat PACKET_HEADER_SIZE)) s
      in if data_size packet > 0
         then
           (case read_payload z packet rs s of
              (None, rs, s) \<Rightarrow> (None, rs, s)
            | (Some (n, d), rs, s) \<Rightarrow>
                (Some (packet, Some d), rs, finish_read packet (total_bytes + n) s))
         else (Some (packet, None), rs, finish_read packet total_bytes s))))"

section \<open>Keep-alive and shutdown\<close>

definition send_pong :: "zstd \<Rightarrow> wref \<Rightarrow> u64 \<Rightarrow> 'a gateway_scheme \<Rightarrow> 'a gateway_scheme" where
  "send_pong z w original_packet_id s =
     (let (pong_id, s) = next_packet_id s;
          pong = PacketGW_new Pong pong_id 0 0
      in snd (send_gw_packet z w pong None s))"

definition update_keepalive :: "'a gateway_scheme \<Rightarrow> 'a gateway_scheme" where
  "update_keepalive s = s\<lparr>gw_keep_alive_stamp := pr_now s\<rparr>"

text \<open>\<open>Gateway::shutdown\<close>; the two seconds of sleep are the environment's.\<close>

definition gw_shutdown :: "u16 list \<Rightarrow> 'a gateway_scheme \<Rightarrow> 'a gateway_scheme" where
  "gw_shutdown order s = close_all_links order s"

section \<open>Lemmas: shared objects\<close>

lemma gw_write_eq:
  "gw_write w d s = (fst (write_all d (pr_writers s w)),
     s\<lparr>pr_writers := (pr_writers s)(w := snd (write_all d (pr_writers s w)))\<rparr>)"
  by (simp add: gw_write_def split: prod.split)

lemma update_metric_eq:
  "update_connections_metric s =
     s\<lparr>pr_metrics := set_active_connections (fcard (fmdom (gw_links s))) (pr_metrics s)\<rparr>"
  by (simp add: update_connections_metric_def with_metrics_def)

lemma next_packet_id_eq:
  "next_packet_id s = (gw_packet_id_counter s + 1, s\<lparr>gw_packet_id_counter := gw_packet_id_counter s + 1\<rparr>)"
  by (simp add: next_packet_id_def Let_def)

lemma update_link_simps [simp]:
  "pr_links (update_link r f s) = (pr_links s)(r := f (pr_links s r))"
  "pr_writers (update_link r f s) = pr_writers s"
  by (simp_all add: update_link_def)

lemma update_link_gateway [simp]:
  "gw_packet_id_counter (update_link r f s) = gw_packet_id_counter s"
  "gw_links (update_link r f s) = gw_links s"
  by (simp_all add: update_link_def)

text \<open>
  The bytes of a packet on the wire. Header and payload go out in two writes; together they
  are one write of the wire image.
\<close>

definition wire :: "zstd \<Rightarrow> PacketGW \<Rightarrow> bytes option \<Rightarrow> bytes" where
  "wire z packet data =
     (case prepare_packet z packet data of
        (p, payload, _) \<Rightarrow> to_bytes p @ (case payload of Some d \<Rightarrow> d | None \<Rightarrow> []))"

lemma send_gw_packet_eq:
  "send_gw_packet z w packet data s =
     (case gw_write w (wire z packet data) s of
        (Inl e, s') \<Rightarrow> (Inl e, s')
      | (Inr _, s') \<Rightarrow>
         (Inr (), finish_send (fst (prepare_packet z packet data)) (length (wire z packet data))
            (snd (snd (prepare_packet z packet data))) s'))"
  by (auto simp: send_gw_packet_def wire_def gw_write_eq write_all_append payload_len_def Let_def
      split: prod.splits sum.splits option.splits)

lemma finish_send_eq:
  "\<exists>st m. finish_send p n c s = s\<lparr>gw_statistics := st, pr_metrics := m\<rparr>"
  by (simp add: finish_send_def with_statistics_def with_metrics_def Let_def) blast


section \<open>Lemmas: sending\<close>

lemma send_gw_packet_shape:
  "\<exists>k st m. snd (send_gw_packet z w p d s) =
     s\<lparr>pr_writers := (pr_writers s)(w := k), gw_statistics := st, pr_metrics := m\<rparr>"
proof (cases "fst (write_all (wire z p d) (pr_writers s w))")
  case (Inl e)
  then have "snd (send_gw_packet z w p d s) = s\<lparr>pr_writers :=
      (pr_writers s)(w := snd (write_all (wire z p d) (pr_writers s w))),
      gw_statistics := gw_statistics s, pr_metrics := pr_metrics s\<rparr>"
    by (simp add: send_gw_packet_eq gw_write_eq)
  then show ?thesis by blast
next
  case (Inr u)
  let ?s = "snd (gw_write w (wire z p d) s)"
  have "snd (send_gw_packet z w p d s) = finish_send (fst (prepare_packet z p d))
      (length (wire z p d)) (snd (snd (prepare_packet z p d))) ?s"
    using Inr by (simp add: send_gw_packet_eq gw_write_eq)
  then show ?thesis using finish_send_eq
    by (metis gw_write_eq snd_conv)
qed

lemma send_frame [simp, frame]:
  "pr_links (snd (send_gw_packet z w p d s)) = pr_links s"
  "pr_next_link (snd (send_gw_packet z w p d s)) = pr_next_link s"
  "pr_next_writer (snd (send_gw_packet z w p d s)) = pr_next_writer s"
  "pr_pool (snd (send_gw_packet z w p d s)) = pr_pool s"
  "pr_now (snd (send_gw_packet z w p d s)) = pr_now s"
  "gw_config (snd (send_gw_packet z w p d s)) = gw_config s"
  "gw_state (snd (send_gw_packet z w p d s)) = gw_state s"
  "gw_links (snd (send_gw_packet z w p d s)) = gw_links s"
  "gw_packet_id_counter (snd (send_gw_packet z w p d s)) = gw_packet_id_counter s"
  "gw_link_id_counter (snd (send_gw_packet z w p d s)) = gw_link_id_counter s"
  "gw_keep_alive_stamp (snd (send_gw_packet z w p d s)) = gw_keep_alive_stamp s"
  using send_gw_packet_shape[of z w p d s] by auto

text \<open>What the peer gets: the wire image, or the prefix that the connection still takes.\<close>

lemma send_writer:
  "pr_writers (snd (send_gw_packet z w p d s)) =
     (pr_writers s)(w := snd (write_all (wire z p d) (pr_writers s w)))"
proof -
  have "pr_writers (finish_send q n c t) = pr_writers t" for q n c and t :: "'a gateway_scheme"
    using finish_send_eq[of q n c t] by auto
  then show ?thesis by (simp add: send_gw_packet_eq gw_write_eq split: sum.split)
qed

lemma send_result:
  "isl (fst (send_gw_packet z w p d s)) \<longleftrightarrow> w_room (pr_writers s w) < length (wire z p d)"
  by (auto simp: send_gw_packet_eq gw_write_eq write_all_def split: sum.split)

lemma send_out:
  "w_out (pr_writers (snd (send_gw_packet z w p d s)) w) =
     w_out (pr_writers s w) @ take (w_room (pr_writers s w)) (wire z p d)"
  by (simp add: send_writer write_all_prefix)

lemma send_room:
  "w_room (pr_writers (snd (send_gw_packet z w p d s)) w) =
     w_room (pr_writers s w) - length (wire z p d)"
  by (simp add: send_writer)

lemma send_statistics:
  "gw_statistics (snd (send_gw_packet z w p d s)) =
     (if w_room (pr_writers s w) < length (wire z p d) then gw_statistics s
      else add_bytes_out (of_nat (length (wire z p d))) (inc_packets_out (gw_statistics s)))"
proof (cases "w_room (pr_writers s w) < length (wire z p d)")
  case True
  then show ?thesis by (simp add: send_gw_packet_eq gw_write_eq write_all_fail)
next
  case False
  then show ?thesis
    by (simp add: send_gw_packet_eq gw_write_eq finish_send_def with_statistics_def
        with_metrics_def Let_def)
qed

section \<open>Lemmas: reading\<close>

lemma finish_read_eq:
  "\<exists>m. finish_read p n s = s\<lparr>pr_metrics := m\<rparr>"
  by (simp add: finish_read_def with_metrics_def Let_def) blast

lemma deref_deref_mut [simp]: "deref (deref_mut f b) = f (deref b)"
  by (simp add: deref_def deref_mut_def)

text \<open>A 16-bit size never reaches the limit of 10 MB: that branch is dead.\<close>

lemma data_size_below_max: "unat (data_size packet) \<le> MAX_DATA_SIZE"
  using unat_u16_less[of "data_size packet"] by simp

text \<open>The pool after a packet of \<open>n\<close> bytes went through it (\<open>None\<close>: the read broke off).\<close>

definition pool_after :: "nat \<Rightarrow> bytes option \<Rightarrow> buffer_pool \<Rightarrow> buffer_pool" where
  "pool_after n filled p =
     (let (b, p') = acquire p; b' = deref_mut (vec_resize n 0) b in
      case filled of
        None \<Rightarrow> drop_buffer b' p'
      | Some bs \<Rightarrow> drop_buffer (deref_mut (\<lambda>v. v\<lparr>vec_data := bs\<rparr>) b') p')"

lemma pool_after_inv:
  assumes "pool_inv 65535 p" and "n \<le> 65535" and "\<And>bs. filled = Some bs \<Longrightarrow> length bs = n"
  shows "pool_inv 65535 (pool_after n filled p)"
proof -
  obtain b p' where a: "acquire p = (b, p')" by fastforce
  show ?thesis
  proof (cases filled)
    case None
    then show ?thesis using pool.borrow_abandon[OF assms(1) a assms(2)]
      by (simp add: pool_after_def a)
  next
    case (Some bs)
    then show ?thesis using pool.borrow_fill[OF assms(1) a, of bs] assms(2,3)
      by (simp add: pool_after_def a)
  qed
qed

lemma read_payload_eq:
  "read_payload z packet rs s =
     (let n = unat (data_size packet) in
      if length rs < n then (None, [], s\<lparr>pr_pool := pool_after n None (pr_pool s)\<rparr>)
      else
        let s' = s\<lparr>pr_pool := pool_after n (Some (take n rs)) (pr_pool s),
                   gw_statistics := add_bytes_in (of_nat n) (gw_statistics s)\<rparr>
        in case decompress_data z (take n rs) (is_compressed packet) of
             Some d \<Rightarrow> (Some (n, d), drop n rs, s')
           | None \<Rightarrow> (None, drop n rs, s'))"
proof -
  obtain b p where a: "acquire (pr_pool s) = (b, p)" by fastforce
  have m: "\<not> MAX_DATA_SIZE < unat (data_size packet)"
    using data_size_below_max[of packet] by linarith
  show ?thesis
    using m by (simp add: read_payload_def read_exact_def pool_after_def a with_statistics_def Let_def
        split: option.split)
qed


text \<open>Counting the header of a packet that arrived.\<close>

abbreviation header_counted :: "'a gateway_scheme \<Rightarrow> 'a gateway_scheme" where
  "header_counted s \<equiv> s\<lparr>gw_statistics := add_bytes_in 16 (inc_packets_in (gw_statistics s))\<rparr>"

lemma read_gw_packet_eq:
  "read_gw_packet z rs s =
     (case from_bytes (take 16 rs) of
        None \<Rightarrow> (None, [], s)
      | Some packet \<Rightarrow>
         (if data_size packet = 0
          then (Some (packet, None), drop 16 rs, finish_read packet 16 (header_counted s))
          else
            (case read_payload z packet (drop 16 rs) (header_counted s) of
               (None, rs', s') \<Rightarrow> (None, rs', s')
             | (Some (n, d), rs', s') \<Rightarrow>
                 (Some (packet, Some d), rs', finish_read packet (16 + n) s'))))"
  by (auto simp: read_gw_packet_def read_exact_def with_statistics_def from_bytes_eq Let_def
      word_greater_zero_iff split: prod.splits option.splits)

text \<open>The three courses of a read: no whole header, a header alone, a header with a payload.\<close>

lemma read_gw_packet_cases:
  obtains (short) "length rs < 16" "read_gw_packet z rs s = (None, [], s)"
  | (control) p where "16 \<le> length rs" "from_bytes (take 16 rs) = Some p" "data_size p = 0"
      "read_gw_packet z rs s = (Some (p, None), drop 16 rs, finish_read p 16 (header_counted s))"
  | (data) p r rs' s' where "16 \<le> length rs" "from_bytes (take 16 rs) = Some p" "data_size p \<noteq> 0"
      "read_payload z p (drop 16 rs) (header_counted s) = (r, rs', s')"
      "read_gw_packet z rs s = (case r of None \<Rightarrow> (None, rs', s')
         | Some (n, d) \<Rightarrow> (Some (p, Some d), rs', finish_read p (16 + n) s'))"
proof (cases "from_bytes (take 16 rs)")
  case None
  then have "length rs < 16" using from_bytes_None_iff[of "take 16 rs"] by simp
  then show ?thesis using None short by (simp add: read_gw_packet_eq)
next
  case (Some p)
  then have "16 \<le> length rs" using from_bytes_None_iff[of "take 16 rs"] by (cases "length rs < 16") auto
  then show ?thesis using Some control data
    by (cases "read_payload z p (drop 16 rs) (header_counted s)")
      (cases "data_size p = 0"; simp add: read_gw_packet_eq split: option.splits prod.splits)
qed

lemma read_payload_shape:
  "read_payload z packet rs s = (r, rs', t) \<Longrightarrow>
     t = s\<lparr>pr_pool := pr_pool t, gw_statistics := gw_statistics t\<rparr>"
  by (auto simp: read_payload_eq Let_def split: option.splits if_splits)

lemma read_payload_consumes: "read_payload z packet rs s = (r, rs', t) \<Longrightarrow> length rs' \<le> length rs"
  by (auto simp: read_payload_eq Let_def split: option.splits if_splits)

lemma finish_read_shape: "t = finish_read p n s \<Longrightarrow> t = s\<lparr>pr_metrics := pr_metrics t\<rparr>"
  by (simp add: finish_read_def with_metrics_def Let_def)

lemma read_gw_packet_shape:
  assumes "read_gw_packet z rs s = (x, rs', t)"
  shows "t = s\<lparr>pr_pool := pr_pool t, gw_statistics := gw_statistics t, pr_metrics := pr_metrics t\<rparr>"
proof (cases rule: read_gw_packet_cases[of rs z s])
  case short
  then show ?thesis using assms by simp
next
  case (control p)
  then show ?thesis using assms by (simp add: finish_read_def with_metrics_def Let_def)
next
  case (data p r rs'' s')
  have "s' = s\<lparr>pr_pool := pr_pool s', gw_statistics := gw_statistics s'\<rparr>"
    using read_payload_shape[OF data(4)] by simp
  then obtain q st where s': "s' = s\<lparr>pr_pool := q, gw_statistics := st\<rparr>" by (rule that)
  have "t = s' \<or> (\<exists>n. t = finish_read p n s')"
    using data(5) assms by (auto split: option.splits)
  then show ?thesis by (auto simp: s' finish_read_def with_metrics_def Let_def)
qed

text \<open>Every packet read consumes at least its header: the exchange loops terminate.\<close>

lemma read_gw_packet_consumes:
  assumes "read_gw_packet z rs s = (Some x, rs', s')"
  shows "length rs' + 16 \<le> length rs"
proof (cases rule: read_gw_packet_cases[of rs z s])
  case (data p r rs'' s'')
  then show ?thesis using assms read_payload_consumes[OF data(4)] by (auto split: option.splits)
qed (use assms in auto)


lemma read_frame [frame]:
  assumes "read_gw_packet z rs s = (x, rs', t)"
  shows "pr_links t = pr_links s" "pr_next_link t = pr_next_link s"
    "pr_writers t = pr_writers s" "pr_next_writer t = pr_next_writer s" "pr_now t = pr_now s"
    "gw_config t = gw_config s" "gw_state t = gw_state s" "gw_links t = gw_links s"
    "gw_packet_id_counter t = gw_packet_id_counter s"
    "gw_link_id_counter t = gw_link_id_counter s" "gw_keep_alive_stamp t = gw_keep_alive_stamp s"
  by (subst read_gw_packet_shape[OF assms], simp)+

lemma finish_read_keeps [simp]: "pr_pool (finish_read p n s) = pr_pool s"
  "gw_statistics (finish_read p n s) = gw_statistics s"
  by (simp_all add: finish_read_def with_metrics_def Let_def)

lemma read_pool_inv:
  assumes "read_gw_packet z rs s = (x, rs', t)" and inv: "pool_inv 65535 (pr_pool s)"
  shows "pool_inv 65535 (pr_pool t)"
proof (cases rule: read_gw_packet_cases[of rs z s])
  case (data p r rs'' s')
  have "unat (data_size p) \<le> 65535" using unat_u16_less[of "data_size p"] by linarith
  then have "pool_inv 65535 (pr_pool s')"
    using data(4) inv by (auto simp: read_payload_eq Let_def intro!: pool_after_inv
        split: option.splits if_splits)
  then show ?thesis using data(5) assms(1) by (auto split: option.splits)
qed (use assms in auto)

section \<open>Lemmas: a packet sent is the packet read\<close>

text \<open>
  What a caller of \<open>send_gw_packet\<close> has to respect: an uncompressed header whose size field
  says how long the payload is, and no empty payload.
\<close>

definition sendable :: "PacketGW \<Rightarrow> bytes option \<Rightarrow> bool" where
  "sendable p data \<longleftrightarrow> \<not> is_compressed p \<and>
     (case data of None \<Rightarrow> data_size p = 0
      | Some d \<Rightarrow> d \<noteq> [] \<and> length d = unat (data_size p))"

text \<open>The header as it goes out: flag and size describe the payload on the wire.\<close>

abbreviation sent_header :: "zstd \<Rightarrow> PacketGW \<Rightarrow> bytes option \<Rightarrow> PacketGW" where
  "sent_header z p data \<equiv> fst (prepare_packet z p data)"

lemma sent_header_fields [simp]:
  "packet_type (sent_header z p data) = packet_type p"
  "packet_id (sent_header z p data) = packet_id p"
  "link_id (sent_header z p data) = link_id p"
  by (simp_all add: prepare_packet_def set_flag_def Let_def split: option.split)

lemma sent_header_control [simp]: "sent_header z p None = p"
  by (simp add: prepare_packet_def)

lemma prepare_packet_data:
  "prepare_packet z p (Some d) =
     (let r = compress_data z d in
      if cr_is_compressed r
      then ((set_flag FLAG_COMPRESSED p)\<lparr>data_size := of_nat (length (cr_data r))\<rparr>, Some (cr_data r), True)
      else (p, Some (cr_data r), False))"
proof (cases "length d < 1024")
  case True
  then show ?thesis by (simp add: prepare_packet_def compress_small)
next
  case False
  then show ?thesis
    using zstd_codec.unflagged[of z d] by (auto simp: prepare_packet_def Let_def)
qed

lemma sent_header_data:
  assumes "zstd_lawful z" and "sendable p (Some d)"
  shows "\<exists>pl. wire z p (Some d) = to_bytes (sent_header z p (Some d)) @ pl \<and> pl \<noteq> [] \<and>
    data_size (sent_header z p (Some d)) \<noteq> 0 \<and>
    length pl = unat (data_size (sent_header z p (Some d))) \<and>
    decompress_data z pl (is_compressed (sent_header z p (Some d))) = Some d"
proof -
  let ?r = "compress_data z d"
  have d: "\<not> is_compressed p" "d \<noteq> []" "length d = unat (data_size p)" "length d < 65536"
    using assms(2) unat_u16_less[of "data_size p"] by (auto simp: sendable_def)
  have ne: "cr_data ?r \<noteq> []" using zstd_codec.nonempty[OF assms(1) d(2)] .
  have len: "length (cr_data ?r) < 65536" using zstd_codec.never_longer[of z d] d(4) by linarith
  have dec: "decompress_data z (cr_data ?r) (cr_is_compressed ?r) = Some d"
    using zstd_codec.inverse[OF assms(1)] .
  have size: "unat (of_nat (length (cr_data ?r)) :: u16) = length (cr_data ?r)"
    using len by (rule unat_of_nat_u16)
  show ?thesis
  proof (cases "cr_is_compressed ?r")
    case True
    then have "prepare_packet z p (Some d) =
        ((set_flag FLAG_COMPRESSED p)\<lparr>data_size := of_nat (length (cr_data ?r))\<rparr>, Some (cr_data ?r), True)"
      by (simp add: prepare_packet_data Let_def)
    moreover have "(of_nat (length (cr_data ?r)) :: u16) \<noteq> 0" using size ne by (metis length_0_conv unat_0)
    moreover have "is_compressed ((set_flag FLAG_COMPRESSED p)\<lparr>data_size := n\<rparr>)" for n
      using is_compressed_set_flag[of p] unfolding is_compressed_def by simp
    ultimately show ?thesis using dec ne True size by (auto simp: wire_def)
  next
    case False
    then have "prepare_packet z p (Some d) = (p, Some d, False)"
      using zstd_codec.unflagged[of z d] by (simp add: prepare_packet_data Let_def)
    moreover have "data_size p \<noteq> 0" using d by auto
    ultimately show ?thesis using d by (auto simp: wire_def)
  qed
qed

lemma read_wire:
  assumes "zstd_lawful z" and "sendable p data"
  obtains s' where "read_gw_packet z (wire z p data @ rest) s = (Some (sent_header z p data, data), rest, s')"
proof (cases data)
  case None
  then have "wire z p data = to_bytes p" "data_size p = 0"
    using assms(2) by (simp_all add: wire_def prepare_packet_def sendable_def)
  then show ?thesis using that None from_bytes_to_bytes_append[of p "[]"] by (simp add: read_gw_packet_eq)
next
  case (Some d)
  let ?h = "sent_header z p data"
  obtain pl where pl: "wire z p data = to_bytes ?h @ pl" "data_size ?h \<noteq> 0"
      "length pl = unat (data_size ?h)" "decompress_data z pl (is_compressed ?h) = Some d"
    using sent_header_data[OF assms(1)] assms(2) Some by blast
  then show ?thesis using that Some from_bytes_to_bytes_append[of ?h "[]"]
    by (simp add: read_gw_packet_eq read_payload_eq Let_def)
qed


section \<open>Lemmas: the registry of links\<close>

lemma gw_remove_link_eq:
  "gw_remove_link lid s = (fmlookup (gw_links s) lid,
     s\<lparr>gw_links := fmdrop lid (gw_links s),
       pr_metrics := set_active_connections (fcard (fmdom (gw_links s) |-| {|lid|})) (pr_metrics s)\<rparr>)"
  by (simp add: gw_remove_link_def update_metric_eq Let_def)

lemma add_link_eq:
  "add_link r s = s\<lparr>gw_links := fmupd (connection_id (pr_links s r)) r (gw_links s),
     pr_metrics := set_active_connections
       (fcard (finsert (connection_id (pr_links s r)) (fmdom (gw_links s)))) (pr_metrics s)\<rparr>"
  by (simp add: add_link_def update_metric_eq Let_def)

lemma close_drained_eq:
  "close_drained order s =
     s\<lparr>pr_links := (\<lambda>r. if \<exists>lid \<in> set order. fmlookup (gw_links s) lid = Some r
                       then close_connection (pr_links s r) else pr_links s r)\<rparr>"
proof (induction order s rule: close_drained.induct)
  case (1 s)
  then show ?case by simp
next
  case (2 lid order s)
  show ?case
  proof (cases "fmlookup (gw_links s) lid")
    case None
    then show ?thesis using 2 by (auto intro!: arg_cong[where f = "\<lambda>h. s\<lparr>pr_links := h\<rparr>"])
  next
    case (Some r)
    then show ?thesis using 2(2)[OF Some]
      by (auto simp: update_link_def fun_eq_iff intro!: arg_cong[where f = "\<lambda>h. s\<lparr>pr_links := h\<rparr>"])
  qed
qed

text \<open>Whatever order the map drains in: every registered link is closed, no other changes.\<close>

lemma close_all_links_eq:
  assumes "drains order (gw_links s)"
  shows "close_all_links order s =
     s\<lparr>pr_links := (\<lambda>r. if r |\<in>| fmran (gw_links s) then close_connection (pr_links s r) else pr_links s r),
       gw_links := fmempty,
       pr_metrics := set_active_connections 0 (pr_metrics s)\<rparr>"
proof -
  have "(\<exists>lid \<in> set order. fmlookup (gw_links s) lid = Some r) \<longleftrightarrow> r |\<in>| fmran (gw_links s)" for r
    using assms by (auto simp: drains_def fmlookup_ran_iff dest: fmdomI simp flip: fset_of_list.rep_eq)
  then show ?thesis
    by (simp add: close_all_links_def close_drained_eq update_metric_eq fcard.rep_eq Let_def)
qed

section \<open>Lemmas: identifiers\<close>

text \<open>The identifiers that \<open>n\<close> application connections in a row get.\<close>

fun take_link_ids :: "nat \<Rightarrow> 'a gateway_scheme \<Rightarrow> u16 list \<times> 'a gateway_scheme" where
  "take_link_ids 0 s = ([], s)"
| "take_link_ids (Suc n) s =
     (let (lid, s) = next_link_id s; (lids, s) = take_link_ids n s in (lid # lids, s))"

lemma take_link_ids_eq:
  "fst (take_link_ids n s) = map (\<lambda>i. gw_link_id_counter s + of_nat i) [0..<n]"
proof (induction n arbitrary: s)
  case (Suc n)
  have "[0..<Suc n] = 0 # map Suc [0..<n]" by (simp add: map_Suc_upt upt_conv_Cons del: upt_Suc)
  then show ?case using Suc[of "snd (next_link_id s)"]
    by (simp add: next_link_id_def Let_def case_prod_beta o_def add.assoc add.left_commute)
qed simp

lemma of_nat_u16_inj: "i < 65536 \<Longrightarrow> j < 65536 \<Longrightarrow> (of_nat i :: u16) = of_nat j \<longleftrightarrow> i = j"
  by (metis unat_of_nat_u16)

lemma take_link_ids_distinct: "n \<le> 65536 \<Longrightarrow> distinct (fst (take_link_ids n s))"
  by (auto simp: take_link_ids_eq distinct_map inj_on_def of_nat_u16_inj)


end
