(* ===== verification/Operations.thy ===== *)
theory Operations
  imports Gateway
begin

text \<open>
  The trait \<open>GatewayOperations\<close> (\<^verbatim>\<open>src/src/gateway/operations.rs\<close>) as a locale: reading
  and sending packets and drawing identifiers, with the laws that the exchange loops of client
  and server rely on, and its implementation by the struct \<open>Gateway\<close>
  (\<^verbatim>\<open>src/src/gateway/mod.rs\<close>).
\<close>

section \<open>The implementation in \<open>Gateway\<close>\<close>

definition read_packet ::
  "zstd \<Rightarrow> rsock \<Rightarrow> 'a gateway_scheme
    \<Rightarrow> (PacketGW \<times> bytes option) option \<times> rsock \<times> 'a gateway_scheme" where
  "read_packet z rs s = read_gw_packet z rs s"

definition send_packet ::
  "zstd \<Rightarrow> wref \<Rightarrow> PacketGW \<Rightarrow> bytes option \<Rightarrow> 'a gateway_scheme
    \<Rightarrow> unit io_result \<times> 'a gateway_scheme" where
  "send_packet z w packet data s = send_gw_packet z w packet data s"

section \<open>Sequences of packets\<close>

fun send_many ::
  "('w \<Rightarrow> PacketGW \<Rightarrow> bytes option \<Rightarrow> 's \<Rightarrow> unit io_result \<times> 's) \<Rightarrow> 'w
    \<Rightarrow> (PacketGW \<times> bytes option) list \<Rightarrow> 's \<Rightarrow> 's" where
  "send_many send w [] s = s"
| "send_many send w ((p, d) # ps) s = send_many send w ps (snd (send w p d s))"

fun read_many ::
  "(rsock \<Rightarrow> 's \<Rightarrow> (PacketGW \<times> bytes option) option \<times> rsock \<times> 's) \<Rightarrow> nat \<Rightarrow> rsock \<Rightarrow> 's
    \<Rightarrow> (PacketGW \<times> bytes option) list \<times> rsock \<times> 's" where
  "read_many read 0 rs s = ([], rs, s)"
| "read_many read (Suc n) rs s =
     (case read rs s of
        (None, rs, s) \<Rightarrow> ([], rs, s)
      | (Some x, rs, s) \<Rightarrow> (let (xs, rs, s) = read_many read n rs s in (x # xs, rs, s)))"

definition images :: "(PacketGW \<Rightarrow> bytes option \<Rightarrow> bytes) \<Rightarrow> (PacketGW \<times> bytes option) list \<Rightarrow> bytes" where
  "images img ps = concat (map (\<lambda>(p, d). img p d) ps)"

lemma images_simps [simp]:
  "images img [] = []" "images img ((p, d) # ps) = img p d @ images img ps"
  "images img (ps @ qs) = images img ps @ images img qs"
  by (simp_all add: images_def)

section \<open>The interface\<close>

locale gateway_operations =
  fixes lawful :: "'z \<Rightarrow> bool"
    and read :: "'z \<Rightarrow> rsock \<Rightarrow> 's \<Rightarrow> (PacketGW \<times> bytes option) option \<times> rsock \<times> 's"
    and send :: "'z \<Rightarrow> wref \<Rightarrow> PacketGW \<Rightarrow> bytes option \<Rightarrow> 's \<Rightarrow> unit io_result \<times> 's"
    and next_packet :: "'s \<Rightarrow> u64 \<times> 's"
    and next_link :: "'s \<Rightarrow> u16 \<times> 's"
    and img :: "'z \<Rightarrow> PacketGW \<Rightarrow> bytes option \<Rightarrow> bytes"
    and header :: "'z \<Rightarrow> PacketGW \<Rightarrow> bytes option \<Rightarrow> PacketGW"
    and fits :: "PacketGW \<Rightarrow> bytes option \<Rightarrow> bool"
    and writers :: "'s \<Rightarrow> wref \<Rightarrow> wsock"
    and packet_counter :: "'s \<Rightarrow> u64"
    and link_counter :: "'s \<Rightarrow> u16"
  assumes send_writers: "writers (snd (send z w p d s)) =
      (writers s)(w := snd (write_all (img z p d) (writers s w)))"
    and send_failed: "isl (fst (send z w p d s)) \<longleftrightarrow> w_room (writers s w) < length (img z p d)"
    and read_image: "lawful z \<Longrightarrow> fits p d \<Longrightarrow>
      \<exists>s'. read z (img z p d @ rest) s = (Some (header z p d, d), rest, s')"
    and read_writers: "writers (snd (snd (read z rs s))) = writers s"
    and read_end: "length rs < 16 \<Longrightarrow> read z rs s = (None, [], s)"
    and read_consumes: "read z rs s = (Some x, rs', s') \<Longrightarrow> length rs' + 16 \<le> length rs"
    and next_packet_counts: "fst (next_packet s) = packet_counter s + 1"
      "packet_counter (snd (next_packet s)) = packet_counter s + 1"
    and next_link_counts: "fst (next_link s) = link_counter s"
      "link_counter (snd (next_link s)) = link_counter s + 1"
begin

text \<open>A sequence of packets leaves one stream of bytes, cut off where the connection breaks.\<close>

lemma send_many_out:
  "w_out (writers (send_many (send z) w ps s) w) =
     w_out (writers s w) @ take (w_room (writers s w)) (images (img z) ps)"
proof (induction ps arbitrary: s)
  case (Cons x ps)
  then show ?case by (cases x) (simp add: send_writers write_all_prefix)
qed simp

text \<open>And that stream reads back as the same sequence.\<close>

lemma read_many_images:
  assumes "lawful z" and "list_all (\<lambda>(p, d). fits p d) ps"
  shows "\<exists>s'. read_many (read z) (length ps) (images (img z) ps @ rest) s =
    (map (\<lambda>(p, d). (header z p d, d)) ps, rest, s')"
  using assms(2)
proof (induction ps arbitrary: s)
  case (Cons x ps)
  obtain p d where x: "x = (p, d)" by fastforce
  obtain s1 where "read z (img z p d @ images (img z) ps @ rest) s =
      (Some (header z p d, d), images (img z) ps @ rest, s1)"
    using read_image[OF assms(1), of p d] Cons.prems x by fastforce
  moreover obtain s2 where "read_many (read z) (length ps) (images (img z) ps @ rest) s1 =
      (map (\<lambda>(p, d). (header z p d, d)) ps, rest, s2)"
    using Cons x by fastforce
  ultimately show ?case by (simp add: x)
qed simp

lemma link_ids_differ: "fst (next_link s) \<noteq> fst (next_link (snd (next_link s)))"
  by (simp add: next_link_counts)

lemma packet_ids_differ: "fst (next_packet s) \<noteq> fst (next_packet (snd (next_packet s)))"
  by (simp add: next_packet_counts)

end

interpretation gw: gateway_operations zstd_lawful read_packet send_packet next_packet_id
  next_link_id wire sent_header sendable pr_writers gw_packet_id_counter gw_link_id_counter
proof unfold_locales
  fix z rs and s :: "'a gateway_scheme"
  show "pr_writers (snd (snd (read_packet z rs s))) = pr_writers s"
    using read_frame(3)[of z rs s] unfolding read_packet_def by (metis prod.collapse)
next
  fix z p d rest and s :: "'a gateway_scheme"
  assume "zstd_lawful z" "sendable p d"
  then show "\<exists>s'. read_packet z (wire z p d @ rest) s = (Some (sent_header z p d, d), rest, s')"
    unfolding read_packet_def by (rule read_wire) blast
next
  fix z and rs :: rsock and s :: "'a gateway_scheme"
  assume "length rs < 16"
  then show "read_packet z rs s = (None, [], s)"
    by (simp add: read_packet_def read_gw_packet_eq from_bytes_eq)
qed (auto simp: read_packet_def send_packet_def send_writer send_result next_packet_id_def
      next_link_id_def Let_def dest: read_gw_packet_consumes)

end
