(* ===== verification/Auth.thy ===== *)
theory Auth
  imports Gw_Prelude
begin

text \<open>
  Challenge-response authentication, \<^verbatim>\<open>src/src/gateway/auth.rs\<close>. HMAC-SHA256 (crates
  \<open>hmac\<close> and \<open>sha2\<close>) is a parameter \<open>h\<close> from key and message to the tag; what the
  code relies on is that a tag has 32 bytes (\<open>hmac_lawful\<close>: the return type of the source is
  \<open>[u8; 32]\<close>). The random generator behind \<open>generate_nonce\<close> is the supplier of the nonce.
\<close>

definition NONCE_SIZE :: nat where
  [simp]: "NONCE_SIZE = 32"

definition RESPONSE_SIZE :: nat where
  [simp]: "RESPONSE_SIZE = 32"

type_synonym hmac = "bytes \<Rightarrow> bytes \<Rightarrow> bytes"

definition hmac_lawful :: "hmac \<Rightarrow> bool" where
  "hmac_lawful h \<longleftrightarrow> (\<forall>k m. length (h k m) = RESPONSE_SIZE)"

text \<open>\<open>generate_nonce\<close>: the zeroed array is overwritten by \<open>fill_bytes\<close>.\<close>

definition generate_nonce :: "(nat \<Rightarrow> bytes) \<Rightarrow> bytes" where
  "generate_nonce fill_bytes =
     (let nonce = replicate NONCE_SIZE (0 :: u8) in fill_bytes (length nonce))"

definition compute_response :: "hmac \<Rightarrow> bytes \<Rightarrow> bytes \<Rightarrow> bytes" where
  "compute_response h auth_key nonce = h auth_key nonce"

text \<open>The constant-time comparison: no early exit, the differences are accumulated.\<close>

fun accumulate_diff :: "u8 \<Rightarrow> (u8 \<times> u8) list \<Rightarrow> u8" where
  "accumulate_diff result [] = result"
| "accumulate_diff result ((a, b) # ps) = accumulate_diff (result OR (a XOR b)) ps"

definition verify_response :: "hmac \<Rightarrow> bytes \<Rightarrow> bytes \<Rightarrow> bytes \<Rightarrow> bool" where
  "verify_response h auth_key nonce response =
     (let expected = compute_response h auth_key nonce in
      if length response \<noteq> RESPONSE_SIZE then False
      else accumulate_diff 0 (zip expected response) = 0)"

section \<open>Lemmas\<close>

lemma or_eq_0_iff: "(a :: 'a::len word) OR b = 0 \<longleftrightarrow> a = 0 \<and> b = 0"
  by (auto simp: bit_eq_iff bit_or_iff)

lemma xor_0_iff: "(a :: 'a::len word) XOR b = 0 \<longleftrightarrow> a = b"
  by (auto simp: bit_eq_iff bit_xor_iff)

lemma accumulate_diff_0:
  "accumulate_diff r ps = 0 \<longleftrightarrow> r = 0 \<and> list_all (\<lambda>(a, b). a = b) ps"
  by (induction r ps rule: accumulate_diff.induct) (auto simp: or_eq_0_iff xor_0_iff)

lemma zip_all_eq:
  "length xs = length ys \<Longrightarrow> list_all (\<lambda>(a, b). a = b) (zip xs ys) \<longleftrightarrow> xs = ys"
  by (induction xs ys rule: list_induct2) auto

lemma length_compute_response [simp]:
  "hmac_lawful h \<Longrightarrow> length (compute_response h k n) = 32"
  by (simp add: hmac_lawful_def compute_response_def)

lemma verify_response_iff_equal:
  "hmac_lawful h \<Longrightarrow> verify_response h k n r \<longleftrightarrow> r = compute_response h k n"
  by (auto simp: verify_response_def accumulate_diff_0 zip_all_eq)

section \<open>The interface the handshakes use\<close>

text \<open>
  \<open>respond\<close> is what the client sends, \<open>verify\<close> what the server decides with. The laws hold
  for every lawful provider \<open>h\<close> of the tag.
\<close>

locale authenticator =
  fixes lawful :: "'h \<Rightarrow> bool"
    and respond :: "'h \<Rightarrow> bytes \<Rightarrow> bytes \<Rightarrow> bytes"
    and verify :: "'h \<Rightarrow> bytes \<Rightarrow> bytes \<Rightarrow> bytes \<Rightarrow> bool"
    and tag_size :: nat
  assumes respond_size: "lawful h \<Longrightarrow> length (respond h k n) = tag_size"
    and verify_iff: "lawful h \<Longrightarrow> verify h k n r \<longleftrightarrow> r = respond h k n"
begin

lemma completeness: "lawful h \<Longrightarrow> verify h k n (respond h k n)"
  by (simp add: verify_iff)

lemma wrong_size_rejected: "lawful h \<Longrightarrow> length r \<noteq> tag_size \<Longrightarrow> \<not> verify h k n r"
  by (auto simp: verify_iff respond_size)

lemma other_key_accepted_iff:
  "lawful h \<Longrightarrow> verify h k n (respond h k' n) \<longleftrightarrow> respond h k' n = respond h k n"
  by (simp add: verify_iff)

lemma replay_accepted_iff:
  "lawful h \<Longrightarrow> verify h k n' (respond h k n) \<longleftrightarrow> respond h k n = respond h k n'"
  by (simp add: verify_iff)

end

interpretation hmac_auth: authenticator hmac_lawful compute_response verify_response RESPONSE_SIZE
  by unfold_locales (simp_all add: verify_response_iff_equal)

end
