(* ===== verification/Gw_Utils.thy ===== *)
theory Gw_Utils
  imports Gw_Prelude
begin

text \<open>
  The helpers of \<^verbatim>\<open>src/src/gateway/utils.rs\<close>: the byte formatter. \<open>bytes as f64\<close> is
  rounding to 53 significant bits, ties to even. Dividing an \<open>f64\<close> of this range by 1024 only
  lowers its exponent, so the value after \<open>k\<close> rounds of the loop is the rounded number over
  \<open>1024 ^ k\<close>, exactly; \<open>{:.2}\<close> rounds that to hundredths, ties to even.
\<close>

section \<open>Decimal numbers\<close>

fun dec_nat :: "nat \<Rightarrow> string" where
  "dec_nat n = (if n < 10 then [char_of (48 + n)] else dec_nat (n div 10) @ [char_of (48 + n mod 10)])"

declare dec_nat.simps [simp del]

section \<open>Rounding\<close>

text \<open>\<open>n / d\<close> to the nearest integer, ties to even.\<close>

definition round_even :: "nat \<Rightarrow> nat \<Rightarrow> nat" where
  "round_even n d =
     (let q = n div d; r = n mod d in
      if 2 * r > d \<or> (2 * r = d \<and> odd q) then q + 1 else q)"

fun excess_bits :: "nat \<Rightarrow> nat" where
  "excess_bits n = (if n < 2 ^ 53 then 0 else Suc (excess_bits (n div 2)))"

declare excess_bits.simps [simp del]

definition as_f64 :: "u64 \<Rightarrow> nat" where
  "as_f64 b = (let n = unat b; e = excess_bits n in round_even n (2 ^ e) * 2 ^ e)"

section \<open>\<open>format_bytes\<close>\<close>

definition UNITS :: "string list" where
  "UNITS = [''B'', ''KB'', ''MB'', ''GB'', ''TB'']"

text \<open>The loop: \<open>value\<close> is \<open>m / 1024 ^ unit_idx\<close>.\<close>

function unit_loop :: "nat \<Rightarrow> nat \<Rightarrow> nat" where
  "unit_loop m unit_idx =
     (if m \<ge> 1024 * 1024 ^ unit_idx \<and> unit_idx < length UNITS - 1
      then unit_loop m (unit_idx + 1) else unit_idx)"
  by pat_completeness auto
termination
  by (relation "measure (\<lambda>(m, k). length UNITS - k)") auto

declare unit_loop.simps [simp del]

definition format_hundredths :: "nat \<Rightarrow> string" where
  "format_hundredths c = dec_nat (c div 100) @ ''.'' @ dec_nat (c mod 100 div 10) @ dec_nat (c mod 10)"

definition format_bytes :: "u64 \<Rightarrow> string" where
  "format_bytes b =
     (let m = as_f64 b; unit_idx = unit_loop m 0 in
      if unit_idx = 0 then dec_nat (unat b) @ '' '' @ UNITS ! unit_idx
      else format_hundredths (round_even (100 * m) (1024 ^ unit_idx)) @ '' '' @ UNITS ! unit_idx)"

section \<open>Lemmas\<close>

lemma unit_loop_spec:
  assumes "k \<le> 4" and "0 < k \<Longrightarrow> 1024 ^ k \<le> m"
  shows "unit_loop m k \<le> 4 \<and> (0 < unit_loop m k \<longrightarrow> 1024 ^ unit_loop m k \<le> m) \<and>
    (unit_loop m k < 4 \<longrightarrow> m < 1024 * 1024 ^ unit_loop m k)"
  using assms
proof (induction m k rule: unit_loop.induct)
  case (1 m k)
  show ?case
  proof (cases "m \<ge> 1024 * 1024 ^ k \<and> k < length UNITS - 1")
    case True
    then have "unit_loop m k = unit_loop m (k + 1)" by (simp add: unit_loop.simps[of m k])
    then show ?thesis using 1(1) True by (simp add: UNITS_def)
  next
    case False
    then have "unit_loop m k = k" by (subst unit_loop.simps) (rule if_not_P)
    then show ?thesis using False "1.prems" by (auto simp: UNITS_def)
  qed
qed

lemma round_even_error:
  assumes "0 < d"
  shows "2 * (round_even n d * d) \<le> 2 * n + d" and "2 * n \<le> 2 * (round_even n d * d) + d"
proof -
  define p r where "p = n div d * d" and "r = n mod d"
  then have n: "n = p + r" and r: "r < d" using assms by simp_all
  have "round_even n d * d = (if 2 * r > d \<or> (2 * r = d \<and> odd (n div d)) then p + d else p)"
    by (simp add: round_even_def p_def r_def Let_def)
  then show "2 * (round_even n d * d) \<le> 2 * n + d" and "2 * n \<le> 2 * (round_even n d * d) + d"
    unfolding n using r by (auto split: if_splits)
qed

lemma as_f64_exact: "unat b < 2 ^ 53 \<Longrightarrow> as_f64 b = unat b"
  by (simp add: as_f64_def excess_bits.simps[of "unat b"] round_even_def)

end
