(* ===== verification/Client.thy ===== *)
theory Client
  imports Operations Auth Gw_Utils
begin

text \<open>
  The gateway in client mode, \<^verbatim>\<open>src/src/gateway/client.rs\<close>. The struct's \<open>base\<close> is the
  record \<open>gateway\<close> it extends. The two halves of the gateway connection have one number, the
  write half being at that number in the heap. \<open>cl_app_connects\<close> is what the environment answers
  to each \<open>TcpStream::connect\<close> to the application, \<open>cl_dialled\<close> the addresses asked for, and
  \<open>cl_tasks\<close> the tasks spawned so far. Each exchange loop is a recursion whose turn is a
  definition of its own, so that turns of different tasks can also be interleaved.
\<close>

datatype client_task = PingLoop wref | ClientAppExchange lref wref

record client = gateway +
  cl_gw_reader :: "wref option"
  cl_gw_writer :: "wref option"
  cl_last_activity :: int
  cl_app_connects :: "tcp_stream option list"
  cl_dialled :: "string list"
  cl_tasks :: "client_task list"

definition GatewayClient_new :: "configuration \<Rightarrow> process \<Rightarrow> tcp_stream option list \<Rightarrow> client" where
  "GatewayClient_new config p connects = gateway.extend (Gateway_new config p)
     \<lparr>cl_gw_reader = None, cl_gw_writer = None, cl_last_activity = pr_now p,
      cl_app_connects = connects, cl_dialled = [], cl_tasks = []\<rparr>"

definition host_port :: "string \<Rightarrow> u16 \<Rightarrow> string" where
  "host_port host port = host @ '':'' @ dec_nat (unat port)"

definition auth_key :: "'a gateway_scheme \<Rightarrow> bytes" where
  "auth_key s = as_bytes (key (general (gw_config s)))"

section \<open>Authentication\<close>

text \<open>Step 1: the challenge. \<open>None\<close> is the early \<open>return false\<close>.\<close>

definition receive_challenge :: "rsock \<Rightarrow> (u64 \<times> bytes) option \<times> rsock" where
  "receive_challenge rs =
     (let (r, rs) = read_exact PACKET_HEADER_SIZE rs
      in case r of Inl e \<Rightarrow> (None, rs) | Inr header_buf \<Rightarrow>
     (case from_bytes header_buf of None \<Rightarrow> (None, rs) | Some pkt \<Rightarrow>
       (if packet_type pkt \<noteq> GwAuthChallenge then (None, rs)
        else if unat (data_size pkt) \<noteq> NONCE_SIZE then (None, rs)
        else
          let (r, rs) = read_exact (unat (data_size pkt)) rs
          in case r of Inl e \<Rightarrow> (None, rs) | Inr nonce \<Rightarrow> (Some (packet_id pkt, nonce), rs))))"

text \<open>Step 2: the response, header and tag written one after the other.\<close>

definition send_auth_response ::
  "hmac \<Rightarrow> wref \<Rightarrow> bytes \<Rightarrow> 'a gateway_scheme \<Rightarrow> bool \<times> 'a gateway_scheme" where
  "send_auth_response h w nonce s =
     (let response = compute_response h (auth_key s) nonce;
          (pid, s) = next_packet_id s;
          resp_packet = PacketGW_new GwAuthResponse pid 0 (of_nat (length response));
          (r, s) = gw_write w (to_bytes resp_packet) s
      in if isl r then (False, s)
         else
           let (r, s) = gw_write w response s
           in if isl r then (False, s) else (True, s))"

text \<open>Step 3: the verdict; on \<open>GwConnected\<close> the protocol version is read and checked.\<close>

definition receive_verdict :: "rsock \<Rightarrow> bool \<times> rsock" where
  "receive_verdict rs =
     (let (r, rs) = read_exact PACKET_HEADER_SIZE rs
      in case r of Inl e \<Rightarrow> (False, rs) | Inr header_buf \<Rightarrow>
     (case from_bytes header_buf of
        Some pkt \<Rightarrow>
          (case packet_type pkt of
             GwConnected \<Rightarrow>
               (if unat (data_size pkt) \<ge> 12
                then
                  let (r, rs) = read_exact 12 rs
                  in case r of Inl e \<Rightarrow> (False, rs) | Inr version_buf \<Rightarrow>
                       (let major = from_le (slice_range 0 4 version_buf) :: u32
                        in if major \<noteq> PROTOCOL_VERSION_MAJOR then (False, rs) else (True, rs))
                else (True, rs))
           | GwDeny \<Rightarrow>
               (if data_size pkt > 0
                then let (r, rs) = read_exact (unat (data_size pkt)) rs in (False, rs)
                else (False, rs))
           | _ \<Rightarrow> (False, rs))
      | None \<Rightarrow> (False, rs)))"

definition gw_authenticate ::
  "hmac \<Rightarrow> wref \<Rightarrow> rsock \<Rightarrow> 'a gateway_scheme \<Rightarrow> bool \<times> rsock \<times> 'a gateway_scheme" where
  "gw_authenticate h w rs s =
     (let (c, rs) = receive_challenge rs
      in case c of None \<Rightarrow> (False, rs, s) | Some (challenge_id, nonce) \<Rightarrow>
     (let (sent, s) = send_auth_response h w nonce s
      in if \<not> sent then (False, rs, s)
         else let (ok, rs) = receive_verdict rs in (ok, rs, s)))"

section \<open>Handlers of the exchange loop\<close>

definition send_opened :: "zstd \<Rightarrow> u16 \<Rightarrow> wref \<Rightarrow> client \<Rightarrow> client" where
  "send_opened z lid w s =
     (let (pid, s) = next_packet_id s;
          packet = PacketGW_new Opened pid lid 0
      in snd (send_gw_packet z w packet None s))"

definition send_open_fail :: "zstd \<Rightarrow> u16 \<Rightarrow> wref \<Rightarrow> client \<Rightarrow> client" where
  "send_open_fail z lid w s =
     (let (pid, s) = next_packet_id s;
          packet = PacketGW_new OpenFail pid lid 0
      in snd (send_gw_packet z w packet None s))"

text \<open>\<open>TcpStream::connect\<close> to the application: the environment's next answer.\<close>

definition connect_app :: "string \<Rightarrow> client \<Rightarrow> tcp_stream option \<times> client" where
  "connect_app addr s =
     (let s = s\<lparr>cl_dialled := cl_dialled s @ [addr]\<rparr> in
      case cl_app_connects s of
        [] \<Rightarrow> (None, s)
      | c # cs \<Rightarrow> (c, s\<lparr>cl_app_connects := cs\<rparr>))"

definition spawn :: "client_task \<Rightarrow> client \<Rightarrow> client" where
  "spawn t s = s\<lparr>cl_tasks := cl_tasks s @ [t]\<rparr>"

definition connect_client :: "zstd \<Rightarrow> u16 \<Rightarrow> wref \<Rightarrow> client \<Rightarrow> client" where
  "connect_client z conn_id w s =
     (let app_addr = host_port (host_app (network (gw_config s))) (port_app (network (gw_config s)));
          (c, s) = connect_app app_addr s
      in case c of
           Some stream \<Rightarrow>
             (let (r, s) = alloc_link (Link_new stream conn_id) s;
                  s = add_link r s;
                  s = update_link r (set_state Connected) s;
                  s = send_opened z conn_id w s
              in spawn (ClientAppExchange r w) s)
         | None \<Rightarrow> send_open_fail z conn_id w s)"

definition forward_to_app :: "u16 \<Rightarrow> bytes \<Rightarrow> 'a gateway_scheme \<Rightarrow> 'a gateway_scheme" where
  "forward_to_app lid d s =
     (case fmlookup (gw_links s) lid of
        Some r \<Rightarrow> update_link r (link_send_packet (Some d)) s
      | None \<Rightarrow> s)"

text \<open>One packet from the server; the boolean says whether the loop goes on.\<close>

definition client_dispatch ::
  "zstd \<Rightarrow> wref \<Rightarrow> PacketGW \<Rightarrow> bytes option \<Rightarrow> client \<Rightarrow> bool \<times> client" where
  "client_dispatch z w packet data s =
     (case packet_type packet of
        Ping \<Rightarrow>
          (let s = send_pong z w (packet_id packet) s in (True, s\<lparr>cl_last_activity := pr_now s\<rparr>))
      | Pong \<Rightarrow>
          (let s = s\<lparr>cl_last_activity := pr_now s\<rparr> in (True, update_keepalive s))
      | Open \<Rightarrow> (True, connect_client z (link_id packet) w s)
      | Close \<Rightarrow>
          (let (l, s) = gw_remove_link (link_id packet) s
           in case l of
                Some r \<Rightarrow> (True, update_link r close_connection s)
              | None \<Rightarrow> (True, s))
      | Regular \<Rightarrow>
          (case data of
             Some payload \<Rightarrow> (True, forward_to_app (link_id packet) payload s)
           | None \<Rightarrow> (True, s))
      | GwDeny \<Rightarrow> (False, s)
      | _ \<Rightarrow> (True, s))"

text \<open>One turn of the loop: read and dispatch. \<open>False\<close> ends the loop.\<close>

definition gateway_turn :: "zstd \<Rightarrow> wref \<Rightarrow> rsock \<Rightarrow> client \<Rightarrow> bool \<times> rsock \<times> client" where
  "gateway_turn z w rs s =
     (case read_packet z rs s of
        (Some (packet, data), rs, s) \<Rightarrow>
          (let (go_on, s) = client_dispatch z w packet data s in (go_on, rs, s))
      | (None, rs, s) \<Rightarrow> (False, rs, s))"

lemma gateway_turn_consumes:
  "gateway_turn z w rs s = (True, rs', s') \<Longrightarrow> length rs' + 16 \<le> length rs"
  by (auto simp: gateway_turn_def split: prod.splits option.splits dest!: gw.read_consumes)

function gateway_exchange :: "zstd \<Rightarrow> wref \<Rightarrow> rsock \<Rightarrow> client \<Rightarrow> rsock \<times> client" where
  "gateway_exchange z w rs s =
     (case gateway_turn z w rs s of
        (True, rs', s') \<Rightarrow> gateway_exchange z w rs' s'
      | (False, rs', s') \<Rightarrow> (rs', s'))"
  by pat_completeness auto
termination
  by (relation "measure (\<lambda>(z, w, rs, s). length rs)") (auto dest!: gateway_turn_consumes[OF sym])

declare gateway_exchange.simps [simp del]

lemma gateway_exchange_eq:
  "gateway_exchange z w rs s =
     (case read_packet z rs s of
        (Some (packet, data), rs', s') \<Rightarrow>
          (case client_dispatch z w packet data s' of
             (True, s'') \<Rightarrow> gateway_exchange z w rs' s''
           | (False, s'') \<Rightarrow> (rs', s''))
      | (None, rs', s') \<Rightarrow> (rs', s'))"
  by (simp add: gateway_exchange.simps[of z w rs s] gateway_turn_def split: prod.split option.split)

section \<open>Background tasks\<close>

text \<open>One turn of the ping loop; the boolean says whether the loop goes on.\<close>

definition ping_turn :: "zstd \<Rightarrow> wref \<Rightarrow> 'a gateway_scheme \<Rightarrow> bool \<times> 'a gateway_scheme" where
  "ping_turn z w s =
     (let (pid, s) = next_packet_id s;
          packet = PacketGW_new Ping pid 0 0;
          (r, s) = send_gw_packet z w packet None s
      in if isl r then (False, s) else (True, update_keepalive s))"

text \<open>One turn of the loop from the application to the gateway.\<close>

definition client_app_turn ::
  "zstd \<Rightarrow> lref \<Rightarrow> wref \<Rightarrow> 'a gateway_scheme \<Rightarrow> bool \<times> 'a gateway_scheme" where
  "client_app_turn z r w s =
     (let lid = connection_id (pr_links s r);
          (read_result, rd) = app_read BUFFER_SIZE (link_reader (pr_links s r));
          s = update_link r (\<lambda>l. l\<lparr>link_reader := rd\<rparr>) s
      in case read_result of
           Inl e \<Rightarrow> (False, s)
         | Inr buf \<Rightarrow>
             (if length buf = 0 then (False, s)
              else
                let n = length buf;
                    (pid, s) = next_packet_id s;
                    packet = PacketGW_new Regular pid lid (of_nat n);
                    (res, s) = send_gw_packet z w packet (Some buf) s
                in if isl res then (False, s)
                   else (True, update_link r (add_incoming (of_nat n)) s)))"

text \<open>After the loop: \<open>Close\<close> to the server, and the link leaves the registry.\<close>

definition client_app_end ::
  "zstd \<Rightarrow> lref \<Rightarrow> wref \<Rightarrow> 'a gateway_scheme \<Rightarrow> 'a gateway_scheme" where
  "client_app_end z r w s =
     (let lid = connection_id (pr_links s r);
          (pid, s) = next_packet_id s;
          close_packet = PacketGW_new Close pid lid 0;
          (res, s) = send_gw_packet z w close_packet None s;
          (l, s) = gw_remove_link lid s
      in s)"

lemma client_app_turn_reader:
  assumes "client_app_turn z r w s = (True, s')"
  shows "reader_size (link_reader (pr_links s' r)) < reader_size (link_reader (pr_links s r))"
proof -
  obtain x rd where a: "app_read 16384 (link_reader (pr_links s r)) = (x, rd)" by fastforce
  obtain d where x: "x = Inr d" "d \<noteq> []"
    using assms a by (auto simp: client_app_turn_def Let_def split: sum.splits if_splits)
  have "link_reader (pr_links s' r) = rd"
    using assms a x by (auto simp: client_app_turn_def update_link_def next_packet_id_def Let_def
        case_prod_beta send_frame split: if_splits)
  then show ?thesis using app_read_decreases a x by simp
qed

function client_app_exchange ::
  "zstd \<Rightarrow> lref \<Rightarrow> wref \<Rightarrow> 'a gateway_scheme \<Rightarrow> 'a gateway_scheme" where
  "client_app_exchange z r w s =
     (case client_app_turn z r w s of
        (True, s') \<Rightarrow> client_app_exchange z r w s'
      | (False, s') \<Rightarrow> client_app_end z r w s')"
  by pat_completeness auto
termination
  by (relation "measure (\<lambda>(z, r, w, s). reader_size (link_reader (pr_links s r)))")
    (auto dest!: client_app_turn_reader[OF sym])

declare client_app_exchange.simps [simp del]

definition send_ping :: "zstd \<Rightarrow> client \<Rightarrow> client" where
  "send_ping z s =
     (case cl_gw_writer s of
        Some w \<Rightarrow>
          (let (pid, s) = next_packet_id s;
               packet = PacketGW_new Ping pid 0 0
           in snd (send_gw_packet z w packet None s))
      | None \<Rightarrow> s)"

section \<open>Life cycle\<close>

text \<open>
  A connection to the server, in stages between which other tasks can run: what is set up before
  the authentication, what is undone when it fails, and what starts the exchange when it succeeds.
\<close>

definition begin_connection :: "gw_stream \<Rightarrow> client \<Rightarrow> wref \<times> client" where
  "begin_connection socket s =
     (let (w, s) = alloc_writer (gs_writer socket) s;
          s = s\<lparr>cl_gw_reader := Some w\<rparr>;
          s = s\<lparr>cl_gw_writer := Some w\<rparr>
      in (w, s\<lparr>gw_state := GsProcessing\<rparr>))"

definition abandon_connection :: "client \<Rightarrow> client" where
  "abandon_connection s = (let s = s\<lparr>cl_gw_reader := None\<rparr> in s\<lparr>cl_gw_writer := None\<rparr>)"

definition begin_exchange :: "wref \<Rightarrow> client \<Rightarrow> client" where
  "begin_exchange w s =
     (let s = s\<lparr>gw_state := GsConnected\<rparr>;
          s = s\<lparr>cl_last_activity := pr_now s\<rparr>
      in spawn (PingLoop w) s)"

definition on_connection :: "hmac \<Rightarrow> zstd \<Rightarrow> gw_stream \<Rightarrow> client \<Rightarrow> client" where
  "on_connection h z socket s =
     (let (w, s) = begin_connection socket s;
          (ok, rs, s) = gw_authenticate h w (gs_reader socket) s
      in if \<not> ok then abandon_connection s
         else
           let s = begin_exchange w s
           in snd (gateway_exchange z w rs s))"

definition client_on_disconnection :: "u16 list \<Rightarrow> client \<Rightarrow> client" where
  "client_on_disconnection order s =
     (let s = close_all_links order s;
          s = s\<lparr>cl_gw_reader := None\<rparr>;
          s = s\<lparr>cl_gw_writer := None\<rparr>
      in s\<lparr>gw_state := GsWaiting\<rparr>)"

definition client_shutdown :: "u16 list \<Rightarrow> client \<Rightarrow> client" where
  "client_shutdown order s =
     (let s = gw_shutdown order s
      in case cl_gw_writer s of
           Some w \<Rightarrow> gw_shutdown_writer w (s\<lparr>cl_gw_writer := None\<rparr>)
         | None \<Rightarrow> s)"

definition client_state :: "client \<Rightarrow> GatewayState" where
  "client_state s = gw_state s"

end
