(* ===== verification/Server.thy ===== *)
theory Server
  imports Operations Auth
begin

text \<open>
  The gateway in server mode, \<^verbatim>\<open>src/src/gateway/server.rs\<close>. The maps behind
  \<open>Arc<RwLock<..>>\<close> are fields of the record \<open>server\<close>, which extends the base gateway. The
  order in which a hash map yields its entries is a parameter (\<open>hash_order\<close>), of which only is
  assumed that every entry comes once (\<open>hash_order_lawful\<close>). A spawned task is a value of
  \<open>server_task\<close>; the handlers return it, and the exchange loops are recursions whose turn is a
  definition of its own.
\<close>

record hash_order =
  ho_links :: "u16 fset \<Rightarrow> u16 list"
  ho_addrs :: "SocketAddr fset \<Rightarrow> SocketAddr list"

definition hash_order_lawful :: "hash_order \<Rightarrow> bool" where
  "hash_order_lawful ho \<longleftrightarrow>
     (\<forall>S. distinct (ho_links ho S) \<and> fset_of_list (ho_links ho S) = S) \<and>
     (\<forall>S. distinct (ho_addrs ho S) \<and> fset_of_list (ho_addrs ho S) = S)"

record client_session =
  cs_writer :: wref
  cs_addr :: SocketAddr
  cs_connected_at :: int
  cs_session_id :: uuid

record server = gateway +
  sv_client_sessions :: "(SocketAddr, client_session) fmap"
  sv_link_clients :: "(u16, SocketAddr) fmap"
  sv_session_store :: session_store

datatype server_task =
    ClientExchange SocketAddr uuid wref rsock
  | AppExchange lref wref u16

definition GatewayServer_new :: "configuration \<Rightarrow> process \<Rightarrow> server" where
  "GatewayServer_new config p = gateway.extend (Gateway_new config p)
     \<lparr>sv_client_sessions = fmempty, sv_link_clients = fmempty,
      sv_session_store = SessionStore_new\<rparr>"

section \<open>Authentication\<close>

text \<open>Step 1: the challenge, two writes of which the second is tried only after the first.\<close>

definition send_challenge :: "bytes \<Rightarrow> wref \<Rightarrow> 'a gateway_scheme \<Rightarrow> bool \<times> 'a gateway_scheme" where
  "send_challenge nonce w s =
     (let (pid, s) = next_packet_id s;
          challenge = PacketGW_new GwAuthChallenge pid 0 (of_nat (length nonce));
          (r, s) = gw_write w (to_bytes challenge) s
      in if isl r then (False, s)
         else
           let (r, s) = gw_write w nonce s
           in if isl r then (False, s) else (True, s))"

text \<open>Step 2: the response, under the timeout of the caller.\<close>

definition receive_response :: "rsock \<Rightarrow> (PacketGW \<times> bytes) io_result \<times> rsock" where
  "receive_response rs =
     (let (r, rs) = read_exact PACKET_HEADER_SIZE rs
      in case r of Inl e \<Rightarrow> (Inl e, rs) | Inr header_buf \<Rightarrow>
     (case from_bytes header_buf of None \<Rightarrow> (Inl InvalidData, rs) | Some pkt \<Rightarrow>
       (if packet_type pkt \<noteq> GwAuthResponse then (Inl InvalidData, rs)
        else
          let (r, rs) = read_exact (unat (data_size pkt)) rs
          in case r of Inl e \<Rightarrow> (Inl e, rs) | Inr resp_buf \<Rightarrow> (Inr (pkt, resp_buf), rs))))"

definition version_data :: bytes where
  "version_data = to_le 4 PROTOCOL_VERSION_MAJOR @ to_le 4 PROTOCOL_VERSION_MINOR @
     to_le 4 PROTOCOL_VERSION_PATCH"

text \<open>Step 3: the verdict.\<close>

definition send_verdict ::
  "bool \<Rightarrow> u64 \<Rightarrow> wref \<Rightarrow> 'a gateway_scheme \<Rightarrow> bool \<times> 'a gateway_scheme" where
  "send_verdict accepted pid w s =
     (if accepted
      then
        let connected = PacketGW_new GwConnected pid 0 (of_nat (length version_data));
            (r, s) = gw_write w (to_bytes connected) s
        in if isl r then (False, s)
           else let (r, s) = gw_write w version_data s in (is_ok r, s)
      else
        let deny = PacketGW_new GwDeny pid 0 1;
            (r, s) = gw_write w (to_bytes deny) s;
            (r, s) = gw_write w [DisconnectReason_code AuthFailed] s
        in (False, s))"

text \<open>\<open>timed_out\<close>: whether the 5 seconds pass before the response is there.\<close>

definition authenticate_client ::
  "hmac \<Rightarrow> bytes \<Rightarrow> bool \<Rightarrow> wref \<Rightarrow> rsock \<Rightarrow> 'a gateway_scheme \<Rightarrow> bool \<times> rsock \<times> 'a gateway_scheme" where
  "authenticate_client h nonce timed_out w rs s =
     (let (sent, s) = send_challenge nonce w s
      in if \<not> sent then (False, rs, s)
         else if timed_out then (False, rs, s)
         else
           let (res, rs) = receive_response rs
           in case res of
                Inl e \<Rightarrow> (False, rs, s)
              | Inr (response_packet, response_bytes) \<Rightarrow>
                  (let k = as_bytes (key (general (gw_config s)));
                       accepted = verify_response h k nonce response_bytes;
                       (ok, s) = send_verdict accepted (packet_id response_packet) w s
                   in (ok, rs, s)))"

section \<open>Links and routes\<close>

definition remove_link :: "u16 \<Rightarrow> server \<Rightarrow> server" where
  "remove_link lid s =
     (let s = s\<lparr>sv_link_clients := fmdrop lid (sv_link_clients s)\<rparr>;
          (l, s) = gw_remove_link lid s
      in case l of Some r \<Rightarrow> update_link r close_connection s | None \<Rightarrow> s)"

fun drop_routes :: "u16 list \<Rightarrow> (u16, SocketAddr) fmap \<Rightarrow> (u16, SocketAddr) fmap" where
  "drop_routes [] m = m"
| "drop_routes (lid # lids) m = drop_routes lids (fmdrop lid m)"

fun close_owned :: "u16 list \<Rightarrow> 'a gateway_scheme \<Rightarrow> 'a gateway_scheme" where
  "close_owned [] s = s"
| "close_owned (lid # lids) s =
     (let (l, s) = gw_remove_link lid s
      in case l of
           Some r \<Rightarrow> close_owned lids (update_link r close_connection s)
         | None \<Rightarrow> close_owned lids s)"

definition cleanup_client :: "hash_order \<Rightarrow> SocketAddr \<Rightarrow> uuid \<Rightarrow> server \<Rightarrow> server" where
  "cleanup_client ho addr sid s =
     (let routes = sv_link_clients s;
          owned = filter (\<lambda>lid. fmlookup routes lid = Some addr) (ho_links ho (fmdom routes));
          s = s\<lparr>sv_link_clients := drop_routes owned routes\<rparr>;
          s = close_owned owned s;
          is_current = (case fmlookup (sv_client_sessions s) addr of
                          Some c \<Rightarrow> cs_session_id c = sid | None \<Rightarrow> False);
          s = (if is_current
               then s\<lparr>sv_client_sessions := fmdrop addr (sv_client_sessions s)\<rparr> else s);
          (links, st) = restore_session sid (sv_session_store s);
          s = s\<lparr>sv_session_store := st\<rparr>
      in if fmdom (sv_client_sessions s) = {||} then s\<lparr>gw_state := GsWaiting\<rparr> else s)"

section \<open>Gateway clients\<close>

text \<open>One packet from a client; the boolean says whether the loop goes on.\<close>

definition server_dispatch ::
  "zstd \<Rightarrow> wref \<Rightarrow> PacketGW \<Rightarrow> bytes option \<Rightarrow> server \<Rightarrow> bool \<times> server" where
  "server_dispatch z w packet data s =
     (case packet_type packet of
        Ping \<Rightarrow> (True, send_pong z w (packet_id packet) s)
      | Pong \<Rightarrow> (True, s)
      | Regular \<Rightarrow>
          (case data of
             Some payload \<Rightarrow>
               (case fmlookup (gw_links s) (link_id packet) of
                  Some r \<Rightarrow> (True, update_link r (link_send_packet (Some payload)) s)
                | None \<Rightarrow> (True, s))
           | None \<Rightarrow> (True, s))
      | Opened \<Rightarrow>
          (case fmlookup (gw_links s) (link_id packet) of
             Some r \<Rightarrow> (True, update_link r (set_state Connected) s)
           | None \<Rightarrow> (True, s))
      | OpenFail \<Rightarrow> (True, remove_link (link_id packet) s)
      | Close \<Rightarrow> (True, remove_link (link_id packet) s)
      | GwDeny \<Rightarrow> (False, s)
      | _ \<Rightarrow> (True, s))"

text \<open>One turn of the loop: read and dispatch. \<open>False\<close> ends the loop.\<close>

definition client_turn :: "zstd \<Rightarrow> wref \<Rightarrow> rsock \<Rightarrow> server \<Rightarrow> bool \<times> rsock \<times> server" where
  "client_turn z w rs s =
     (case read_packet z rs s of
        (Some (packet, data), rs, s) \<Rightarrow>
          (let (go_on, s) = server_dispatch z w packet data s in (go_on, rs, s))
      | (None, rs, s) \<Rightarrow> (False, rs, s))"

lemma client_turn_consumes:
  "client_turn z w rs s = (True, rs', s') \<Longrightarrow> length rs' + 16 \<le> length rs"
  by (auto simp: client_turn_def split: prod.splits option.splits dest!: gw.read_consumes)

function client_exchange ::
  "zstd \<Rightarrow> hash_order \<Rightarrow> SocketAddr \<Rightarrow> uuid \<Rightarrow> wref \<Rightarrow> rsock \<Rightarrow> server \<Rightarrow> server" where
  "client_exchange z ho addr sid w rs s =
     (case client_turn z w rs s of
        (True, rs', s') \<Rightarrow> client_exchange z ho addr sid w rs' s'
      | (False, rs', s') \<Rightarrow> cleanup_client ho addr sid s')"
  by pat_completeness auto
termination
  by (relation "measure (\<lambda>(z, ho, addr, sid, w, rs, s). length rs)")
    (auto dest!: client_turn_consumes[OF sym])

declare client_exchange.simps [simp del]

text \<open>
  An incoming gateway connection, in stages between which other tasks can run: \<open>addr\<close> is \<open>peer_addr\<close>, \<open>nonce\<close> and \<open>sid\<close> are the random
  draws. The result names the task that is spawned, if any.
\<close>

definition replace_session :: "SocketAddr \<Rightarrow> server \<Rightarrow> server" where
  "replace_session addr s =
     (case fmlookup (sv_client_sessions s) addr of
        Some old \<Rightarrow>
          gw_shutdown_writer (cs_writer old)
            (s\<lparr>sv_client_sessions := fmdrop addr (sv_client_sessions s)\<rparr>)
      | None \<Rightarrow> s)"

definition announce_client :: "uuid \<Rightarrow> server \<Rightarrow> server" where
  "announce_client sid s =
     (let s = s\<lparr>gw_state := GsConnected\<rparr>
      in s\<lparr>sv_session_store := save_session sid [] (sv_session_store s)\<rparr>)"

definition insert_session :: "SocketAddr \<Rightarrow> uuid \<Rightarrow> wref \<Rightarrow> server \<Rightarrow> server" where
  "insert_session addr sid w s =
     s\<lparr>sv_client_sessions := fmupd addr
         \<lparr>cs_writer = w, cs_addr = addr, cs_connected_at = pr_now s, cs_session_id = sid\<rparr>
         (sv_client_sessions s)\<rparr>"

definition accept_gateway ::
  "SocketAddr option \<Rightarrow> gw_stream \<Rightarrow> server \<Rightarrow> (SocketAddr \<times> wref) \<times> server" where
  "accept_gateway peer stream s =
     (let addr = (case peer of Some a \<Rightarrow> a | None \<Rightarrow> unspecified_addr);
          (w, s) = alloc_writer (gs_writer stream) s
      in ((addr, w), replace_session addr s))"

definition handle_gateway_connection ::
  "hmac \<Rightarrow> bytes \<Rightarrow> uuid \<Rightarrow> bool \<Rightarrow> SocketAddr option \<Rightarrow> gw_stream \<Rightarrow> server
    \<Rightarrow> server_task option \<times> server" where
  "handle_gateway_connection h nonce sid timed_out peer stream s =
     (let ((addr, w), s) = accept_gateway peer stream s;
          (ok, rs, s) = authenticate_client h nonce timed_out w (gs_reader stream) s
      in if \<not> ok then (None, s)
         else
           let s = announce_client sid s;
               s = insert_session addr sid w s
           in (Some (ClientExchange addr sid w rs), s))"

section \<open>Applications\<close>

text \<open>\<open>sessions.values().next()\<close>.\<close>

definition pick_client :: "hash_order \<Rightarrow> server \<Rightarrow> client_session option" where
  "pick_client ho s =
     (case ho_addrs ho (fmdom (sv_client_sessions s)) of
        [] \<Rightarrow> None
      | a # as \<Rightarrow> fmlookup (sv_client_sessions s) a)"

text \<open>
  An incoming application connection, in stages between which other tasks can run: the choice of
  a client, the new link, its route, the \<open>Open\<close> packet, and the change to \<open>WAITING\<close>. Without a
  client the stream is shut down and given back (\<open>Inl\<close>).
\<close>

definition choose_client :: "hash_order \<Rightarrow> server \<Rightarrow> (u16 \<times> client_session option) \<times> server" where
  "choose_client ho s =
     (let (lid, s) = next_link_id s in ((lid, pick_client ho s), s))"

definition link_app :: "tcp_stream \<Rightarrow> u16 \<Rightarrow> 'a gateway_scheme \<Rightarrow> lref \<times> 'a gateway_scheme" where
  "link_app stream lid s =
     (let (r, s) = alloc_link (Link_new stream lid) s in (r, add_link r s))"

definition route_app :: "u16 \<Rightarrow> SocketAddr \<Rightarrow> server \<Rightarrow> server" where
  "route_app lid addr s = s\<lparr>sv_link_clients := fmupd lid addr (sv_link_clients s)\<rparr>"

definition send_open :: "zstd \<Rightarrow> wref \<Rightarrow> u16 \<Rightarrow> 'a gateway_scheme \<Rightarrow> 'a gateway_scheme" where
  "send_open z w lid s =
     (let (pid, s) = next_packet_id s;
          open_packet = PacketGW_new Open pid lid 0
      in snd (send_gw_packet z w open_packet None s))"

definition handle_app_connection ::
  "zstd \<Rightarrow> hash_order \<Rightarrow> tcp_stream \<Rightarrow> server \<Rightarrow> (tcp_stream + server_task) \<times> server" where
  "handle_app_connection z ho stream s =
     (let ((lid, client), s) = choose_client ho s
      in case client of
           None \<Rightarrow> (Inl (stream\<lparr>ts_writer := shutdown (ts_writer stream)\<rparr>), s)
         | Some c \<Rightarrow>
             (let (r, s) = link_app stream lid s;
                  s = route_app lid (cs_addr c) s;
                  s = send_open z (cs_writer c) lid s;
                  s = update_link r (set_state Waiting) s
              in (Inr (AppExchange r (cs_writer c) lid), s)))"

text \<open>One turn of the loop from the application to the client.\<close>

definition app_turn :: "zstd \<Rightarrow> lref \<Rightarrow> wref \<Rightarrow> u16 \<Rightarrow> 'a gateway_scheme \<Rightarrow> bool \<times> 'a gateway_scheme" where
  "app_turn z r w lid s =
     (let (n, rd) = app_read BUFFER_SIZE (link_reader (pr_links s r));
          s = update_link r (\<lambda>l. l\<lparr>link_reader := rd\<rparr>) s
      in case n of
           Inl e \<Rightarrow> (False, s)
         | Inr buf \<Rightarrow>
             (if length buf = 0 then (False, s)
              else
                let n = length buf;
                    s = update_link r (add_incoming (of_nat n)) s;
                    (pid, s) = next_packet_id s;
                    packet = PacketGW_new Regular pid lid (of_nat n);
                    (res, s) = send_gw_packet z w packet (Some buf) s
                in (is_ok res, s)))"

definition app_end :: "zstd \<Rightarrow> wref \<Rightarrow> u16 \<Rightarrow> server \<Rightarrow> server" where
  "app_end z w lid s =
     (let (pid, s) = next_packet_id s;
          close_packet = PacketGW_new Close pid lid 0;
          (res, s) = send_gw_packet z w close_packet None s
      in remove_link lid s)"

lemma app_turn_reader:
  assumes "app_turn z r w lid s = (True, s')"
  shows "reader_size (link_reader (pr_links s' r)) < reader_size (link_reader (pr_links s r))"
proof -
  obtain x rd where a: "app_read 16384 (link_reader (pr_links s r)) = (x, rd)" by fastforce
  obtain d where x: "x = Inr d" "d \<noteq> []"
    using assms a by (auto simp: app_turn_def Let_def split: sum.splits if_splits)
  have "link_reader (pr_links s' r) = rd"
    using assms a x by (auto simp: app_turn_def update_link_def next_packet_id_def Let_def
        case_prod_beta send_frame split: if_splits)
  then show ?thesis using app_read_decreases a x by simp
qed

function app_exchange :: "zstd \<Rightarrow> lref \<Rightarrow> wref \<Rightarrow> u16 \<Rightarrow> server \<Rightarrow> server" where
  "app_exchange z r w lid s =
     (case app_turn z r w lid s of
        (True, s') \<Rightarrow> app_exchange z r w lid s'
      | (False, s') \<Rightarrow> app_end z w lid s')"
  by pat_completeness auto
termination
  by (relation "measure (\<lambda>(z, r, w, lid, s). reader_size (link_reader (pr_links s r)))")
    (auto dest!: app_turn_reader[OF sym])

declare app_exchange.simps [simp del]

section \<open>Life cycle\<close>

text \<open>\<open>sessions.drain()\<close> in some order, the store released for each.\<close>

fun release_sessions ::
  "(uuid \<Rightarrow> session_store \<Rightarrow> session_store) \<Rightarrow> client_session list \<Rightarrow> session_store \<Rightarrow> session_store" where
  "release_sessions release [] st = st"
| "release_sessions release (c # cs) st = release_sessions release cs (release (cs_session_id c) st)"

definition drained_sessions :: "hash_order \<Rightarrow> server \<Rightarrow> client_session list" where
  "drained_sessions ho s =
     List.map_filter (fmlookup (sv_client_sessions s)) (ho_addrs ho (fmdom (sv_client_sessions s)))"

definition server_on_disconnection :: "hash_order \<Rightarrow> server \<Rightarrow> server" where
  "server_on_disconnection ho s =
     (let s = close_all_links (ho_links ho (fmdom (gw_links s))) s;
          cs = drained_sessions ho s;
          s = s\<lparr>sv_client_sessions := fmempty\<rparr>;
          s = s\<lparr>sv_session_store :=
                 release_sessions (\<lambda>i st. snd (restore_session i st)) cs (sv_session_store s)\<rparr>
      in s\<lparr>gw_state := GsWaiting\<rparr>)"

fun shutdown_writers :: "client_session list \<Rightarrow> 'a process_scheme \<Rightarrow> 'a process_scheme" where
  "shutdown_writers [] s = s"
| "shutdown_writers (c # cs) s = shutdown_writers cs (gw_shutdown_writer (cs_writer c) s)"

definition server_shutdown :: "hash_order \<Rightarrow> server \<Rightarrow> server" where
  "server_shutdown ho s =
     (let s = gw_shutdown (ho_links ho (fmdom (gw_links s))) s;
          cs = drained_sessions ho s;
          s = s\<lparr>sv_client_sessions := fmempty\<rparr>;
          s = shutdown_writers cs s
      in s\<lparr>sv_session_store := release_sessions remove_session cs (sv_session_store s)\<rparr>)"

definition server_state :: "server \<Rightarrow> GatewayState" where
  "server_state s = gw_state s"

text \<open>\<open>listen_gateway\<close> binds its port (\<open>bound\<close>) and then waits for clients.\<close>

definition listen_gateway_start :: "bool \<Rightarrow> server \<Rightarrow> bool \<times> server" where
  "listen_gateway_start bound s =
     (if bound then (True, s\<lparr>gw_state := GsWaiting\<rparr>) else (False, s))"

section \<open>Lemmas: links and clean-up\<close>

lemma update_link_server [simp]:
  "sv_client_sessions (update_link r f s) = sv_client_sessions s"
  "sv_link_clients (update_link r f s) = sv_link_clients s"
  "sv_session_store (update_link r f s) = sv_session_store s"
  by (simp_all add: update_link_def)

lemma remove_link_writers [simp]: "pr_writers (remove_link lid s) = pr_writers s"
  by (simp add: remove_link_def gw_remove_link_eq update_link_def Let_def split: option.split)

text \<open>What \<open>cleanup_client\<close> and \<open>remove_link\<close> leave alone: the bytes that applications received.\<close>

lemma close_owned_links:
  "pr_links (close_owned lids s) r = pr_links s r \<or>
     pr_links (close_owned lids s) r = close_connection (pr_links s r)"
proof (induction lids arbitrary: s)
  case (Cons lid lids)
  show ?case
  proof (cases "fmlookup (gw_links s) lid")
    case None
    then show ?thesis using Cons[of "snd (gw_remove_link lid s)"] by (simp add: gw_remove_link_eq)
  next
    case (Some q)
    then show ?thesis
      using Cons[of "update_link q close_connection (snd (gw_remove_link lid s))"]
      by (cases "r = q") (simp_all add: gw_remove_link_eq)
  qed
qed simp

lemma close_owned_registry:
  "fmlookup (gw_links (close_owned lids s)) l = (if l \<in> set lids then None else fmlookup (gw_links s) l)"
proof (induction lids arbitrary: s)
  case (Cons lid lids)
  then show ?case by (cases "fmlookup (gw_links s) lid") (auto simp: gw_remove_link_eq)
qed simp

lemma cleanup_links:
  "pr_links (cleanup_client ho addr sid s) r = pr_links s r \<or>
     pr_links (cleanup_client ho addr sid s) r = close_connection (pr_links s r)"
  using close_owned_links[of _ "s\<lparr>sv_link_clients := _\<rparr>" r]
  by (simp add: cleanup_client_def Let_def case_prod_beta)

lemma cleanup_received [simp]:
  "w_out (link_writer (pr_links (cleanup_client ho addr sid s) r)) = w_out (link_writer (pr_links s r))"
  using cleanup_links[of ho addr sid s r] by auto

lemma cleanup_keeps_closed:
  "link_state (pr_links s r) = Disconnected \<Longrightarrow>
     link_state (pr_links (cleanup_client ho addr sid s) r) = Disconnected"
  using cleanup_links[of ho addr sid s r] by auto

lemma cleanup_registry:
  "fmlookup (gw_links (cleanup_client ho addr sid s)) l =
     (if l \<in> set (ho_links ho (fmdom (sv_link_clients s))) \<and> fmlookup (sv_link_clients s) l = Some addr
      then None else fmlookup (gw_links s) l)"
  by (simp add: cleanup_client_def close_owned_registry Let_def case_prod_beta)

lemma close_owned_frame [simp]:
  "connection_id (pr_links (close_owned lids s) r) = connection_id (pr_links s r)"
  "pr_next_link (close_owned lids s) = pr_next_link s"
  "sv_link_clients (close_owned lids t) = sv_link_clients t"
  "sv_client_sessions (close_owned lids t) = sv_client_sessions t"
  "sv_session_store (close_owned lids t) = sv_session_store t"
  "gw_state (close_owned lids s) = gw_state s"
  subgoal by (induction lids arbitrary: s) (auto simp: gw_remove_link_eq split: option.split)
  subgoal by (induction lids arbitrary: s) (auto simp: gw_remove_link_eq update_link_def split: option.split)
  subgoal by (induction lids arbitrary: t) (auto simp: gw_remove_link_eq update_link_def split: option.split)
  subgoal by (induction lids arbitrary: t) (auto simp: gw_remove_link_eq update_link_def split: option.split)
  subgoal by (induction lids arbitrary: t) (auto simp: gw_remove_link_eq update_link_def split: option.split)
  subgoal by (induction lids arbitrary: s) (auto simp: gw_remove_link_eq update_link_def split: option.split)
  done

lemma fmdom_is_empty: "fmdom m = {||} \<longleftrightarrow> m = fmempty"
  by (metis fempty_iff fmap_ext fmdom_empty fmdom_notD fmempty_lookup)

lemma drop_routes_eq: "drop_routes lids m = fmdrop_set (set lids) m"
  by (induction lids m rule: drop_routes.induct) (auto intro: fmap_ext)

text \<open>The new state, field by field; \<open>owned\<close> are the routes of the client.\<close>

lemma cleanup_eq:
  assumes "owned = filter (\<lambda>lid. fmlookup (sv_link_clients s) lid = Some addr)
    (ho_links ho (fmdom (sv_link_clients s)))"
    and "s' = cleanup_client ho addr sid s"
    and "current = (\<exists>c. fmlookup (sv_client_sessions s) addr = Some c \<and> cs_session_id c = sid)"
  shows "sv_link_clients s' = fmdrop_set (set owned) (sv_link_clients s)"
    and "sv_client_sessions s' = (if current then fmdrop addr (sv_client_sessions s) else sv_client_sessions s)"
    and "sv_session_store s' = snd (restore_session sid (sv_session_store s))"
    and "gw_state s' = (if sv_client_sessions s' = fmempty then GsWaiting else gw_state s)"
    and "connection_id (pr_links s' r) = connection_id (pr_links s r)"
    and "pr_next_link s' = pr_next_link s"
  using assms(3) unfolding assms(1,2)
  by (simp_all add: cleanup_client_def drop_routes_eq Let_def case_prod_beta fmdom_is_empty
      split: option.split)

end
