(* ===== verification/Scenario.thy ===== *)
theory Scenario
  imports Client Server
begin

text \<open>
  Concrete data at which the theorems of the development are instantiated: a configuration, a
  process that has just started, instances of the third-party parameters, and small client and
  server states. None of it models code.
\<close>

text \<open>Compression by runs of zeros; the frame is the length behind a magic number.\<close>

definition zeros_zstd :: zstd where
  "zeros_zstd = \<lparr>encode_all = (\<lambda>d l. if d = replicate (length d) 0 \<and> length d < 65536
       then Some (40 # to_le 2 (of_nat (length d) :: u16)) else None),
     decode_all = (\<lambda>c. case c of [] \<Rightarrow> None | m # n \<Rightarrow>
       if length n = 2 then Some (replicate (unat (from_le n :: u16)) 0) else None)\<rparr>"

lemma compress_zeros:
  "1024 \<le> n \<Longrightarrow> n < 65536 \<Longrightarrow> compress_data zeros_zstd (replicate n 0) =
     \<lparr>cr_data = 40 # to_le 2 (of_nat n :: u16), cr_is_compressed = True\<rparr>"
  by (simp add: compress_data_def zeros_zstd_def)

lemma zeros_zstd_lawful: "zstd_lawful zeros_zstd"
  by (auto simp: zstd_lawful_def zeros_zstd_def from_le_to_le unat_of_nat_u16 split: if_splits)

text \<open>A tag of 32 bytes from the first bytes of key and message.\<close>

definition sample_hmac :: hmac where
  "sample_hmac k m = take 32 (k @ m @ replicate 32 0)"

lemma sample_hmac_lawful: "hmac_lawful sample_hmac"
  by (auto simp: hmac_lawful_def sample_hmac_def min_def)

definition sample_config :: configuration where
  "sample_config =
     \<lparr>general = \<lparr>mode = ''server'', key = ''secret''\<rparr>,
      network = \<lparr>port_gw = 7000, port_app = 8000, host_app = ''localhost'', host_gw = ''gw'',
        port_metrics = 0\<rparr>\<rparr>"

definition idle_link :: link where
  "idle_link = Link_new \<lparr>ts_reader = [], ts_writer = wsock_open 0\<rparr> 0"

definition sample_process :: process where
  "sample_process =
     \<lparr>pr_links = (\<lambda>r. idle_link), pr_next_link = 0, pr_writers = (\<lambda>w. wsock_open 100000),
      pr_next_writer = 0, pr_pool = BufferPool_default, pr_metrics = Metrics_start,
      pr_now = 0, pr_elapsed = 0\<rparr>"

definition sample_client :: client where
  "sample_client = GatewayClient_new sample_config sample_process []"

definition sample_server :: server where
  "sample_server = GatewayServer_new sample_config sample_process"

definition sample_order :: hash_order where
  "sample_order = \<lparr>ho_links = sorted_list_of_fset, ho_addrs = sorted_list_of_fset\<rparr>"

lemma sample_order_lawful: "hash_order_lawful sample_order"
  by (simp add: hash_order_lawful_def sample_order_def) (simp add: sorted_list_of_fset.rep_eq)

text \<open>Both with one open application connection, number 1.\<close>

definition open_link :: "app_reader \<Rightarrow> link" where
  "open_link rd = set_state Connected (Link_new \<lparr>ts_reader = rd, ts_writer = wsock_open 1000\<rparr> 1)"

definition with_link :: "link \<Rightarrow> 'a gateway_scheme \<Rightarrow> 'a gateway_scheme" where
  "with_link l s = (let (r, s) = alloc_link l s in add_link r s)"

definition tunnel_server :: server where
  "tunnel_server = with_link (open_link [Inr [1, 2, 3], Inr [4]]) sample_server"

definition tunnel_client :: client where
  "tunnel_client = with_link (open_link [Inr [5, 6], Inr []]) sample_client"

lemmas scenario_defs = sample_config_def sample_process_def sample_client_def sample_server_def
  idle_link_def open_link_def with_link_def GatewayClient_new_def GatewayServer_new_def
  Gateway_new_def process.defs gateway.defs alloc_link_def add_link_eq wsock_open_def

lemma sample_connection [simp]:
  "w_room (pr_writers sample_server w) = 100000" "w_room (pr_writers sample_client w) = 100000"
  "w_out (pr_writers sample_server w) = []" "w_out (pr_writers sample_client w) = []"
  by (simp_all add: scenario_defs w_room_def)

lemmas tunnel_defs = tunnel_server_def tunnel_client_def scenario_defs

lemma tunnel_chunks [simp]:
  "chunks 16384 (link_reader (pr_links tunnel_server 0)) = [[1, 2, 3], [4]]"
  "chunks 16384 (link_reader (pr_links tunnel_client 0)) = [[5, 6]]"
  by (simp_all add: tunnel_defs chunks.simps[of _ "_ # _"] chunks.simps[of _ "[]"])

lemma tunnel_link [simp]:
  "fmlookup (gw_links tunnel_client) 1 = Some 0" "fmlookup (gw_links tunnel_server) 1 = Some 0"
  "link_state (pr_links tunnel_client 0) = Connected" "link_state (pr_links tunnel_server 0) = Connected"
  "w_room (link_writer (pr_links tunnel_client 0)) = 1000"
  "w_room (link_writer (pr_links tunnel_server 0)) = 1000"
  "w_out (link_writer (pr_links tunnel_client 0)) = []"
  "w_out (link_writer (pr_links tunnel_server 0)) = []"
  "connection_id (pr_links tunnel_client 0) = 1" "connection_id (pr_links tunnel_server 0) = 1"
  "app_bytes (link_reader (pr_links tunnel_server 0)) = [1, 2, 3, 4]"
  "app_bytes (link_reader (pr_links tunnel_client 0)) = [5, 6]"
  by (simp_all add: tunnel_defs w_room_def)

lemma tunnel_connection [simp]:
  "w_out (pr_writers tunnel_client 0) = []" "w_out (pr_writers tunnel_server 0) = []"
  "w_room (pr_writers tunnel_client 0) = 100000" "w_room (pr_writers tunnel_server 0) = 100000"
  "gw_packet_id_counter tunnel_client = 0" "gw_packet_id_counter tunnel_server = 0"
  by (simp_all add: tunnel_defs w_room_def)

end
