(* ===== verification/Tunnel.thy ===== *)
theory Tunnel
  imports Scenario "HOL-Library.Sublist"
begin

text \<open>
  The data path: what an application writes on one side is what the application on the other
  side gets. First the sending loops (\<open>client_app_exchange\<close>, \<open>app_exchange\<close>) as one stream of
  packets, then the receiving loops (\<open>client_exchange\<close>, \<open>gateway_exchange\<close>) as deliveries to the
  links, then the two together.
\<close>

section \<open>Sending: from application chunks to a stream of packets\<close>

text \<open>The packets of one application connection: a \<open>Regular\<close> per chunk, then \<open>Close\<close>.\<close>

fun app_stream :: "u16 \<Rightarrow> u64 \<Rightarrow> bytes list \<Rightarrow> (PacketGW \<times> bytes option) list" where
  "app_stream lid c [] = [(PacketGW_new Close (c + 1) lid 0, None)]"
| "app_stream lid c (d # ds) =
     (PacketGW_new Regular (c + 1) lid (of_nat (length d)), Some d) # app_stream lid (c + 1) ds"

lemma sendable_control [simp]: "sendable (PacketGW_new t i l 0) None"
  by (simp add: sendable_def)

lemma sendable_chunk [simp]:
  "d \<noteq> [] \<Longrightarrow> length d \<le> 16384 \<Longrightarrow> sendable (PacketGW_new t i l (of_nat (length d))) (Some d)"
  by (simp add: sendable_def unat_of_nat_u16)

lemma app_stream_sendable:
  "(\<And>d. d \<in> set ds \<Longrightarrow> d \<noteq> [] \<and> length d \<le> 16384) \<Longrightarrow>
     list_all (\<lambda>(p, d). sendable p d) (app_stream lid c ds)"
  by (induction lid c ds rule: app_stream.induct) simp_all

text \<open>What one write leaves of the room, and why a broken connection swallows the rest.\<close>

lemma take_append_room:
  "take n (xs @ ys) = take n xs @ take (n - length xs) ys"
  by simp

lemma client_app_turn_stop:
  "app_read 16384 (link_reader (pr_links s r)) = (x, rd) \<Longrightarrow> x = Inr [] \<or> isl x \<Longrightarrow>
     client_app_turn z r w s = (False, update_link r (\<lambda>l. l\<lparr>link_reader := rd\<rparr>) s)"
  by (cases x) (auto simp: client_app_turn_def Let_def)

text \<open>A turn that got a chunk \<open>d\<close>, with its packet \<open>p\<close>.\<close>

lemma client_app_turn_chunk:
  assumes "app_read 16384 (link_reader (pr_links s r)) = (Inr d, rd)" and "d \<noteq> []"
    and "p = PacketGW_new Regular (gw_packet_id_counter s + 1) (connection_id (pr_links s r)) (of_nat (length d))"
    and "client_app_turn z r w s = (go_on, s')"
  shows "go_on \<longleftrightarrow> length (wire z p (Some d)) \<le> w_room (pr_writers s w)"
    and "pr_writers s' = (pr_writers s)(w := snd (write_all (wire z p (Some d)) (pr_writers s w)))"
    and "link_reader (pr_links s' r) = rd" and "connection_id (pr_links s' r) = connection_id (pr_links s r)"
    and "gw_packet_id_counter s' = gw_packet_id_counter s + 1"
  using assms by (auto simp: client_app_turn_def update_link_def next_packet_id_eq Let_def
      case_prod_beta send_writer send_result split: if_splits)

lemma client_app_end_writers:
  "pr_writers (client_app_end z r w s) = (pr_writers s)(w := snd (write_all
     (wire z (PacketGW_new Close (gw_packet_id_counter s + 1) (connection_id (pr_links s r)) 0) None)
     (pr_writers s w)))"
  by (simp add: client_app_end_def next_packet_id_eq gw_remove_link_eq Let_def case_prod_beta send_writer)

lemma client_app_stream:
  "w_out (pr_writers (client_app_exchange z r w s) w) = w_out (pr_writers s w) @
     take (w_room (pr_writers s w)) (images (wire z) (app_stream (connection_id (pr_links s r))
       (gw_packet_id_counter s) (chunks 16384 (link_reader (pr_links s r)))))"
proof (induction z r w s rule: client_app_exchange.induct)
  case (1 z r w s)
  obtain x rd where a: "app_read 16384 (link_reader (pr_links s r)) = (x, rd)" by fastforce
  show ?case
  proof (cases "x = Inr [] \<or> isl x")
    case True
    then have "chunks 16384 (link_reader (pr_links s r)) = []"
      using a by (auto simp: chunks.simps[of _ "link_reader _"] split: sum.split)
    then show ?thesis using client_app_turn_stop[OF a True, of z w]
      by (simp add: client_app_exchange.simps[of z r w s] client_app_end_writers write_all_prefix)
  next
    case False
    then obtain d where x: "x = Inr d" "d \<noteq> []" by (cases x) auto
    define p where "p = PacketGW_new Regular (gw_packet_id_counter s + 1) (connection_id (pr_links s r)) (of_nat (length d))"
    obtain go_on s' where t: "client_app_turn z r w s = (go_on, s')" by fastforce
    note turn = client_app_turn_chunk[OF a[unfolded x(1)] x(2) p_def t]
    have chunks: "chunks 16384 (link_reader (pr_links s r)) = d # chunks 16384 rd"
      using a x by (simp add: chunks.simps[of _ "link_reader _"])
    show ?thesis
    proof (cases go_on)
      case True
      then have "w_out (pr_writers (client_app_exchange z r w s) w) =
          w_out (pr_writers (client_app_exchange z r w s') w)"
        using t by (simp add: client_app_exchange.simps[of z r w s])
      then show ?thesis using "1.IH"[OF t[symmetric]] True turn
        by (simp add: chunks p_def write_all_prefix)
    next
      case False
      then have "client_app_exchange z r w s = client_app_end z r w s'"
        using t by (simp add: client_app_exchange.simps[of z r w s])
      then show ?thesis using False turn
        by (simp add: chunks p_def client_app_end_writers write_all_prefix)
    qed
  qed
qed

text \<open>The same for the server's loop, which counts before it sends.\<close>

lemma app_turn_stop:
  "app_read 16384 (link_reader (pr_links s r)) = (x, rd) \<Longrightarrow> x = Inr [] \<or> isl x \<Longrightarrow>
     app_turn z r w lid s = (False, update_link r (\<lambda>l. l\<lparr>link_reader := rd\<rparr>) s)"
  by (cases x) (auto simp: app_turn_def Let_def)

lemma app_turn_chunk:
  assumes "app_read 16384 (link_reader (pr_links s r)) = (Inr d, rd)" and "d \<noteq> []"
    and "p = PacketGW_new Regular (gw_packet_id_counter s + 1) lid (of_nat (length d))"
    and "app_turn z r w lid s = (go_on, s')"
  shows "go_on \<longleftrightarrow> length (wire z p (Some d)) \<le> w_room (pr_writers s w)"
    and "pr_writers s' = (pr_writers s)(w := snd (write_all (wire z p (Some d)) (pr_writers s w)))"
    and "link_reader (pr_links s' r) = rd"
    and "gw_packet_id_counter s' = gw_packet_id_counter s + 1"
proof -
  define s1 where "s1 = (update_link r (add_incoming (of_nat (length d)))
      (update_link r (\<lambda>l. l\<lparr>link_reader := rd\<rparr>) s))\<lparr>gw_packet_id_counter := gw_packet_id_counter s + 1\<rparr>"
  have "app_turn z r w lid s = (is_ok (fst (send_gw_packet z w p (Some d) s1)), snd (send_gw_packet z w p (Some d) s1))"
    using assms(1-3) by (simp add: app_turn_def next_packet_id_eq s1_def Let_def case_prod_beta)
  then have s': "s' = snd (send_gw_packet z w p (Some d) s1)"
    and go: "go_on = is_ok (fst (send_gw_packet z w p (Some d) s1))" using assms(4) by simp_all
  show "go_on \<longleftrightarrow> length (wire z p (Some d)) \<le> w_room (pr_writers s w)"
    using send_result[of z w p "Some d" s1] by (auto simp: go s1_def update_link_def)
  show "pr_writers s' = (pr_writers s)(w := snd (write_all (wire z p (Some d)) (pr_writers s w)))"
    by (simp add: s' send_writer s1_def)
  show "link_reader (pr_links s' r) = rd" "gw_packet_id_counter s' = gw_packet_id_counter s + 1"
    by (simp_all add: s' s1_def)
qed

lemma app_end_writers:
  "pr_writers (app_end z w lid s) = (pr_writers s)(w := snd (write_all
     (wire z (PacketGW_new Close (gw_packet_id_counter s + 1) lid 0) None) (pr_writers s w)))"
  by (simp add: app_end_def next_packet_id_eq Let_def case_prod_beta send_writer)

lemma server_app_stream:
  "w_out (pr_writers (app_exchange z r w lid s) w) = w_out (pr_writers s w) @
     take (w_room (pr_writers s w)) (images (wire z) (app_stream lid
       (gw_packet_id_counter s) (chunks 16384 (link_reader (pr_links s r)))))"
proof (induction z r w lid s rule: app_exchange.induct)
  case (1 z r w lid s)
  obtain x rd where a: "app_read 16384 (link_reader (pr_links s r)) = (x, rd)" by fastforce
  show ?case
  proof (cases "x = Inr [] \<or> isl x")
    case True
    then have "chunks 16384 (link_reader (pr_links s r)) = []"
      using a by (auto simp: chunks.simps[of _ "link_reader _"] split: sum.split)
    then show ?thesis using app_turn_stop[OF a True, of z w lid]
      by (simp add: app_exchange.simps[of z r w lid s] app_end_writers write_all_prefix)
  next
    case False
    then obtain d where x: "x = Inr d" "d \<noteq> []" by (cases x) auto
    define p where "p = PacketGW_new Regular (gw_packet_id_counter s + 1) lid (of_nat (length d))"
    obtain go_on s' where t: "app_turn z r w lid s = (go_on, s')" by fastforce
    note turn = app_turn_chunk[OF a[unfolded x(1)] x(2) p_def t]
    have chunks: "chunks 16384 (link_reader (pr_links s r)) = d # chunks 16384 rd"
      using a x by (simp add: chunks.simps[of _ "link_reader _"])
    show ?thesis
    proof (cases go_on)
      case True
      then have "w_out (pr_writers (app_exchange z r w lid s) w) =
          w_out (pr_writers (app_exchange z r w lid s') w)"
        using t by (simp add: app_exchange.simps[of z r w lid s])
      then show ?thesis using "1.IH"[OF t[symmetric]] True turn
        by (simp add: chunks p_def write_all_prefix)
    next
      case False
      then have "app_exchange z r w lid s = app_end z w lid s'"
        using t by (simp add: app_exchange.simps[of z r w lid s])
      then show ?thesis using False turn
        by (simp add: chunks p_def app_end_writers write_all_prefix)
    qed
  qed
qed

section \<open>Receiving: deliveries to the links\<close>

fun deliver_all :: "(u16 \<times> bytes) list \<Rightarrow> 'a gateway_scheme \<Rightarrow> 'a gateway_scheme" where
  "deliver_all [] s = s"
| "deliver_all ((lid, d) # ds) s = deliver_all ds (forward_to_app lid d s)"

text \<open>The data addressed to one link.\<close>

definition addressed_to :: "u16 \<Rightarrow> (u16 \<times> bytes) list \<Rightarrow> bytes" where
  "addressed_to lid ds = concat (map snd (filter (\<lambda>(l, d). l = lid) ds))"

lemma addressed_to_simps [simp]:
  "addressed_to lid [] = []"
  "addressed_to lid ((l, d) # ds) = (if l = lid then d else []) @ addressed_to lid ds"
  by (simp_all add: addressed_to_def)

text \<open>No two identifiers of the registry share a link.\<close>

definition links_unshared :: "'a gateway_scheme \<Rightarrow> bool" where
  "links_unshared s \<longleftrightarrow> (\<forall>i j r. fmlookup (gw_links s) i = Some r \<longrightarrow> fmlookup (gw_links s) j = Some r \<longrightarrow> i = j)"

lemma forward_frame [simp]:
  "gw_links (forward_to_app lid d s) = gw_links s"
  "pr_writers (forward_to_app lid d s) = pr_writers s"
  by (simp_all add: forward_to_app_def split: option.split)

lemma deliver_frame [simp]:
  "gw_links (deliver_all ds s) = gw_links s" "pr_writers (deliver_all ds s) = pr_writers s"
  by (induction ds s rule: deliver_all.induct) simp_all

text \<open>Only the links of the heap matter to a delivery.\<close>

lemma deliver_links_cong:
  fixes s :: "'a gateway_scheme" and t :: "'b gateway_scheme"
  shows "pr_links s = pr_links t \<Longrightarrow> gw_links s = gw_links t \<Longrightarrow>
     pr_links (deliver_all ds s) = pr_links (deliver_all ds t)"
  by (induction ds arbitrary: s t) (auto simp: forward_to_app_def split: option.split)

lemma deliver_links_snoc:
  "deliver_all (ds @ es) s = deliver_all es (deliver_all ds s)"
  by (induction ds s rule: deliver_all.induct) simp_all

text \<open>Each application gets the data addressed to its link, in order, and nothing else.\<close>

lemma deliver_all_step:
  "links_unshared s \<and> fmlookup (gw_links s) lid = Some r \<and> link_state (pr_links s r) = Connected \<Longrightarrow>
     w_out (link_writer (pr_links (deliver_all ds s) r)) =
       w_out (link_writer (pr_links s r)) @ take (w_room (link_writer (pr_links s r))) (addressed_to lid ds) \<and>
     link_state (pr_links (deliver_all ds s) r) = Connected"
proof (induction ds s rule: deliver_all.induct)
  case (2 l d ds s)
  have keep: "links_unshared (forward_to_app l d s)" using 2 by (simp add: links_unshared_def)
  have other: "pr_links (forward_to_app l d s) r = pr_links s r" if "l \<noteq> lid"
    using that 2 by (auto simp: forward_to_app_def links_unshared_def split: option.split)
  have here: "pr_links (forward_to_app lid d s) r = link_send_packet (Some d) (pr_links s r)"
    using 2 by (simp add: forward_to_app_def)
  show ?case using 2 keep other here
    by (cases "l = lid") (simp_all add: link_send_out link_send_room)
qed simp

lemmas deliver_all_out = deliver_all_step[THEN conjunct1] deliver_all_step[THEN conjunct2]

section \<open>The exchange loops as deliveries\<close>

text \<open>Data packets, with the identifier, the link and the payload of each.\<close>

definition data_packets :: "(u64 \<times> u16 \<times> bytes) list \<Rightarrow> (PacketGW \<times> bytes option) list" where
  "data_packets = map (\<lambda>(i, lid, d). (PacketGW_new Regular i lid (of_nat (length d)), Some d))"

definition payload_ok :: "bytes \<Rightarrow> bool" where
  "payload_ok d \<longleftrightarrow> d \<noteq> [] \<and> length d \<le> 65535"

lemma data_packets_simps [simp]:
  "data_packets [] = []"
  "data_packets ((i, lid, d) # ps) =
     (PacketGW_new Regular i lid (of_nat (length d)), Some d) # data_packets ps"
  by (simp_all add: data_packets_def)

lemma sendable_data [simp]: "payload_ok d \<Longrightarrow> sendable (PacketGW_new t i l (of_nat (length d))) (Some d)"
  by (simp add: sendable_def payload_ok_def unat_of_nat_u16)

text \<open>The stream of one application is data for its link, then \<open>Close\<close>.\<close>

lemma app_stream_data:
  "\<exists>ps i. app_stream lid c ds = data_packets ps @ [(PacketGW_new Close i lid 0, None)] \<and>
     map snd ps = map (Pair lid) ds"
proof (induction lid c ds rule: app_stream.induct)
  case (1 lid c)
  show ?case by (intro exI[of _ "[]"] exI[of _ "c + 1"]) simp
next
  case (2 lid c d ds)
  then obtain ps i where "app_stream lid (c + 1) ds = data_packets ps @ [(PacketGW_new Close i lid 0, None)]"
    "map snd ps = map (Pair lid) ds" by blast
  then show ?case by (intro exI[of _ "(c + 1, lid, d) # ps"] exI[of _ i]) simp
qed

lemma addressed_to_own [simp]: "addressed_to lid (map (Pair lid) ds) = concat ds"
  by (induction ds) simp_all

lemma gateway_exchange_step:
  assumes "zstd_lawful z" and "sendable p d"
  obtains t where "gateway_exchange z w (wire z p d @ rest) s =
      (case client_dispatch z w (sent_header z p d) d t of
         (True, s'') \<Rightarrow> gateway_exchange z w rest s'' | (False, s'') \<Rightarrow> (rest, s''))"
    and "pr_links t = pr_links s" and "gw_links t = gw_links s"
proof -
  obtain t where r: "read_gw_packet z (wire z p d @ rest) s = (Some (sent_header z p d, d), rest, t)"
    using read_wire[OF assms] .
  then show ?thesis using that[of t] read_frame[OF r]
    by (simp add: gateway_exchange_eq[of z w "wire z p d @ rest"] read_packet_def)
qed

lemma client_exchange_step:
  assumes "zstd_lawful z" and "sendable p d"
  obtains t where "client_exchange z ho addr sid w (wire z p d @ rest) s =
      (case server_dispatch z w (sent_header z p d) d t of
         (True, s'') \<Rightarrow> client_exchange z ho addr sid w rest s''
       | (False, s'') \<Rightarrow> cleanup_client ho addr sid s'')"
    and "pr_links t = pr_links s" and "gw_links t = gw_links s"
proof -
  obtain t where r: "read_gw_packet z (wire z p d @ rest) s = (Some (sent_header z p d, d), rest, t)"
    using read_wire[OF assms] .
  have "client_turn z w (wire z p d @ rest) s =
      (case server_dispatch z w (sent_header z p d) d t of (g, s'') \<Rightarrow> (g, rest, s''))"
    by (simp add: client_turn_def read_packet_def r)
  then show ?thesis using that[of t] read_frame[OF r]
    by (cases "server_dispatch z w (sent_header z p d) d t"; cases "fst (server_dispatch z w (sent_header z p d) d t)")
      (simp_all add: client_exchange.simps[of z ho addr sid w "wire z p d @ rest"])
qed

lemma client_dispatch_data:
  "packet_type p = Regular \<Longrightarrow> client_dispatch z w p (Some d) s = (True, forward_to_app (link_id p) d s)"
  by (simp add: client_dispatch_def)

lemma server_dispatch_data:
  "packet_type p = Regular \<Longrightarrow> server_dispatch z w p (Some d) s = (True, forward_to_app (link_id p) d s)"
  by (simp add: server_dispatch_def forward_to_app_def split: option.split)

lemma forward_links:
  "pr_links s = pr_links t \<Longrightarrow> gw_links s = gw_links t \<Longrightarrow>
     pr_links (forward_to_app lid d s) = pr_links (forward_to_app lid d t)"
  by (simp add: forward_to_app_def update_link_def split: option.split)

lemma gateway_exchange_data:
  assumes "zstd_lawful z"
  shows "(\<And>i l d. (i, l, d) \<in> set ps \<Longrightarrow> payload_ok d) \<Longrightarrow>
    \<exists>t. gateway_exchange z w (images (wire z) (data_packets ps) @ rest) s = gateway_exchange z w rest t \<and>
      pr_links t = pr_links (deliver_all (map snd ps) s) \<and> gw_links t = gw_links s"
proof (induction ps arbitrary: s)
  case (Cons x ps)
  obtain i l d where x: "x = (i, l, d)" by (cases x) auto
  let ?p = "PacketGW_new Regular i l (of_nat (length d))"
  let ?more = "images (wire z) (data_packets ps) @ rest"
  have ok: "sendable ?p (Some d)" using Cons.prems[of i l d] x by simp
  obtain t where t: "gateway_exchange z w (wire z ?p (Some d) @ ?more) s = gateway_exchange z w ?more (forward_to_app l d t)"
      "pr_links t = pr_links s" "gw_links t = gw_links s"
    by (rule gateway_exchange_step[OF assms ok, where rest = ?more and s = s and w = w])
      (simp add: client_dispatch_data)
  obtain u where u: "gateway_exchange z w ?more (forward_to_app l d t) = gateway_exchange z w rest u"
      "pr_links u = pr_links (deliver_all (map snd ps) (forward_to_app l d t))"
      "gw_links u = gw_links (forward_to_app l d t)"
    using Cons.IH[of "forward_to_app l d t"] Cons.prems by (meson list.set_intros(2))
  have "pr_links (deliver_all (map snd ps) (forward_to_app l d t)) =
      pr_links (deliver_all (map snd ps) (forward_to_app l d s))"
    by (rule deliver_links_cong) (simp_all add: t forward_links[of t s])
  then show ?case using t u by (intro exI[of _ u]) (simp add: x)
qed auto

lemma client_exchange_data:
  assumes "zstd_lawful z"
  shows "(\<And>i l d. (i, l, d) \<in> set ps \<Longrightarrow> payload_ok d) \<Longrightarrow>
    \<exists>t. client_exchange z ho addr sid w (images (wire z) (data_packets ps) @ rest) s = client_exchange z ho addr sid w rest t \<and>
      pr_links t = pr_links (deliver_all (map snd ps) s) \<and> gw_links t = gw_links s"
proof (induction ps arbitrary: s)
  case (Cons x ps)
  obtain i l d where x: "x = (i, l, d)" by (cases x) auto
  let ?p = "PacketGW_new Regular i l (of_nat (length d))"
  let ?more = "images (wire z) (data_packets ps) @ rest"
  have ok: "sendable ?p (Some d)" using Cons.prems[of i l d] x by simp
  obtain t where t: "client_exchange z ho addr sid w (wire z ?p (Some d) @ ?more) s = client_exchange z ho addr sid w ?more (forward_to_app l d t)"
      "pr_links t = pr_links s" "gw_links t = gw_links s"
    by (rule client_exchange_step[OF assms ok, where rest = ?more and s = s and w = w and ho = ho and addr = addr and sid = sid])
      (simp add: server_dispatch_data)
  obtain u where u: "client_exchange z ho addr sid w ?more (forward_to_app l d t) = client_exchange z ho addr sid w rest u"
      "pr_links u = pr_links (deliver_all (map snd ps) (forward_to_app l d t))"
      "gw_links u = gw_links (forward_to_app l d t)"
    using Cons.IH[of "forward_to_app l d t"] Cons.prems by (meson list.set_intros(2))
  have "pr_links (deliver_all (map snd ps) (forward_to_app l d t)) =
      pr_links (deliver_all (map snd ps) (forward_to_app l d s))"
    by (rule deliver_links_cong) (simp_all add: t forward_links[of t s])
  then show ?case using t u by (intro exI[of _ u]) (simp add: x)
qed auto

section \<open>The end of a connection\<close>

lemma gateway_exchange_end [simp]: "gateway_exchange z w [] s = ([], s)"
  by (simp add: gateway_exchange_eq[of z w "[]"] gw.read_end)

lemma client_exchange_end [simp]:
  "client_exchange z ho addr sid w [] s = cleanup_client ho addr sid s"
  by (simp add: client_exchange.simps[of z ho addr sid w "[]"] client_turn_def gw.read_end)

lemma gateway_exchange_close:
  assumes "zstd_lawful z" and "fmlookup (gw_links s) lid = Some q"
  obtains t where "gateway_exchange z w (wire z (PacketGW_new Close i lid 0) None) s = ([], t)"
    and "pr_links t = (pr_links s)(q := close_connection (pr_links s q))"
    and "gw_links t = fmdrop lid (gw_links s)"
proof (rule gateway_exchange_step[OF assms(1) sendable_control, where rest = "[]" and w = w and s = s])
  fix u
  assume "gateway_exchange z w (wire z (PacketGW_new Close i lid 0) None @ []) s =
      (case client_dispatch z w (sent_header z (PacketGW_new Close i lid 0) None) None u of
         (True, s'') \<Rightarrow> gateway_exchange z w [] s'' | (False, s'') \<Rightarrow> ([], s''))"
    and u: "pr_links u = pr_links s" "gw_links u = gw_links s"
  then show thesis using assms(2)
    by (intro that[of "update_link q close_connection (snd (gw_remove_link lid u))"])
      (simp_all add: client_dispatch_def gw_remove_link_eq)
qed

lemma client_exchange_close:
  assumes "zstd_lawful z" and "fmlookup (gw_links s) lid = Some q"
  obtains t where "client_exchange z ho addr sid w (wire z (PacketGW_new Close i lid 0) None) s =
      cleanup_client ho addr sid t"
    and "pr_links t = (pr_links s)(q := close_connection (pr_links s q))"
    and "gw_links t = fmdrop lid (gw_links s)" 
proof (rule client_exchange_step[OF assms(1) sendable_control, where rest = "[]" and w = w and s = s
      and ho = ho and addr = addr and sid = sid])
  fix u
  assume "client_exchange z ho addr sid w (wire z (PacketGW_new Close i lid 0) None @ []) s =
      (case server_dispatch z w (sent_header z (PacketGW_new Close i lid 0) None) None u of
         (True, s'') \<Rightarrow> client_exchange z ho addr sid w [] s''
       | (False, s'') \<Rightarrow> cleanup_client ho addr sid s'')"
    and u: "pr_links u = pr_links s" "gw_links u = gw_links s"
  then show thesis using assms(2)
    by (intro that[of "remove_link lid u"])
      (simp_all add: server_dispatch_def remove_link_def gw_remove_link_eq Let_def)
qed

section \<open>End to end\<close>

lemma own_link_delivered:
  assumes "links_unshared s" and "fmlookup (gw_links s) lid = Some q"
    and "link_state (pr_links s q) = Connected" and "length (concat ds) \<le> w_room (link_writer (pr_links s q))"
  shows "w_out (link_writer (pr_links (deliver_all (map (Pair lid) ds) s) q)) =
    w_out (link_writer (pr_links s q)) @ concat ds"
  using deliver_all_out(1)[of s lid q "map (Pair lid) ds"] assms by simp

lemma app_stream_received_by_client:
  assumes "zstd_lawful z" and "\<And>d. d \<in> set ds \<Longrightarrow> payload_ok d"
    and "links_unshared s" and "fmlookup (gw_links s) lid = Some q"
    and "link_state (pr_links s q) = Connected" and "length (concat ds) \<le> w_room (link_writer (pr_links s q))"
    and "gateway_exchange z w (images (wire z) (app_stream lid c ds)) s = (rs, s')"
  shows "w_out (link_writer (pr_links s' q)) = w_out (link_writer (pr_links s q)) @ concat ds"
    and "link_state (pr_links s' q) = Disconnected" and "fmlookup (gw_links s') lid = None"
    and "rs = []"
proof -
  obtain ps i where ps: "app_stream lid c ds = data_packets ps @ [(PacketGW_new Close i lid 0, None)]"
      "map snd ps = map (Pair lid) ds" using app_stream_data by blast
  have ok: "payload_ok d" if "(j, l, d) \<in> set ps" for j l d
  proof -
    have "(l, d) \<in> set (map snd ps)" using that by force
    then show ?thesis using ps(2) assms(2) by auto
  qed
  obtain t where t: "gateway_exchange z w (images (wire z) (app_stream lid c ds)) s =
        gateway_exchange z w (wire z (PacketGW_new Close i lid 0) None) t"
      "pr_links t = pr_links (deliver_all (map (Pair lid) ds) s)" "gw_links t = gw_links s"
    using gateway_exchange_data[OF assms(1), of ps w "wire z (PacketGW_new Close i lid 0) None" s] ok ps
    by auto
  obtain u where "gateway_exchange z w (wire z (PacketGW_new Close i lid 0) None) t = ([], u)"
      "pr_links u = (pr_links t)(q := close_connection (pr_links t q))"
      "gw_links u = fmdrop lid (gw_links t)"
    using gateway_exchange_close[OF assms(1), of t lid q] assms(4) t(3) by metis
  then show "w_out (link_writer (pr_links s' q)) = w_out (link_writer (pr_links s q)) @ concat ds"
    "link_state (pr_links s' q) = Disconnected" "fmlookup (gw_links s') lid = None" "rs = []"
    using assms(7) t own_link_delivered[OF assms(3-6)] by auto
qed

lemma app_stream_received_by_server:
  assumes "zstd_lawful z" and "\<And>d. d \<in> set ds \<Longrightarrow> payload_ok d"
    and "links_unshared s" and "fmlookup (gw_links s) lid = Some q"
    and "link_state (pr_links s q) = Connected" and "length (concat ds) \<le> w_room (link_writer (pr_links s q))"
    and "client_exchange z ho addr sid w (images (wire z) (app_stream lid c ds)) s = s'"
  shows "w_out (link_writer (pr_links s' q)) = w_out (link_writer (pr_links s q)) @ concat ds"
    and "link_state (pr_links s' q) = Disconnected" and "fmlookup (gw_links s') lid = None"
proof -
  obtain ps i where ps: "app_stream lid c ds = data_packets ps @ [(PacketGW_new Close i lid 0, None)]"
      "map snd ps = map (Pair lid) ds" using app_stream_data by blast
  have ok: "payload_ok d" if "(j, l, d) \<in> set ps" for j l d
  proof -
    have "(l, d) \<in> set (map snd ps)" using that by force
    then show ?thesis using ps(2) assms(2) by auto
  qed
  obtain t where t: "client_exchange z ho addr sid w (images (wire z) (app_stream lid c ds)) s =
        client_exchange z ho addr sid w (wire z (PacketGW_new Close i lid 0) None) t"
      "pr_links t = pr_links (deliver_all (map (Pair lid) ds) s)" "gw_links t = gw_links s"
    using client_exchange_data[OF assms(1), of ps ho addr sid w "wire z (PacketGW_new Close i lid 0) None" s] ok ps
    by auto
  obtain u where u: "client_exchange z ho addr sid w (wire z (PacketGW_new Close i lid 0) None) t =
        cleanup_client ho addr sid u"
      "pr_links u = (pr_links t)(q := close_connection (pr_links t q))"
      "gw_links u = fmdrop lid (gw_links t)"
    using client_exchange_close[OF assms(1), of t lid q] assms(4) t(3) by metis
  have s': "s' = cleanup_client ho addr sid u" using assms(7) t(1) u(1) by simp
  show "w_out (link_writer (pr_links s' q)) = w_out (link_writer (pr_links s q)) @ concat ds"
    "link_state (pr_links s' q) = Disconnected" "fmlookup (gw_links s') lid = None"
    using t u(2,3) own_link_delivered[OF assms(3-6)]
    by (simp_all add: s' cleanup_registry cleanup_keeps_closed)
qed

lemma chunk_payload_ok: "d \<in> set (chunks 16384 r) \<Longrightarrow> payload_ok d"
  using chunks_small[of d 16384 r] by (simp add: payload_ok_def)

text \<open>
  The tunnel from a user of the server to the application of the client is transparent.
  The user's connection \<open>r\<close> is number \<open>lid\<close> on the server; the client's link \<open>q\<close> of that number is
  connected. If no connection breaks, then after \<open>app_exchange\<close> has run on the server and
  \<open>gateway_exchange\<close> on the client over what it wrote, the application has received exactly the
  bytes the user sent, and its connection is closed and no longer registered on the client.
\<close>

theorem tunnel_server_to_client:
  assumes "zstd_lawful z"
    and "w_out (pr_writers sv w) = []"
    and "length (images (wire z) (app_stream lid (gw_packet_id_counter sv)
           (chunks 16384 (link_reader (pr_links sv r))))) \<le> w_room (pr_writers sv w)"
    and "links_unshared cl" and "fmlookup (gw_links cl) lid = Some q"
    and "link_state (pr_links cl q) = Connected"
    and "length (app_bytes (link_reader (pr_links sv r))) \<le> w_room (link_writer (pr_links cl q))"
    and "gateway_exchange z v (w_out (pr_writers (app_exchange z r w lid sv) w)) cl = (rs, cl')"
  shows "w_out (link_writer (pr_links cl' q)) =
      w_out (link_writer (pr_links cl q)) @ app_bytes (link_reader (pr_links sv r)) \<and>
    link_state (pr_links cl' q) = Disconnected \<and> fmlookup (gw_links cl') lid = None \<and> rs = []"
proof -
  let ?ds = "chunks 16384 (link_reader (pr_links sv r))"
  have "gateway_exchange z v (images (wire z) (app_stream lid (gw_packet_id_counter sv) ?ds)) cl = (rs, cl')"
    using assms(8) server_app_stream[of z r w lid sv] assms(2,3) by simp
  then show ?thesis
    using app_stream_received_by_client[OF assms(1) chunk_payload_ok assms(4-6), where ds = ?ds] assms(7)
    by (simp add: concat_chunks)
qed

lemma tunnel_unshared [simp]: "links_unshared tunnel_client" "links_unshared tunnel_server"
  by (simp_all add: tunnel_defs links_unshared_def)

theorem tunnel_server_to_client_witness:
  "w_out (link_writer (pr_links (snd (gateway_exchange zeros_zstd 0 (w_out (pr_writers
     (app_exchange zeros_zstd 0 0 1 tunnel_server) 0)) tunnel_client)) 0)) = [1, 2, 3, 4]"
  using tunnel_server_to_client[OF zeros_zstd_lawful, of tunnel_server 0 1 0 tunnel_client 0 0]
  by (cases "gateway_exchange zeros_zstd 0 (w_out (pr_writers (app_exchange zeros_zstd 0 0 1 tunnel_server) 0)) tunnel_client")
    (simp add: wire_def prepare_packet_def)

text \<open>
  C3: and so is the tunnel back, from the application of the client to the user of the server,
  whose link \<open>q\<close> on the server has the number of the client's link \<open>r\<close>.
\<close>

theorem tunnel_client_to_server:
  assumes "zstd_lawful z"
    and "w_out (pr_writers cl w) = []"
    and "length (images (wire z) (app_stream (connection_id (pr_links cl r)) (gw_packet_id_counter cl)
           (chunks 16384 (link_reader (pr_links cl r))))) \<le> w_room (pr_writers cl w)"
    and "links_unshared sv" and "fmlookup (gw_links sv) (connection_id (pr_links cl r)) = Some q"
    and "link_state (pr_links sv q) = Connected"
    and "length (app_bytes (link_reader (pr_links cl r))) \<le> w_room (link_writer (pr_links sv q))"
    and "client_exchange z ho addr sid v (w_out (pr_writers (client_app_exchange z r w cl) w)) sv = sv'"
  shows "w_out (link_writer (pr_links sv' q)) =
      w_out (link_writer (pr_links sv q)) @ app_bytes (link_reader (pr_links cl r)) \<and>
    link_state (pr_links sv' q) = Disconnected \<and> fmlookup (gw_links sv') (connection_id (pr_links cl r)) = None"
proof -
  let ?ds = "chunks 16384 (link_reader (pr_links cl r))"
  have "client_exchange z ho addr sid v (images (wire z)
      (app_stream (connection_id (pr_links cl r)) (gw_packet_id_counter cl) ?ds)) sv = sv'"
    using assms(8) client_app_stream[of z r w cl] assms(2,3) by simp
  then show ?thesis
    using app_stream_received_by_server[OF assms(1) chunk_payload_ok assms(4-6), where ds = ?ds] assms(7)
    by (simp add: concat_chunks)
qed

theorem tunnel_client_to_server_witness:
  "w_out (link_writer (pr_links (client_exchange zeros_zstd sample_order unspecified_addr 0 0
     (w_out (pr_writers (client_app_exchange zeros_zstd 0 0 tunnel_client) 0)) tunnel_server) 0)) = [5, 6]"
  using tunnel_client_to_server[OF zeros_zstd_lawful, of tunnel_client 0 0 tunnel_server 0] 
  by (simp add: wire_def prepare_packet_def)

section \<open>Many connections at once\<close>

text \<open>
  C17: the client keeps the connections it multiplexes apart. Of any interleaving of data packets
  for any links, each connected application gets the payloads addressed to its own link, all of
  them and in order, as far as it accepts data; payloads for other links never reach it.
\<close>

theorem client_demultiplexes:
  assumes "zstd_lawful z" and "\<forall>(i, l, d) \<in> set ps. payload_ok d"
    and "links_unshared s" and "fmlookup (gw_links s) lid = Some q"
    and "link_state (pr_links s q) = Connected"
  shows "w_out (link_writer (pr_links (snd (gateway_exchange z w (images (wire z) (data_packets ps)) s)) q)) =
    w_out (link_writer (pr_links s q)) @
      take (w_room (link_writer (pr_links s q))) (addressed_to lid (map snd ps))"
proof -
  obtain t where "gateway_exchange z w (images (wire z) (data_packets ps) @ []) s = gateway_exchange z w [] t"
      "pr_links t = pr_links (deliver_all (map snd ps) s)"
    using gateway_exchange_data[OF assms(1), of ps w "[]" s] assms(2) by fastforce
  then show ?thesis using deliver_all_out(1)[of s lid q "map snd ps"] assms(3-5) by simp
qed

theorem client_demultiplexes_witness:
  "w_out (link_writer (pr_links (snd (gateway_exchange zeros_zstd 0
     (images (wire zeros_zstd) (data_packets [(1, 1, [7]), (2, 9, [8]), (3, 1, [9])])) tunnel_client)) 0)) = [7, 9]"
  using client_demultiplexes[OF zeros_zstd_lawful, of "[(1, 1, [7]), (2, 9, [8]), (3, 1, [9])]" tunnel_client 1 0 0]
  by (simp add: payload_ok_def)

text \<open>
  C18: and so does the server, for the packets of one gateway client; the clean-up at the end of
  that client's stream takes nothing back.
\<close>

theorem server_demultiplexes:
  assumes "zstd_lawful z" and "\<forall>(i, l, d) \<in> set ps. payload_ok d"
    and "links_unshared s" and "fmlookup (gw_links s) lid = Some q"
    and "link_state (pr_links s q) = Connected"
  shows "w_out (link_writer (pr_links
      (client_exchange z ho addr sid w (images (wire z) (data_packets ps)) s) q)) =
    w_out (link_writer (pr_links s q)) @
      take (w_room (link_writer (pr_links s q))) (addressed_to lid (map snd ps))"
proof -
  obtain t where "client_exchange z ho addr sid w (images (wire z) (data_packets ps) @ []) s =
        client_exchange z ho addr sid w [] t"
      "pr_links t = pr_links (deliver_all (map snd ps) s)"
    using client_exchange_data[OF assms(1), of ps ho addr sid w "[]" s] assms(2) by fastforce
  then show ?thesis using deliver_all_out(1)[of s lid q "map snd ps"] assms(3-5) by simp
qed

theorem server_demultiplexes_witness:
  "w_out (link_writer (pr_links (client_exchange zeros_zstd sample_order unspecified_addr 0 0
     (images (wire zeros_zstd) (data_packets [(1, 2, [7]), (2, 1, [8])])) tunnel_server) 0)) = [8]"
  using server_demultiplexes[OF zeros_zstd_lawful, of "[(1, 2, [7]), (2, 1, [8])]" tunnel_server 1 0]
  by (simp add: payload_ok_def)

section \<open>A connection that breaks\<close>

lemma read_wire_truncated:
  assumes "zstd_lawful z" and "sendable p d" and "n < length (wire z p d)"
  shows "fst (read_gw_packet z (take n (wire z p d)) s) = None"
proof (cases "n < 16")
  case True
  then show ?thesis using gw.read_end[of "take n (wire z p d)" z s] by (simp add: read_packet_def)
next
  case False
  show ?thesis
  proof (cases d)
    case None
    then show ?thesis using False assms(3) by (simp add: wire_def prepare_packet_def)
  next
    case (Some b)
    let ?h = "sent_header z p d"
    obtain pl where pl: "wire z p d = to_bytes ?h @ pl" "data_size ?h \<noteq> 0"
        "length pl = unat (data_size ?h)"
      using sent_header_data[OF assms(1)] assms(2) Some by blast
    have "n - 16 < unat (data_size ?h)" using False assms(3) pl by simp
    then show ?thesis using False pl from_bytes_to_bytes_append[of ?h "[]"]
      by (simp add: read_gw_packet_eq read_payload_eq Let_def)
  qed
qed

text \<open>What arrives of a sequence of packets: some of them whole, then at most a part of the next.\<close>

lemma take_images:
  "\<exists>k m. take n (images (wire z) ps) = images (wire z) (take k ps) @
     (if k < length ps then take m (case ps ! k of (p, d) \<Rightarrow> wire z p d) else []) \<and>
     (k < length ps \<longrightarrow> m < length (case ps ! k of (p, d) \<Rightarrow> wire z p d)) \<and> k \<le> length ps"
proof (induction ps arbitrary: n)
  case (Cons x ps)
  obtain p d where x: "x = (p, d)" by fastforce
  show ?case
  proof (cases "n < length (wire z p d)")
    case True
    then show ?thesis by (intro exI[of _ 0] exI[of _ n]) (simp add: x)
  next
    case False
    obtain k m where "take (n - length (wire z p d)) (images (wire z) ps) = images (wire z) (take k ps) @
        (if k < length ps then take m (case ps ! k of (p, d) \<Rightarrow> wire z p d) else [])"
      "k < length ps \<longrightarrow> m < length (case ps ! k of (p, d) \<Rightarrow> wire z p d)" "k \<le> length ps"
      using Cons by blast
    then show ?thesis using False by (intro exI[of _ "Suc k"] exI[of _ m]) (simp add: x)
  qed
qed simp

lemma gateway_exchange_truncated:
  assumes "zstd_lawful z" and "sendable p d" and "n < length (wire z p d)"
    and "gateway_exchange z w (take n (wire z p d)) s = (rs, s')"
  shows "pr_links s' = pr_links s" and "gw_links s' = gw_links s"
proof -
  obtain rs' t where r: "read_gw_packet z (take n (wire z p d)) s = (None, rs', t)"
    using read_wire_truncated[OF assms(1-3), of s] by (cases "read_gw_packet z (take n (wire z p d)) s") auto
  then show "pr_links s' = pr_links s" "gw_links s' = gw_links s" using assms(4) read_frame[OF r]
    by (auto simp: gateway_exchange_eq[of z w "take _ _"] read_packet_def)
qed

text \<open>Cut off anywhere, the stream of one application is data packets, then \<open>Close\<close> or a cut packet.\<close>

definition cut_off :: "zstd \<Rightarrow> bytes \<Rightarrow> bool" where
  "cut_off z rest \<longleftrightarrow> (\<exists>p d m. sendable p d \<and> m < length (wire z p d) \<and> rest = take m (wire z p d))"

lemma sendable_stream:
  assumes "\<And>i l d. (i, l, d) \<in> set ps \<Longrightarrow> payload_ok d" and "(p, d) \<in> set (data_packets ps @ [(PacketGW_new Close i lid 0, None)])"
  shows "sendable p d"
  using assms by (auto simp: data_packets_def)

lemma app_stream_cut:
  assumes "\<And>d. d \<in> set ds \<Longrightarrow> payload_ok d"
  obtains ps rest k i where "take n (images (wire z) (app_stream lid c ds)) = images (wire z) (data_packets ps) @ rest"
    and "map snd ps = map (Pair lid) (take k ds)" and "\<And>i l d. (i, l, d) \<in> set ps \<Longrightarrow> payload_ok d"
    and "rest = wire z (PacketGW_new Close i lid 0) None \<or> cut_off z rest"
proof -
  obtain ps i where ps: "app_stream lid c ds = data_packets ps @ [(PacketGW_new Close i lid 0, None)]" (is "_ = ?all")
      "map snd ps = map (Pair lid) ds" using app_stream_data by blast
  have ok: "payload_ok d" if "(j, l, d) \<in> set ps" for j l d
  proof -
    have "(l, d) \<in> set (map snd ps)" using that by force
    then show ?thesis using ps(2) assms by auto
  qed
  obtain k m where km: "take n (images (wire z) ?all) = images (wire z) (take k ?all) @
        (if k < length ?all then take m (case ?all ! k of (p, d) \<Rightarrow> wire z p d) else [])"
      "k < length ?all \<Longrightarrow> m < length (case ?all ! k of (p, d) \<Rightarrow> wire z p d)" "k \<le> length ?all"
    using take_images by blast
  have heads: "map snd (take k ps) = map (Pair lid) (take k ds)" using ps(2) by (metis take_map)
  have data: "take k (data_packets ps) = data_packets (take k ps)" by (simp add: data_packets_def take_map)
  have ok': "payload_ok d" if "(j, l, d) \<in> set (take k ps)" for j l d using ok that by (meson in_set_takeD)
  show thesis
  proof (cases "k < length ?all")
    case True
    obtain p d where pd: "?all ! k = (p, d)" by fastforce
    have "(p, d) \<in> set ?all" using nth_mem[OF True] pd by simp
    then have "sendable p d" using sendable_stream[of ps p d i lid] ok by blast
    then have "cut_off z (take m (wire z p d))" using km(2)[OF True] pd by (auto simp: cut_off_def)
    moreover have "take k ?all = data_packets (take k ps)" using True data by (simp add: data_packets_def)
    ultimately show ?thesis using that[of "take k ps" _ k i] km(1) True pd ps(1) heads ok' by simp
  next
    case False
    then show ?thesis using that[of ps "wire z (PacketGW_new Close i lid 0) None" "length ds" i] km(1,3) ps ok by simp
  qed
qed

text \<open>So it still delivers a prefix of its data.\<close>

lemma cut_stream_received_by_client:
  assumes "zstd_lawful z" and "\<And>d. d \<in> set ds \<Longrightarrow> payload_ok d"
    and "links_unshared s" and "fmlookup (gw_links s) lid = Some q"
    and "link_state (pr_links s q) = Connected"
    and "gateway_exchange z w (take n (images (wire z) (app_stream lid c ds))) s = (rs, s')"
  shows "\<exists>k. w_out (link_writer (pr_links s' q)) = w_out (link_writer (pr_links s q)) @
    take (w_room (link_writer (pr_links s q))) (concat (take k ds))"
proof (rule app_stream_cut[OF assms(2), where n = n and z = z and lid = lid and c = c and ds = ds])
  fix ps rest k i
  assume cut: "take n (images (wire z) (app_stream lid c ds)) = images (wire z) (data_packets ps) @ rest"
    and heads: "map snd ps = map (Pair lid) (take k ds)"
    and ok: "\<And>i l d. (i, l, d) \<in> set ps \<Longrightarrow> payload_ok d"
    and rest: "rest = wire z (PacketGW_new Close i lid 0) None \<or> cut_off z rest"
  obtain t where t: "gateway_exchange z w (images (wire z) (data_packets ps) @ rest) s = gateway_exchange z w rest t"
      "pr_links t = pr_links (deliver_all (map (Pair lid) (take k ds)) s)" "gw_links t = gw_links s"
    using gateway_exchange_data[OF assms(1), where ps = ps and w = w and rest = rest and s = s] ok heads by metis
  have out: "w_out (link_writer (pr_links t q)) = w_out (link_writer (pr_links s q)) @
      take (w_room (link_writer (pr_links s q))) (concat (take k ds))"
    using deliver_all_out(1)[of s lid q "map (Pair lid) (take k ds)"] assms(3-5) t(2) by simp
  have s': "gateway_exchange z w rest t = (rs, s')" using assms(6) cut t(1) by simp
  have "w_out (link_writer (pr_links s' q)) = w_out (link_writer (pr_links t q))"
    using rest
  proof
    assume "rest = wire z (PacketGW_new Close i lid 0) None"
    then show ?thesis using gateway_exchange_close[OF assms(1), of t lid q w i] assms(4) t(3) s'
      by (metis fun_upd_same close_connection_simps(2) snd_conv w_out_shutdown)
  next
    assume "cut_off z rest"
    then show ?thesis using gateway_exchange_truncated[OF assms(1), of _ _ _ w t rs s'] s'
      unfolding cut_off_def by metis
  qed
  then show ?thesis using out by metis
qed

text \<open>
  Whatever breaks, the tunnel never delivers anything but a prefix of what was sent. The
  connection between the gateways may break at any byte (\<open>w_room\<close> of the server's write half)
  and the application may stop accepting at any byte: what it has received then is some first part
  of the bytes the user wrote, in order, without gaps, duplicates or foreign data.
\<close>

theorem tunnel_delivers_prefix:
  assumes "zstd_lawful z"
    and "w_out (pr_writers sv w) = []"
    and "links_unshared cl" and "fmlookup (gw_links cl) lid = Some q"
    and "link_state (pr_links cl q) = Connected"
    and "gateway_exchange z v (w_out (pr_writers (app_exchange z r w lid sv) w)) cl = (rs, cl')"
  shows "\<exists>got. w_out (link_writer (pr_links cl' q)) = w_out (link_writer (pr_links cl q)) @ got \<and>
    prefix got (app_bytes (link_reader (pr_links sv r)))"
proof -
  let ?ds = "chunks 16384 (link_reader (pr_links sv r))"
  have "gateway_exchange z v (take (w_room (pr_writers sv w)) (images (wire z)
      (app_stream lid (gw_packet_id_counter sv) ?ds))) cl = (rs, cl')"
    using assms(6) server_app_stream[of z r w lid sv] assms(2) by simp
  from cut_stream_received_by_client[OF assms(1) _ assms(3-5) this]
  obtain k where "w_out (link_writer (pr_links cl' q)) = w_out (link_writer (pr_links cl q)) @
      take (w_room (link_writer (pr_links cl q))) (concat (take k ?ds))" using chunk_payload_ok by blast
  moreover have "prefix (concat (take k ?ds)) (app_bytes (link_reader (pr_links sv r)))"
    using concat_chunks[of 16384 "link_reader (pr_links sv r)"]
    by (metis append_take_drop_id concat_append prefixI zero_less_numeral)
  ultimately show ?thesis using take_is_prefix prefix_order.trans by blast
qed

theorem tunnel_delivers_prefix_witness:
  "\<exists>got. w_out (link_writer (pr_links (snd (gateway_exchange zeros_zstd 0 (w_out (pr_writers
     (app_exchange zeros_zstd 0 0 1 tunnel_server) 0)) tunnel_client)) 0)) = got \<and> prefix got [1, 2, 3, 4]"
  using tunnel_delivers_prefix[OF zeros_zstd_lawful, of tunnel_server 0 tunnel_client 1 0 0 0]
  by (cases "gateway_exchange zeros_zstd 0 (w_out (pr_writers (app_exchange zeros_zstd 0 0 1 tunnel_server) 0)) tunnel_client")
    simp

end
