(* ===== verification/Emission.thy ===== *)
theory Emission
  imports Tunnel
begin

text \<open>
  What a step of a task puts on a connection between the gateways. Every operation that writes to
  it writes whole packets, one after the other, unless the connection breaks: then a part of a
  packet may have gone out, and nothing follows. From there the conversation of one link is
  followed through any interleaving of tasks.
\<close>

section \<open>Bytes and packets that went out\<close>

text \<open>\<open>b\<close> went out, or a part of it and the connection is broken; a broken one takes no more.\<close>

definition puts :: "wsock \<Rightarrow> bytes \<Rightarrow> wsock \<Rightarrow> bool" where
  "puts k b k' \<longleftrightarrow> (w_out k' = w_out k @ b \<or> w_room k' = 0 \<and> (\<exists>n. w_out k' = w_out k @ take n b)) \<and>
     (w_room k = 0 \<longrightarrow> w_room k' = 0 \<and> w_out k' = w_out k)"

lemma puts_refl [simp]: "puts k [] k"
  by (simp add: puts_def)

lemma puts_shutdown [simp]: "puts k [] (shutdown k)"
  by (simp add: puts_def)

lemma puts_write: "puts k b (snd (write_all b k))"
  by (cases "length b \<le> w_room k") (auto simp: puts_def write_all_prefix write_all_fail w_room_def)

lemma puts_trans:
  assumes "puts k a k'" and "puts k' b k''"
  shows "puts k (a @ b) k''"
proof (cases "w_room k' = 0")
  case True
  then have stop: "w_room k'' = 0" "w_out k'' = w_out k'" using assms(2) by (simp_all add: puts_def)
  have "\<exists>n. w_out k' = w_out k @ take n (a @ b)"
  proof (cases "w_out k' = w_out k @ a")
    case True
    then show ?thesis by (intro exI[of _ "length a"]) simp
  next
    case False
    then obtain n where "w_out k' = w_out k @ take n a" using assms(1) by (auto simp: puts_def)
    then show ?thesis by (intro exI[of _ "min n (length a)"]) (simp add: min_def)
  qed
  then show ?thesis using stop assms(1) by (auto simp: puts_def)
next
  case False
  then have all: "w_out k' = w_out k @ a" "w_room k \<noteq> 0" using assms(1) by (auto simp: puts_def)
  have "\<exists>m. w_out k'' = w_out k @ take m (a @ b)" if "w_out k'' = w_out k' @ take n b" for n
    using that all(1) by (intro exI[of _ "length a + n"]) simp
  then show ?thesis using assms(2) all by (auto simp: puts_def)
qed

lemma puts_broken: "puts k a k' \<Longrightarrow> w_room k' = 0 \<Longrightarrow> puts k (a @ b) k'"
  using puts_trans[of k a k' b k'] by (auto simp: puts_def intro: exI[of _ 0])

text \<open>What went out and what the connection still takes: a write keeps the sum.\<close>

definition budget :: "wsock \<Rightarrow> nat" where
  "budget k = length (w_out k) + w_room k"

lemma budget_write [simp]: "budget (snd (write_all d k)) = budget k"
  by (cases "length d \<le> w_room k") (auto simp: budget_def write_all_prefix write_all_fail w_room_def)

type_synonym packets = "(PacketGW \<times> bytes option) list"

definition all_sendable :: "packets \<Rightarrow> bool" where
  "all_sendable ps \<longleftrightarrow> list_all (\<lambda>(p, d). sendable p d) ps"

lemma all_sendable_simps [simp]:
  "all_sendable []" "all_sendable ((p, d) # ps) \<longleftrightarrow> sendable p d \<and> all_sendable ps"
  "all_sendable (ps @ qs) \<longleftrightarrow> all_sendable ps \<and> all_sendable qs"
  by (simp_all add: all_sendable_def)

text \<open>A step that puts the packets \<open>ps\<close> on the connection \<open>w\<close>, and opens no new connection.\<close>

definition sends :: "zstd \<Rightarrow> wref \<Rightarrow> packets \<Rightarrow> 'a process_scheme \<Rightarrow> 'a process_scheme \<Rightarrow> bool" where
  "sends z w ps s s' \<longleftrightarrow> all_sendable ps \<and> pr_next_writer s' = pr_next_writer s \<and>
     puts (pr_writers s w) (images (wire z) ps) (pr_writers s' w)"

lemma sends_trans: "sends z w ps s t \<Longrightarrow> sends z w qs t u \<Longrightarrow> sends z w (ps @ qs) s u"
  unfolding sends_def using puts_trans by fastforce

lemma sends_nothing: "pr_writers s' w = pr_writers s w \<Longrightarrow> pr_next_writer s' = pr_next_writer s \<Longrightarrow> sends z w [] s s'"
  by (simp add: sends_def)

lemma sends_after: "sends z w ps t u \<Longrightarrow> pr_writers t w = pr_writers s w \<Longrightarrow>
    pr_next_writer t = pr_next_writer s \<Longrightarrow> sends z w ps s u"
  by (simp add: sends_def)

lemma sends_before: "sends z w ps s t \<Longrightarrow> pr_writers u w = pr_writers t w \<Longrightarrow>
    pr_next_writer u = pr_next_writer t \<Longrightarrow> sends z w ps s u"
  by (simp add: sends_def)

text \<open>What went out on \<open>w\<close> of what was sent on \<open>w'\<close>.\<close>

definition on_writer :: "wref \<Rightarrow> wref \<Rightarrow> packets \<Rightarrow> packets" where
  "on_writer w w' ps = (if w = w' then ps else [])"

lemma on_writer_simps [simp]: "on_writer w w ps = ps" "w \<noteq> w' \<Longrightarrow> on_writer w w' ps = []"
  by (simp_all add: on_writer_def)

lemma sends_packet:
  "sendable p d \<Longrightarrow> sends z w (on_writer w w' [(p, d)]) s (snd (send_gw_packet z w' p d s))"
  by (cases "w = w'") (simp_all add: sends_def send_writer puts_write)

lemma sends_raw:
  assumes "sendable p (Some b)" and "length b < 1024"
    and "pr_next_writer s' = pr_next_writer s"
    and "puts (pr_writers s w) (to_bytes p @ b) (pr_writers s' w)"
  shows "sends z w [(p, Some b)] s s'"
  using assms by (simp add: sends_def wire_def prepare_packet_def)

section \<open>The conversation of one link\<close>

text \<open>What concerns a link: its own packets, and \<open>GwDeny\<close>, which ends the whole connection.\<close>

definition concerns :: "u16 \<Rightarrow> PacketGW \<Rightarrow> bool" where
  "concerns lid p \<longleftrightarrow> packet_type p = GwDeny \<or>
     link_id p = lid \<and> packet_type p \<in> {Open, Opened, OpenFail, Regular, Close}"

definition link_events :: "u16 \<Rightarrow> packets \<Rightarrow> (PacketType \<times> bytes option) list" where
  "link_events lid ps = map (\<lambda>(p, d). (packet_type p, d)) (filter (\<lambda>(p, d). concerns lid p) ps)"

lemma link_events_simps [simp]:
  "link_events lid [] = []"
  "link_events lid ((p, d) # ps) = (if concerns lid p then (packet_type p, d) # link_events lid ps else link_events lid ps)"
  "link_events lid (ps @ qs) = link_events lid ps @ link_events lid qs"
  by (simp_all add: link_events_def)

lemma link_events_on_writer [simp]:
  "link_events lid (on_writer w w' ps) = (if w = w' then link_events lid ps else [])"
  by (simp add: on_writer_def)

text \<open>A step that says nothing about the link.\<close>

definition silent :: "zstd \<Rightarrow> u16 \<Rightarrow> wref \<Rightarrow> 'a process_scheme \<Rightarrow> 'a process_scheme \<Rightarrow> bool" where
  "silent z lid w s s' \<longleftrightarrow> (\<exists>ps. sends z w ps s s' \<and> link_events lid ps = [])"

lemma silent_trans: "silent z lid w s t \<Longrightarrow> silent z lid w t u \<Longrightarrow> silent z lid w s u"
  unfolding silent_def using sends_trans by fastforce

lemma silent_nothing: "pr_writers s' w = pr_writers s w \<Longrightarrow> pr_next_writer s' = pr_next_writer s \<Longrightarrow> silent z lid w s s'"
  unfolding silent_def using sends_nothing by fastforce

lemma silent_refl [simp]: "silent z lid w s s"
  by (simp add: silent_nothing)

lemma silent_packet:
  "sendable p d \<Longrightarrow> w = w' \<Longrightarrow> \<not> concerns lid p \<Longrightarrow> silent z lid w s (snd (send_gw_packet z w' p d s))"
  unfolding silent_def using sends_packet[of p d z w w' s] by fastforce

lemma silent_elsewhere: "w \<noteq> w' \<Longrightarrow> silent z lid w s (snd (send_gw_packet z w' p d s))"
  by (rule silent_nothing) (simp_all add: send_writer)

text \<open>
  What is still to be said, before and after packets went out: either the packets were the next of
  it, or the connection is broken and they were a first part of it.
\<close>

definition said :: "u16 \<Rightarrow> packets \<Rightarrow> (PacketType \<times> bytes option) list \<Rightarrow>
    (PacketType \<times> bytes option) list \<Rightarrow> wsock \<Rightarrow> bool" where
  "said lid ps before after k \<longleftrightarrow> before = link_events lid ps @ after \<or>
     w_room k = 0 \<and> prefix (link_events lid ps) before"

text \<open>
  The interface of a system of tasks: a step relation, an invariant, the connection, and what the
  tasks of the link still have to say.
\<close>

locale conversation =
  fixes step :: "'st \<Rightarrow> 'st \<Rightarrow> bool"
    and good :: "'st \<Rightarrow> bool"
    and writer :: "'st \<Rightarrow> wsock"
    and to_say :: "'st \<Rightarrow> (PacketType \<times> bytes option) list"
    and z :: zstd
    and lid :: u16
  assumes good_step: "good x \<Longrightarrow> step x y \<Longrightarrow> good y"
    and step_says: "good x \<Longrightarrow> step x y \<Longrightarrow> \<exists>ps. all_sendable ps \<and>
      puts (writer x) (images (wire z) ps) (writer y) \<and> said lid ps (to_say x) (to_say y) (writer y)"
begin

lemma run_says:
  assumes "step\<^sup>*\<^sup>* x y" and "good x"
  shows "good y \<and> (\<exists>ps. all_sendable ps \<and> puts (writer x) (images (wire z) ps) (writer y) \<and>
    said lid ps (to_say x) (to_say y) (writer y))"
  using assms(1)
proof induction
  case base
  show ?case using assms(2) by (auto simp: said_def intro!: exI[of _ "[]"])
next
  case (step y y')
  then obtain ps qs where ps: "all_sendable ps" "puts (writer x) (images (wire z) ps) (writer y)"
      "said lid ps (to_say x) (to_say y) (writer y)"
    and qs: "all_sendable qs" "puts (writer y) (images (wire z) qs) (writer y')"
      "said lid qs (to_say y) (to_say y') (writer y')"
    using step_says by blast
  have good: "good y'" using step good_step by blast
  show ?case
  proof (cases "to_say x = link_events lid ps @ to_say y")
    case True
    then have "said lid (ps @ qs) (to_say x) (to_say y') (writer y')"
      using qs(3) by (auto simp: said_def)
    moreover have "puts (writer x) (images (wire z) (ps @ qs)) (writer y')"
      using puts_trans[OF ps(2) qs(2)] by simp
    ultimately show ?thesis using good ps(1) qs(1) by (intro conjI exI[of _ "ps @ qs"]) auto
  next
    case False
    then have broken: "w_room (writer y) = 0" "prefix (link_events lid ps) (to_say x)"
      using ps(3) by (auto simp: said_def)
    then have same: "w_room (writer y') = 0" "w_out (writer y') = w_out (writer y)"
      using qs(2) by (simp_all add: puts_def)
    then have "puts (writer x) (images (wire z) ps) (writer y')" using ps(2) unfolding puts_def by metis
    then show ?thesis using good ps(1) same(1) broken(2)
      by (intro conjI exI[of _ ps]) (auto simp: said_def)
  qed
qed

end

end
