(* ===== verification/Client_System.thy ===== *)
theory Client_System
  imports Emission
begin

text \<open>
  The client as a system of concurrent tasks, like the server in \<open>Server_System\<close>: the main task of
  \<open>run\<close> with the point it has reached, the ping loops, and one task per application connection. A
  task of an earlier connection to the server may still run when the next one is there. The
  answers to connection attempts and the commands of standard input are steps of the environment.
\<close>

datatype client_thread =
    Dialling
  | ProvingKey wref rsock
  | Exchanging wref rsock
  | LostServer
  | Pinging wref
  | Reading lref wref
  | Finishing lref wref

fun started :: "client_task \<Rightarrow> client_thread" where
  "started (PingLoop w) = Pinging w"
| "started (ClientAppExchange r w) = Reading r w"

text \<open>The tasks that were spawned from one state to the next.\<close>

definition new_tasks :: "client \<Rightarrow> client \<Rightarrow> client_thread list" where
  "new_tasks s s' = map started (drop (length (cl_tasks s)) (cl_tasks s'))"

inductive client_thread_step ::
  "zstd \<Rightarrow> (u16 fset \<Rightarrow> u16 list) \<Rightarrow> hmac \<Rightarrow> client_thread \<Rightarrow> client \<Rightarrow> client_thread list \<Rightarrow> client \<Rightarrow> bool"
  for z order h where
  dialled: "begin_connection k s = (w, s') \<Longrightarrow>
    client_thread_step z order h Dialling s [ProvingKey w (gs_reader k)] s'"
| dial_failed: "client_thread_step z order h Dialling s [Dialling] s"
| proved: "gw_authenticate h w rs s = (True, rs', s') \<Longrightarrow>
    client_thread_step z order h (ProvingKey w rs) s
      (Exchanging w rs' # new_tasks s' (begin_exchange w s')) (begin_exchange w s')"
| refused: "gw_authenticate h w rs s = (False, rs', s') \<Longrightarrow>
    client_thread_step z order h (ProvingKey w rs) s [LostServer] (abandon_connection s')"
| exchanged: "gateway_turn z w rs s = (True, rs', s') \<Longrightarrow>
    client_thread_step z order h (Exchanging w rs) s (Exchanging w rs' # new_tasks s s') s'"
| server_lost: "gateway_turn z w rs s = (False, rs', s') \<Longrightarrow>
    client_thread_step z order h (Exchanging w rs) s (LostServer # new_tasks s s') s'"
| reset: "client_thread_step z order h LostServer s [Dialling]
    (client_on_disconnection (order (fmdom (gw_links s))) s)"
| pinged: "ping_turn z w s = (True, s') \<Longrightarrow> client_thread_step z order h (Pinging w) s [Pinging w] s'"
| ping_failed: "ping_turn z w s = (False, s') \<Longrightarrow> client_thread_step z order h (Pinging w) s [] s'"
| app_forwarded: "client_app_turn z r w s = (True, s') \<Longrightarrow>
    client_thread_step z order h (Reading r w) s [Reading r w] s'"
| app_exhausted: "client_app_turn z r w s = (False, s') \<Longrightarrow>
    client_thread_step z order h (Reading r w) s [Finishing r w] s'"
| app_finished: "client_thread_step z order h (Finishing r w) s [] (client_app_end z r w s)"

type_synonym client_system = "client \<times> client_thread list"

inductive client_step ::
  "zstd \<Rightarrow> (u16 fset \<Rightarrow> u16 list) \<Rightarrow> hmac \<Rightarrow> client_system \<Rightarrow> client_system \<Rightarrow> bool" for z order h where
  ping_command: "client_step z order h (s, ts) (send_ping z s, ts)"
| task_runs: "client_thread_step z order h t s us s' \<Longrightarrow>
    client_step z order h (s, xs @ t # ys) (s', xs @ us @ ys)"

text \<open>\<open>run\<close> has set the state to \<open>WAITING\<close>, as \<open>on_disconnection\<close> does before every further round.\<close>

definition client_start :: "configuration \<Rightarrow> process \<Rightarrow> tcp_stream option list \<Rightarrow> client_system" where
  "client_start config p connects = ((GatewayClient_new config p connects)\<lparr>gw_state := GsWaiting\<rparr>, [Dialling])"

definition client_reachable ::
  "zstd \<Rightarrow> (u16 fset \<Rightarrow> u16 list) \<Rightarrow> hmac \<Rightarrow> configuration \<Rightarrow> process \<Rightarrow> tcp_stream option list \<Rightarrow> client_system \<Rightarrow> bool" where
  "client_reachable z order h config p connects = (client_step z order h)\<^sup>*\<^sup>* (client_start config p connects)"

inductive_cases client_thread_stepE: "client_thread_step z order h t s us s'"
inductive_cases client_stepE: "client_step z order h x y"

definition order_lawful :: "(u16 fset \<Rightarrow> u16 list) \<Rightarrow> bool" where
  "order_lawful order \<longleftrightarrow> (\<forall>S. distinct (order S) \<and> fset_of_list (order S) = S)"

lemma order_drains: "order_lawful order \<Longrightarrow> drains (order (fmdom m)) m"
  unfolding order_lawful_def drains_def by blast

section \<open>What the operations leave alone\<close>

text \<open>Links keep their numbers, the registry only loses entries, no task starts, no phase changes.\<close>

definition client_keeps :: "client \<Rightarrow> client \<Rightarrow> bool" where
  "client_keeps s s' \<longleftrightarrow>
     (\<forall>l r. fmlookup (gw_links s') l = Some r \<longrightarrow> fmlookup (gw_links s) l = Some r) \<and>
     (\<forall>r. connection_id (pr_links s' r) = connection_id (pr_links s r)) \<and>
     pr_next_link s' = pr_next_link s \<and> pr_next_writer s' = pr_next_writer s \<and>
     gw_state s' = gw_state s \<and> cl_gw_writer s' = cl_gw_writer s \<and> cl_tasks s' = cl_tasks s"

lemma client_keeps_refl [simp]: "client_keeps s s"
  by (simp add: client_keeps_def)

lemma client_keeps_trans: "client_keeps s t \<Longrightarrow> client_keeps t u \<Longrightarrow> client_keeps s u"
  unfolding client_keeps_def by simp

lemma client_keeps_new_tasks: "client_keeps s s' \<Longrightarrow> new_tasks s s' = []"
  by (simp add: client_keeps_def new_tasks_def)

lemma client_keeps_process [simp]:
  "client_keeps s (s\<lparr>pr_writers := a, gw_statistics := b, pr_metrics := c\<rparr>)"
  "client_keeps s (s\<lparr>pr_pool := p, gw_statistics := b, pr_metrics := c\<rparr>)"
  "client_keeps s (s\<lparr>pr_writers := a\<rparr>)"
  "client_keeps s (s\<lparr>gw_packet_id_counter := n\<rparr>)"
  "client_keeps s (s\<lparr>gw_keep_alive_stamp := i\<rparr>)"
  "client_keeps s (s\<lparr>cl_last_activity := i\<rparr>)"
  by (simp_all add: client_keeps_def)

lemma client_keeps_send: "client_keeps s (snd (send_gw_packet z w p d s))"
  using send_gw_packet_shape[of z w p d s] by (metis client_keeps_process(1))

lemma client_keeps_read: "read_packet z rs s = (x, rs', s') \<Longrightarrow> client_keeps s s'"
  unfolding read_packet_def by (metis read_gw_packet_shape client_keeps_process(2))

lemma client_keeps_update:
  "(\<And>l. connection_id (f l) = connection_id l) \<Longrightarrow> client_keeps s (update_link r f s)"
  by (simp add: client_keeps_def update_link_def)

lemma client_keeps_remove: "client_keeps s (snd (gw_remove_link lid s))"
  by (auto simp: client_keeps_def gw_remove_link_eq split: if_splits)

lemma client_keeps_then:
  "client_keeps s t \<Longrightarrow> client_keeps s (snd (send_gw_packet z w p d t))"
  "client_keeps s t \<Longrightarrow> client_keeps s (t\<lparr>gw_packet_id_counter := n\<rparr>)"
  "client_keeps s t \<Longrightarrow> client_keeps s (t\<lparr>gw_keep_alive_stamp := i\<rparr>)"
  "client_keeps s t \<Longrightarrow> client_keeps s (t\<lparr>cl_last_activity := i\<rparr>)"
  "client_keeps s t \<Longrightarrow> client_keeps s (snd (gw_remove_link lid t))"
  "client_keeps s t \<Longrightarrow> client_keeps s (snd (gw_write w b t))"
  "client_keeps s t \<Longrightarrow> (\<And>l. connection_id (f l) = connection_id l) \<Longrightarrow> client_keeps s (update_link r f t)"
  by (rule client_keeps_trans, assumption,
      simp add: gw_write_eq client_keeps_send client_keeps_remove client_keeps_update)+

lemma client_keeps_pong: "client_keeps s (send_pong z w i s)"
  by (simp add: send_pong_def next_packet_id_eq Let_def client_keeps_then)

lemma client_keeps_ping: "ping_turn z w s = (g, s') \<Longrightarrow> client_keeps s s'"
  by (auto simp: ping_turn_def next_packet_id_eq Let_def case_prod_beta update_keepalive_def client_keeps_then
      split: if_splits)

lemma client_keeps_command: "client_keeps s (send_ping z s)"
  by (simp add: send_ping_def next_packet_id_eq Let_def client_keeps_then split: option.split)

lemma client_keeps_app_turn: "client_app_turn z r w s = (g, s') \<Longrightarrow> client_keeps s s'"
  by (auto simp: client_app_turn_def next_packet_id_eq Let_def case_prod_beta client_keeps_then client_keeps_update
      split: sum.splits if_splits)

lemma client_keeps_app_end: "client_keeps s (client_app_end z r w s)"
  by (simp add: client_app_end_def next_packet_id_eq Let_def case_prod_beta client_keeps_then)

lemma client_keeps_authenticate:
  assumes "gw_authenticate h w rs s = (ok, rs', s')"
  shows "client_keeps s s'"
proof -
  have "client_keeps s (snd (send_auth_response h w nonce s))" for nonce
    by (simp add: send_auth_response_def next_packet_id_eq Let_def case_prod_beta client_keeps_then)
  then show ?thesis using assms
    by (auto simp: gw_authenticate_def Let_def case_prod_beta split: prod.splits option.splits if_splits)
qed

lemma send_keeps_dials [simp]: "cl_app_connects (snd (send_gw_packet z w p d s)) = cl_app_connects s"
  using send_gw_packet_shape[of z w p d s] by auto

text \<open>A packet from the server changes no more, except that \<open>Open\<close> may add one link and its task.\<close>

lemma client_keeps_dispatch:
  assumes "packet_type p \<noteq> Open" and "client_dispatch z w p d s = (g, s')"
  shows "client_keeps s s'"
  using assms by (cases "packet_type p")
    (auto simp: client_dispatch_def Let_def forward_to_app_def update_keepalive_def case_prod_beta
      client_keeps_then client_keeps_pong client_keeps_update client_keeps_remove split: option.splits)

definition adds_link :: "u16 \<Rightarrow> wref \<Rightarrow> client \<Rightarrow> client \<Rightarrow> bool" where
  "adds_link lid w s s' \<longleftrightarrow>
     gw_links s' = fmupd lid (pr_next_link s) (gw_links s) \<and>
     connection_id (pr_links s' (pr_next_link s)) = lid \<and>
     (\<forall>r < pr_next_link s. pr_links s' r = pr_links s r) \<and>
     pr_next_link s' = Suc (pr_next_link s) \<and> pr_next_writer s' = pr_next_writer s \<and>
     gw_state s' = gw_state s \<and> cl_gw_writer s' = cl_gw_writer s \<and>
     cl_tasks s' = cl_tasks s @ [ClientAppExchange (pr_next_link s) w]"

lemma send_keeps_client [simp]:
  fixes s :: client
  shows "cl_tasks (snd (send_gw_packet z w p d s)) = cl_tasks s"
    "cl_gw_writer (snd (send_gw_packet z w p d s)) = cl_gw_writer s"
  using client_keeps_send[of s z w p d] by (simp_all add: client_keeps_def)

lemma connect_client_adds:
  "client_keeps s (connect_client z lid w s) \<or> adds_link lid w s (connect_client z lid w s)"
  by (auto simp: connect_client_def connect_app_def alloc_link_def add_link_eq send_opened_def send_open_fail_def
      next_packet_id_eq spawn_def client_keeps_def adds_link_def update_link_def Let_def split: list.split option.split)

lemma gateway_turn_effect:
  assumes "gateway_turn z w rs s = (g, rs', s')"
  shows "client_keeps s s' \<or> (\<exists>lid. adds_link lid w s s')"
proof -
  obtain x rs2 t where r: "read_packet z rs s = (x, rs2, t)" by (metis prod.collapse)
  note st = client_keeps_read[OF r]
  show ?thesis
  proof (cases x)
    case None
    then show ?thesis using assms r st by (simp add: gateway_turn_def)
  next
    case (Some y)
    obtain p d where y: "y = (p, d)" by fastforce
    have d: "client_dispatch z w p d t = (g, s')" using assms r Some y
      by (simp add: gateway_turn_def split: prod.splits)
    have "client_keeps t s' \<or> (\<exists>lid. adds_link lid w t s')"
    proof (cases "packet_type p = Open")
      case True
      then show ?thesis using d connect_client_adds[of t z "link_id p" w] by (auto simp: client_dispatch_def)
    qed (use client_keeps_dispatch d in blast)
    moreover have "adds_link lid w s s'" if "adds_link lid w t s'" for lid
      using that st read_frame[of z rs s x rs2 t] r by (simp add: adds_link_def client_keeps_def read_packet_def)
    ultimately show ?thesis using client_keeps_trans[OF st] by blast
  qed
qed

section \<open>The invariant\<close>

fun is_main :: "client_thread \<Rightarrow> bool" where
  "is_main Dialling \<longleftrightarrow> True"
| "is_main (ProvingKey w rs) \<longleftrightarrow> True"
| "is_main (Exchanging w rs) \<longleftrightarrow> True"
| "is_main LostServer \<longleftrightarrow> True"
| "is_main _ \<longleftrightarrow> False"

text \<open>What the shared state is while the main task is at a point.\<close>

fun phase_ok :: "client \<Rightarrow> client_thread \<Rightarrow> bool" where
  "phase_ok s Dialling \<longleftrightarrow> gw_state s = GsWaiting \<and> gw_links s = fmempty \<and> cl_gw_writer s = None"
| "phase_ok s (ProvingKey w rs) \<longleftrightarrow> gw_state s = GsProcessing \<and> gw_links s = fmempty \<and> cl_gw_writer s = Some w"
| "phase_ok s (Exchanging w rs) \<longleftrightarrow> gw_state s = GsConnected \<and> cl_gw_writer s = Some w"
| "phase_ok s _ \<longleftrightarrow> True"

text \<open>The link and the connection that the task of an application serves; the connections in use.\<close>

fun serves :: "client_thread \<Rightarrow> (lref \<times> wref) list" where
  "serves (Reading r w) = [(r, w)]"
| "serves (Finishing r w) = [(r, w)]"
| "serves _ = []"

fun uses :: "client_thread \<Rightarrow> wref list" where
  "uses (Exchanging w rs) = [w]"
| "uses (Pinging w) = [w]"
| "uses (Reading r w) = [w]"
| "uses (Finishing r w) = [w]"
| "uses _ = []"

fun proves :: "client_thread \<Rightarrow> wref list" where
  "proves (ProvingKey w rs) = [w]"
| "proves _ = []"

fun exchanges :: "client_thread \<Rightarrow> wref list" where
  "exchanges (Exchanging w rs) = [w]"
| "exchanges _ = []"

definition mains_inv :: "client \<Rightarrow> client_thread list \<Rightarrow> bool" where
  "mains_inv s ts \<longleftrightarrow> length (filter is_main ts) = 1 \<and> list_all (phase_ok s) ts"

definition connections_inv :: "client \<Rightarrow> client_thread list \<Rightarrow> bool" where
  "connections_inv s ts \<longleftrightarrow> (\<forall>w \<in> set (of_all uses ts) \<union> set (of_all proves ts). w < pr_next_writer s) \<and>
     set (of_all uses ts) \<inter> set (of_all proves ts) = {}"

definition apps_inv :: "client \<Rightarrow> client_thread list \<Rightarrow> bool" where
  "apps_inv s ts \<longleftrightarrow> distinct (map fst (of_all serves ts)) \<and> (\<forall>(r, w) \<in> set (of_all serves ts). r < pr_next_link s)"

definition registry_inv :: "client \<Rightarrow> client_thread list \<Rightarrow> bool" where
  "registry_inv s ts \<longleftrightarrow> (\<forall>l r. fmlookup (gw_links s) l = Some r \<longrightarrow>
     r < pr_next_link s \<and> connection_id (pr_links s r) = l \<and>
     (\<exists>w. (r, w) \<in> set (of_all serves ts) \<and> set (of_all exchanges ts) \<subseteq> {w}))"

definition client_inv :: "client \<Rightarrow> client_thread list \<Rightarrow> bool" where
  "client_inv s ts \<longleftrightarrow> mains_inv s ts \<and> connections_inv s ts \<and> apps_inv s ts \<and> registry_inv s ts"

lemmas client_inv_defs = client_inv_def mains_inv_def connections_inv_def apps_inv_def registry_inv_def

lemma not_main:
  "\<not> is_main t \<Longrightarrow> phase_ok s t" "\<not> is_main t \<Longrightarrow> proves t = []" "\<not> is_main t \<Longrightarrow> exchanges t = []"
  by (cases t; simp)+

lemma others_not_main:
  assumes "length (filter is_main (xs @ t # ys)) = 1" and "is_main t"
  shows "filter is_main xs = []" "filter is_main ys = []" "list_all (phase_ok s) xs" "list_all (phase_ok s) ys"
    "of_all proves xs = []" "of_all proves ys = []" "of_all exchanges xs = []" "of_all exchanges ys = []"
proof -
  have no: "filter is_main xs = []" "filter is_main ys = []" using assms by simp_all
  then show "filter is_main xs = []" "filter is_main ys = []" .
  have others: "\<not> is_main u" if "u \<in> set xs \<union> set ys" for u
    using that no by (auto simp: filter_empty_conv)
  then show "list_all (phase_ok s) xs" "list_all (phase_ok s) ys" "of_all proves xs = []" "of_all proves ys = []"
      "of_all exchanges xs = []" "of_all exchanges ys = []"
    by (auto simp: list_all_iff of_all_def not_main)
qed

text \<open>A step that keeps what the tasks look at, from a task to ones with the same duties.\<close>

lemma phase_ok_keeps: "client_keeps s s' \<Longrightarrow> phase_ok s t \<Longrightarrow> phase_ok s' t"
proof (induction s t rule: phase_ok.induct)
  case (1 s)
  then have "fmlookup (gw_links s') l = None" for l by (cases "fmlookup (gw_links s') l") (auto simp: client_keeps_def)
  then have "gw_links s' = fmempty" by (intro fmap_ext) simp
  then show ?case using 1 by (simp add: client_keeps_def)
next
  case (2 s w rs)
  then have "fmlookup (gw_links s') l = None" for l by (cases "fmlookup (gw_links s') l") (auto simp: client_keeps_def)
  then have "gw_links s' = fmempty" by (intro fmap_ext) simp
  then show ?case using 2 by (simp add: client_keeps_def)
qed (simp_all add: client_keeps_def)

lemma mains_keep:
  assumes "client_keeps s s'" and "mains_inv s (xs @ t # ys)"
    and "length (filter is_main us) = (if is_main t then 1 else 0)" and "list_all (phase_ok s') us"
  shows "mains_inv s' (xs @ us @ ys)"
proof -
  have "list_all (phase_ok s') xs" "list_all (phase_ok s') ys"
    using assms(1,2) phase_ok_keeps by (auto simp: mains_inv_def list_all_iff)
  then show ?thesis using assms(2-4) by (auto simp: mains_inv_def split: if_splits)
qed

lemma connections_keep:
  assumes "pr_next_writer s' = pr_next_writer s" and "connections_inv s (xs @ t # ys)"
    and "set (of_all uses us) \<subseteq> set (uses t)" and "of_all proves us = proves t"
  shows "connections_inv s' (xs @ us @ ys)"
  using assms by (auto simp: connections_inv_def)

lemma apps_keep:
  assumes "pr_next_link s \<le> pr_next_link s'" and "apps_inv s (xs @ t # ys)"
    and "of_all serves us = serves t \<or> of_all serves us = []"
  shows "apps_inv s' (xs @ us @ ys)"
proof -
  have old: "distinct (map fst (of_all serves (xs @ t # ys)))" using assms(2) by (simp only: apps_inv_def)
  have "distinct (map fst (of_all serves (xs @ us @ ys))) \<and>
      set (of_all serves (xs @ us @ ys)) \<subseteq> set (of_all serves (xs @ t # ys))"
    using assms(3)
  proof
    assume "of_all serves us = serves t"
    then have "of_all serves (xs @ us @ ys) = of_all serves (xs @ t # ys)" by simp
    then show ?thesis using old by (simp only: order_refl)
  next
    assume "of_all serves us = []"
    then show ?thesis using old by auto
  qed
  moreover have "\<forall>(r, w) \<in> set (of_all serves (xs @ t # ys)). r < pr_next_link s'"
    using assms(1,2) unfolding apps_inv_def by fastforce
  ultimately show ?thesis unfolding apps_inv_def by blast
qed

lemma registry_keep:
  assumes "client_keeps s s'" and "registry_inv s (xs @ t # ys)"
    and "of_all serves us = serves t" and "set (of_all exchanges us) \<subseteq> set (exchanges t)"
  shows "registry_inv s' (xs @ us @ ys)"
proof -
  have "r < pr_next_link s' \<and> connection_id (pr_links s' r) = l \<and>
      (\<exists>w. (r, w) \<in> set (of_all serves (xs @ us @ ys)) \<and> set (of_all exchanges (xs @ us @ ys)) \<subseteq> {w})"
    if "fmlookup (gw_links s') l = Some r" for l r
  proof -
    have "fmlookup (gw_links s) l = Some r" using that assms(1) by (simp add: client_keeps_def)
    then obtain w where "r < pr_next_link s" "connection_id (pr_links s r) = l"
        "(r, w) \<in> set (of_all serves (xs @ t # ys))" "set (of_all exchanges (xs @ t # ys)) \<subseteq> {w}"
      using assms(2) unfolding registry_inv_def by metis
    then show ?thesis using assms by (intro conjI exI[of _ w]) (auto simp: client_keeps_def)
  qed
  then show ?thesis unfolding registry_inv_def by blast
qed

lemma client_inv_keep:
  assumes "client_keeps s s'" and "client_inv s (xs @ t # ys)"
    and "length (filter is_main us) = (if is_main t then 1 else 0)" and "list_all (phase_ok s') us"
    and "set (of_all uses us) \<subseteq> set (uses t)" and "of_all proves us = proves t"
    and "of_all serves us = serves t" and "set (of_all exchanges us) \<subseteq> set (exchanges t)"
  shows "client_inv s' (xs @ us @ ys)"
proof -
  have fields: "pr_next_writer s' = pr_next_writer s" "pr_next_link s \<le> pr_next_link s'"
    using assms(1) by (simp_all add: client_keeps_def)
  have inv: "mains_inv s (xs @ t # ys)" "connections_inv s (xs @ t # ys)" "apps_inv s (xs @ t # ys)"
      "registry_inv s (xs @ t # ys)" using assms(2) by (simp_all add: client_inv_def)
  show ?thesis unfolding client_inv_def
    using mains_keep[OF assms(1) inv(1) assms(3,4)] connections_keep[OF fields(1) inv(2) assms(5,6)]
      apps_keep[OF fields(2) inv(3) disjI1[OF assms(7)]] registry_keep[OF assms(1) inv(4) assms(7,8)] by simp
qed

lemma client_inv_alone:
  assumes "client_keeps s s'" and "client_inv s (xs @ t # ys)"
  shows "client_inv s' (xs @ t # ys)"
proof -
  have "phase_ok s' t" using assms(2) phase_ok_keeps[OF assms(1)] by (simp add: client_inv_def mains_inv_def)
  then show ?thesis using client_inv_keep[OF assms, of "[t]"] by simp
qed

section \<open>The steps that do more\<close>

lemma dialled_inv:
  assumes "begin_connection k s = (w, s')" and "client_inv s (xs @ Dialling # ys)"
  shows "client_inv s' (xs @ ProvingKey w rs # ys)"
proof -
  have s': "w = pr_next_writer s" "pr_next_writer s' = Suc w" "gw_state s' = GsProcessing" "cl_gw_writer s' = Some w"
      "gw_links s' = gw_links s" "pr_next_link s' = pr_next_link s" "pr_links s' = pr_links s"
    using assms(1) by (auto simp: begin_connection_def alloc_writer_def Let_def)
  have inv: "mains_inv s (xs @ Dialling # ys)" "connections_inv s (xs @ Dialling # ys)" "apps_inv s (xs @ Dialling # ys)"
    using assms(2) by (simp_all add: client_inv_def)
  have links: "gw_links s = fmempty" using inv(1) by (simp add: mains_inv_def)
  have one: "length (filter is_main (xs @ Dialling # ys)) = 1" using inv(1) by (simp add: mains_inv_def)
  note others = others_not_main[OF one]
  have used: "v < w" if "v \<in> set (of_all uses xs) \<union> set (of_all uses ys)" for v
    using that inv(2) s'(1) by (auto simp: connections_inv_def)
  have "mains_inv s' (xs @ ProvingKey w rs # ys)" using others s'(3-5) links by (simp add: mains_inv_def)
  moreover have "connections_inv s' (xs @ ProvingKey w rs # ys)"
    using others(5,6) used s'(2) by (auto simp: connections_inv_def less_Suc_eq)
  moreover have "apps_inv s' (xs @ ProvingKey w rs # ys)" using inv(3) s'(6) by (simp add: apps_inv_def)
  moreover have "registry_inv s' (xs @ ProvingKey w rs # ys)" using s'(5) links by (simp add: registry_inv_def)
  ultimately show ?thesis by (simp add: client_inv_def)
qed

lemma proved_inv:
  assumes "client_inv s (xs @ ProvingKey w rs # ys)"
  shows "client_inv (begin_exchange w s) (xs @ (Exchanging w rs' # new_tasks s (begin_exchange w s)) @ ys)"
proof -
  let ?s = "begin_exchange w s"
  have s': "pr_next_writer ?s = pr_next_writer s" "gw_state ?s = GsConnected" "cl_gw_writer ?s = cl_gw_writer s"
      "gw_links ?s = gw_links s" "pr_next_link ?s = pr_next_link s" "new_tasks s ?s = [Pinging w]"
    by (simp_all add: begin_exchange_def spawn_def new_tasks_def Let_def)
  have inv: "mains_inv s (xs @ ProvingKey w rs # ys)" "connections_inv s (xs @ ProvingKey w rs # ys)"
      "apps_inv s (xs @ ProvingKey w rs # ys)" using assms by (simp_all add: client_inv_def)
  have one: "length (filter is_main (xs @ ProvingKey w rs # ys)) = 1" using inv(1) by (simp add: mains_inv_def)
  note others = others_not_main[OF one, simplified]
  have links: "gw_links s = fmempty" "cl_gw_writer s = Some w" using inv(1) by (simp_all add: mains_inv_def)
  have "mains_inv ?s (xs @ (Exchanging w rs' # [Pinging w]) @ ys)"
    using others(1-4) s'(2,3) links by (simp add: mains_inv_def)
  moreover have "connections_inv ?s (xs @ (Exchanging w rs' # [Pinging w]) @ ys)"
    using inv(2) others(5,6) s'(1) by (auto simp: connections_inv_def)
  moreover have "apps_inv ?s (xs @ (Exchanging w rs' # [Pinging w]) @ ys)" using inv(3) s'(5) by (simp add: apps_inv_def)
  moreover have "registry_inv ?s (xs @ (Exchanging w rs' # [Pinging w]) @ ys)" using s'(4) links by (simp add: registry_inv_def)
  ultimately show ?thesis by (simp add: client_inv_def s'(6))
qed

lemma opened_link_inv:
  assumes "adds_link lid w s s'" and "client_inv s (xs @ Exchanging w rs # ys)"
    and "main = Exchanging w rs' \<or> main = LostServer"
  shows "client_inv s' (xs @ (main # new_tasks s s') @ ys)"
proof -
  let ?r = "pr_next_link s" and ?ts = "xs @ Exchanging w rs # ys"
  have s': "gw_links s' = fmupd lid ?r (gw_links s)" "connection_id (pr_links s' ?r) = lid"
      "\<And>r. r < ?r \<Longrightarrow> pr_links s' r = pr_links s r" "pr_next_link s' = Suc ?r"
      "pr_next_writer s' = pr_next_writer s" "gw_state s' = gw_state s" "cl_gw_writer s' = cl_gw_writer s"
      "new_tasks s s' = [Reading ?r w]"
    using assms(1) by (simp_all add: adds_link_def new_tasks_def)
  have inv: "mains_inv s ?ts" "connections_inv s ?ts" "apps_inv s ?ts" "registry_inv s ?ts"
    using assms(2) by (simp_all add: client_inv_def)
  have one: "length (filter is_main ?ts) = 1" using inv(1) by (simp add: mains_inv_def)
  note others = others_not_main[OF one, simplified]
  have m: "is_main main" "phase_ok s' main" "set (uses main) \<subseteq> {w}" "proves main = []" "serves main = []"
      "set (exchanges main) \<subseteq> {w}"
    using assms(3) inv(1) s'(6,7) by (auto simp: mains_inv_def)
  have "mains_inv s' (xs @ (main # [Reading ?r w]) @ ys)" using others(1-4) m(1,2) by (simp add: mains_inv_def)
  moreover have "connections_inv s' (xs @ (main # [Reading ?r w]) @ ys)"
    using inv(2) others(5,6) m(3,4) s'(5) by (auto simp: connections_inv_def)
  moreover have "apps_inv s' (xs @ (main # [Reading ?r w]) @ ys)"
  proof -
    have old: "distinct (map fst (of_all serves xs @ of_all serves ys))"
        "\<And>q v. (q, v) \<in> set (of_all serves xs @ of_all serves ys) \<Longrightarrow> q < ?r"
      using inv(3) by (auto simp: apps_inv_def)
    have "?r \<notin> fst ` set (of_all serves xs @ of_all serves ys)" using old(2) by fastforce
    then show ?thesis using old m(5) s'(4) by (fastforce simp: apps_inv_def)
  qed
  moreover have "registry_inv s' (xs @ (main # [Reading ?r w]) @ ys)"
  proof -
    have old: "r < ?r \<and> connection_id (pr_links s r) = l \<and> (\<exists>v. (r, v) \<in> set (of_all serves xs @ of_all serves ys) \<and> v = w)"
      if "fmlookup (gw_links s) l = Some r" for l r
      using that inv(4) by (fastforce simp: registry_inv_def)
    show ?thesis unfolding registry_inv_def s'(1)
      using old s'(2-4) m(6) others(7,8) by (auto simp: less_Suc_eq)
  qed
  ultimately show ?thesis by (simp add: client_inv_def s'(8))
qed

lemma reset_inv:
  assumes "order_lawful order" and "client_inv s (xs @ LostServer # ys)"
  shows "client_inv (client_on_disconnection (order (fmdom (gw_links s))) s) (xs @ Dialling # ys)"
proof -
  let ?s = "client_on_disconnection (order (fmdom (gw_links s))) s"
  note closed = close_all_links_eq[OF order_drains[OF assms(1)], of s]
  have s': "gw_links ?s = fmempty" "gw_state ?s = GsWaiting" "cl_gw_writer ?s = None"
      "pr_next_link ?s = pr_next_link s" "pr_next_writer ?s = pr_next_writer s"
    by (simp_all add: client_on_disconnection_def closed Let_def)
  have inv: "mains_inv s (xs @ LostServer # ys)" "connections_inv s (xs @ LostServer # ys)" "apps_inv s (xs @ LostServer # ys)"
    using assms(2) by (simp_all add: client_inv_def)
  have one: "length (filter is_main (xs @ LostServer # ys)) = 1" using inv(1) by (simp add: mains_inv_def)
  note others = others_not_main[OF one, simplified]
  show ?thesis using others inv(2,3) s' by (simp add: client_inv_defs)
qed

text \<open>
  The end of an application's task takes its number out of the registry, so no entry for its link
  is left; a link of another task may lose its entry too.
\<close>

lemma finished_inv:
  assumes "client_inv s (xs @ Finishing r w # ys)"
  shows "client_inv (client_app_end z r w s) (xs @ ys)"
proof -
  let ?s = "client_app_end z r w s"
  have gone: "fmlookup (gw_links ?s) (connection_id (pr_links s r)) = None"
    by (simp add: client_app_end_def gw_remove_link_eq next_packet_id_eq Let_def case_prod_beta)
  have keep: "client_keeps s ?s" by (rule client_keeps_app_end)
  have all: "client_inv ?s (xs @ [Finishing r w] @ ys)"
    by (rule client_inv_keep[OF keep assms]) simp_all
  have "registry_inv ?s (xs @ ys)" unfolding registry_inv_def
  proof (intro allI impI)
    fix l q assume q: "fmlookup (gw_links ?s) l = Some q"
    then obtain v where v: "q < pr_next_link ?s" "connection_id (pr_links ?s q) = l"
        "(q, v) \<in> set (of_all serves (xs @ [Finishing r w] @ ys))"
        "set (of_all exchanges (xs @ [Finishing r w] @ ys)) \<subseteq> {v}"
      using all unfolding client_inv_def registry_inv_def by blast
    have "connection_id (pr_links ?s q) = connection_id (pr_links s q)" using keep by (simp add: client_keeps_def)
    then have "q \<noteq> r" using q gone v(2) by auto
    then show "q < pr_next_link ?s \<and> connection_id (pr_links ?s q) = l \<and>
        (\<exists>v. (q, v) \<in> set (of_all serves (xs @ ys)) \<and> set (of_all exchanges (xs @ ys)) \<subseteq> {v})"
      using v by auto
  qed
  then show ?thesis using all by (auto simp: client_inv_def mains_inv_def connections_inv_def apps_inv_def)
qed

lemma client_thread_inv:
  assumes "order_lawful order" and "client_thread_step z order h t s us s'" and "client_inv s (xs @ t # ys)"
  shows "client_inv s' (xs @ us @ ys)"
  using assms(2)
proof cases
  case (dialled k w)
  then show ?thesis using dialled_inv assms(3) by simp
next
  case dial_failed
  then show ?thesis using assms(3) by simp
next
  case (proved w rs rs' s1)
  have "client_inv s1 (xs @ ProvingKey w rs # ys)"
    using client_inv_alone[OF client_keeps_authenticate[OF proved(4)]] assms(3) proved(1) by simp
  then show ?thesis using proved_inv[of s1 xs w rs ys rs'] proved by simp
next
  case (refused w rs rs' s1)
  let ?s = "abandon_connection s1"
  have s1: "client_inv s1 (xs @ ProvingKey w rs # ys)"
    using client_inv_alone[OF client_keeps_authenticate[OF refused(4)]] assms(3) refused(1) by simp
  have s': "gw_links ?s = gw_links s1" "pr_next_link ?s = pr_next_link s1" "pr_next_writer ?s = pr_next_writer s1"
    by (simp_all add: abandon_connection_def Let_def)
  have one: "length (filter is_main (xs @ ProvingKey w rs # ys)) = 1" "gw_links s1 = fmempty"
    using s1 by (simp_all add: client_inv_def mains_inv_def)
  note others = others_not_main[OF one(1), simplified]
  show ?thesis using refused others s1 s' one(2) by (simp add: client_inv_defs)
next
  case (exchanged w rs rs')
  show ?thesis using gateway_turn_effect[OF exchanged(3)]
  proof
    assume k: "client_keeps s s'"
    then show ?thesis using exchanged assms(3) client_keeps_new_tasks[OF k]
      by (intro client_inv_keep[OF k assms(3)]) (auto simp: client_inv_def mains_inv_def client_keeps_def)
  qed (use opened_link_inv assms(3) exchanged in blast)
next
  case (server_lost w rs rs')
  show ?thesis using gateway_turn_effect[OF server_lost(3)]
  proof
    assume k: "client_keeps s s'"
    then show ?thesis using server_lost assms(3) client_keeps_new_tasks[OF k]
      by (intro client_inv_keep[OF k assms(3)]) (auto simp: client_inv_def mains_inv_def client_keeps_def)
  qed (use opened_link_inv assms(3) server_lost in blast)
next
  case reset
  then show ?thesis using reset_inv[OF assms(1)] assms(3) by simp
next
  case (pinged w)
  then show ?thesis by (intro client_inv_keep[OF client_keeps_ping[OF pinged(3)] assms(3)]) auto
next
  case (ping_failed w)
  then show ?thesis by (intro client_inv_keep[OF client_keeps_ping[OF ping_failed(3)] assms(3)]) auto
next
  case (app_forwarded r w)
  then show ?thesis by (intro client_inv_keep[OF client_keeps_app_turn[OF app_forwarded(3)] assms(3)]) auto
next
  case (app_exhausted r w)
  then show ?thesis by (intro client_inv_keep[OF client_keeps_app_turn[OF app_exhausted(3)] assms(3)]) auto
next
  case (app_finished r w)
  then show ?thesis using finished_inv assms(3) by simp
qed

lemma client_step_inv:
  assumes "order_lawful order" and "client_step z order h x y" and "client_inv (fst x) (snd x)"
  shows "client_inv (fst y) (snd y)"
  using assms(2)
proof cases
  case (ping_command s ts)
  then have "ts \<noteq> []" using assms(3) by (auto simp: client_inv_def mains_inv_def)
  then obtain t us where "ts = [] @ t # us" by (cases ts) auto
  then show ?thesis using client_inv_alone[OF client_keeps_command, of s "[]" t us z] assms(3) ping_command by simp
next
  case (task_runs t s us s' xs ys)
  then show ?thesis using client_thread_inv[OF assms(1)] assms(3) by simp
qed

lemma client_start_inv: "client_inv (fst (client_start config p connects)) (snd (client_start config p connects))"
  by (simp add: client_start_def GatewayClient_new_def Gateway_new_def gateway.defs process.defs client_inv_defs)

lemma client_reachable_inv:
  assumes "order_lawful order" and "client_reachable z order h config p connects (s, ts)"
  shows "client_inv s ts"
proof -
  have "client_inv (fst x) (snd x)" if "(client_step z order h)\<^sup>*\<^sup>* (client_start config p connects) x" for x
    using that by induction (simp_all add: client_start_inv client_step_inv[OF assms(1)])
  then show ?thesis using assms(2) unfolding client_reachable_def by fastforce
qed

end
