(* ===== verification/Receiving.thy ===== *)
theory Receiving
  imports Emission
begin

text \<open>
  The receiving end of a connection, link by link: whatever the mix of packets of all links in a
  stream, and wherever it is cut off, the application of one link gets the data of its own packets
  in order. The exchange loops of client and server share this interface (\<open>receiver\<close>).
\<close>

abbreviation data_events :: "bytes list \<Rightarrow> (PacketType \<times> bytes option) list" where
  "data_events ds \<equiv> map (\<lambda>d. (Regular, Some d)) ds"

section \<open>One link of a gateway\<close>

definition link_live :: "u16 \<Rightarrow> lref \<Rightarrow> 'a gateway_scheme \<Rightarrow> bool" where
  "link_live lid q s \<longleftrightarrow> fmlookup (gw_links s) lid = Some q \<and> link_state (pr_links s q) = Connected \<and>
     q < pr_next_link s \<and>
     (\<forall>l r. fmlookup (gw_links s) l = Some r \<longrightarrow> r < pr_next_link s \<and> (r = q \<longrightarrow> l = lid))"

definition link_gone :: "lref \<Rightarrow> 'a gateway_scheme \<Rightarrow> bool" where
  "link_gone q s \<longleftrightarrow> q < pr_next_link s \<and>
     (\<forall>l r. fmlookup (gw_links s) l = Some r \<longrightarrow> r < pr_next_link s \<and> r \<noteq> q)"

text \<open>A step that leaves one link alone: only new links are registered, and it is not touched.\<close>

definition leaves_alone :: "lref \<Rightarrow> 'a gateway_scheme \<Rightarrow> 'a gateway_scheme \<Rightarrow> bool" where
  "leaves_alone q s s' \<longleftrightarrow> pr_next_link s \<le> pr_next_link s' \<and> pr_links s' q = pr_links s q \<and>
     (\<forall>l r. fmlookup (gw_links s') l = Some r \<longrightarrow>
       fmlookup (gw_links s) l = Some r \<or> pr_next_link s \<le> r \<and> r < pr_next_link s')"

lemma leaves_gone:
  assumes "leaves_alone q s s'" and "link_gone q s"
  shows "link_gone q s'"
proof -
  have "r < pr_next_link s' \<and> r \<noteq> q" if "fmlookup (gw_links s') l = Some r" for l r
    using that assms unfolding leaves_alone_def link_gone_def by (metis leD order_less_le_trans)
  moreover have "q < pr_next_link s'" using assms unfolding leaves_alone_def link_gone_def
    by (meson order_less_le_trans)
  ultimately show ?thesis unfolding link_gone_def by blast
qed

lemma leaves_live:
  assumes "leaves_alone q s s'" and "fmlookup (gw_links s') lid = fmlookup (gw_links s) lid" and "link_live lid q s"
  shows "link_live lid q s'"
proof -
  have "r < pr_next_link s' \<and> (r = q \<longrightarrow> l = lid)" if "fmlookup (gw_links s') l = Some r" for l r
    using that assms unfolding leaves_alone_def link_live_def by (metis leD order_less_le_trans)
  moreover have "q < pr_next_link s'" using assms(1,3) unfolding leaves_alone_def link_live_def
    by (meson order_less_le_trans)
  ultimately show ?thesis using assms unfolding leaves_alone_def link_live_def by metis
qed

lemma send_leaves [simp]: "leaves_alone q s (snd (send_gw_packet z w p d s))"
  by (simp add: leaves_alone_def)

lemma leaves_trans:
  assumes "leaves_alone q s t" and "leaves_alone q t u"
  shows "leaves_alone q s u"
proof -
  have "fmlookup (gw_links s) l = Some r \<or> pr_next_link s \<le> r \<and> r < pr_next_link u"
    if "fmlookup (gw_links u) l = Some r" for l r
  proof -
    have "fmlookup (gw_links t) l = Some r \<or> pr_next_link t \<le> r \<and> r < pr_next_link u"
      using that assms(2) unfolding leaves_alone_def by blast
    moreover have "pr_next_link s \<le> pr_next_link t" "pr_next_link t \<le> pr_next_link u"
      using assms unfolding leaves_alone_def by blast+
    moreover have "fmlookup (gw_links t) l = Some r \<Longrightarrow>
        fmlookup (gw_links s) l = Some r \<or> pr_next_link s \<le> r \<and> r < pr_next_link t"
      using assms(1) unfolding leaves_alone_def by blast
    ultimately show ?thesis by (metis order_trans order_less_le_trans)
  qed
  then show ?thesis using assms unfolding leaves_alone_def by (metis order_trans)
qed

lemma leaves_fields:
  "pr_next_link s' = pr_next_link s \<Longrightarrow> pr_links s' q = pr_links s q \<Longrightarrow> gw_links s' = gw_links s \<Longrightarrow> leaves_alone q s s'"
  by (simp add: leaves_alone_def)

lemma update_link_next_link [simp]: "pr_next_link (update_link r f s) = pr_next_link s"
  by (simp add: update_link_def)

lemma leaves_update: "r \<noteq> q \<Longrightarrow> leaves_alone q s (update_link r f s)"
  by (simp add: leaves_alone_def)

lemma leaves_remove:
  "leaves_alone q s (snd (gw_remove_link lid s))"
  by (auto simp: leaves_alone_def gw_remove_link_eq split: if_splits)

lemma forward_elsewhere:
  "fmlookup (gw_links s) l \<noteq> Some q \<Longrightarrow> leaves_alone q s (forward_to_app l d s)"
  by (auto simp: forward_to_app_def leaves_alone_def split: option.split)

lemma gw_remove_link_fst [simp]: "fst (gw_remove_link lid s) = fmlookup (gw_links s) lid"
  by (simp add: gw_remove_link_eq)

lemma concerns_sent [simp]: "concerns lid (sent_header z p d) = concerns lid p"
  by (simp add: concerns_def)

lemma forward_live:
  assumes "link_live lid q s"
  shows "link_live lid q (forward_to_app lid d s)"
    and "pr_links (forward_to_app lid d s) q = link_send_packet (Some d) (pr_links s q)"
proof -
  have "fmlookup (gw_links s) lid = Some q" using assms by (simp add: link_live_def)
  then have f: "forward_to_app lid d s = update_link q (link_send_packet (Some d)) s" by (simp add: forward_to_app_def)
  then show "pr_links (forward_to_app lid d s) q = link_send_packet (Some d) (pr_links s q)" by simp
  show "link_live lid q (forward_to_app lid d s)" unfolding f
    using assms by (auto simp: link_live_def update_link_def)
qed

lemma link_live_cong:
  "pr_links t = pr_links s \<Longrightarrow> gw_links t = gw_links s \<Longrightarrow> pr_next_link t = pr_next_link s \<Longrightarrow>
     link_live lid q s \<Longrightarrow> link_live lid q t"
  by (simp add: link_live_def)

lemma link_events_data_Cons:
  assumes "link_events lid ((p, d) # ps) = data_events ds" and "concerns lid p"
  obtains b ds' where "packet_type p = Regular" and "link_id p = lid" and "d = Some b" and "ds = b # ds'"
    and "link_events lid ps = data_events ds'"
  using assms by (cases ds) (auto simp: concerns_def)

lemma link_events_split:
  assumes "link_events lid ps = xs @ (ty, d) # ys"
  obtains ps1 p ps2 where "ps = ps1 @ (p, d) # ps2" and "link_events lid ps1 = xs" and "concerns lid p"
    and "packet_type p = ty" and "link_events lid ps2 = ys"
proof -
  have "\<exists>ps1 p ps2. ps = ps1 @ (p, d) # ps2 \<and> link_events lid ps1 = xs \<and> concerns lid p \<and> packet_type p = ty \<and>
      link_events lid ps2 = ys"
    using assms
  proof (induction ps arbitrary: xs)
    case (Cons x ps)
    obtain p e where x: "x = (p, e)" by fastforce
    show ?case
    proof (cases "concerns lid p \<and> xs = []")
      case True
      then show ?thesis using Cons.prems x by (intro exI[of _ "[]"] exI[of _ p] exI[of _ ps]) simp
    next
      case False
      then have "link_events lid ps = (if concerns lid p then tl xs else xs) @ (ty, d) # ys"
        "concerns lid p \<Longrightarrow> xs = (packet_type p, e) # tl xs"
        using Cons.prems x by (cases xs; auto split: if_splits)+
      then obtain ps1 p' ps2 where "ps = ps1 @ (p', d) # ps2" "link_events lid ps1 = (if concerns lid p then tl xs else xs)"
          "concerns lid p'" "packet_type p' = ty" "link_events lid ps2 = ys"
        using Cons.IH by blast
      then show ?thesis using x \<open>concerns lid p \<Longrightarrow> xs = (packet_type p, e) # tl xs\<close>
        by (intro exI[of _ "x # ps1"] exI[of _ p'] exI[of _ ps2]) auto
    qed
  qed simp
  then show thesis using that by blast
qed

lemma link_events_take: "prefix (link_events lid (take k ps)) (link_events lid ps)"
  by (metis append_take_drop_id link_events_simps(3) prefixI)

lemma link_events_prefix:
  assumes "prefix (link_events lid ps) (data_events ds @ [(Close, None)])"
  obtains (data) k where "link_events lid ps = data_events (take k ds)"
  | (closed) "link_events lid ps = data_events ds @ [(Close, None)]"
proof (cases "prefix (link_events lid ps) (data_events ds)")
  case True
  then obtain k where "link_events lid ps = take k (data_events ds)" by (metis append_eq_conv_conj prefix_def)
  then show ?thesis using data[of k] by (simp add: take_map)
next
  case False
  then show ?thesis using assms closed by (auto simp: prefix_Cons prefix_append)
qed

text \<open>A stream cut off anywhere is some of its packets, then at most a part of the next.\<close>

lemma take_sendable:
  assumes "all_sendable ps"
  shows "\<exists>qs rest. take n (images (wire z) ps) = images (wire z) qs @ rest \<and> all_sendable qs \<and>
    prefix (link_events lid qs) (link_events lid ps) \<and> (rest = [] \<or> cut_off z rest) \<and>
    (length (images (wire z) ps) \<le> n \<longrightarrow> qs = ps)"
proof (cases "length (images (wire z) ps) \<le> n")
  case True
  then show ?thesis using assms by (intro exI[of _ ps] exI[of _ "[]"]) simp
next
  case False
  obtain k m where cut: "take n (images (wire z) ps) = images (wire z) (take k ps) @
        (if k < length ps then take m (case ps ! k of (p, d) \<Rightarrow> wire z p d) else [])"
      "k < length ps \<Longrightarrow> m < length (case ps ! k of (p, d) \<Rightarrow> wire z p d)"
    using take_images by blast
  have ok: "all_sendable (take k ps)" using assms append_take_drop_id[of k ps] all_sendable_simps(3) by metis
  show ?thesis
  proof (cases "k < length ps")
    case True
    obtain p d where pd: "ps ! k = (p, d)" by fastforce
    have "sendable p d" using assms nth_mem[OF True] pd by (auto simp: all_sendable_def list_all_iff)
    then have "cut_off z (take m (wire z p d))" using cut(2)[OF True] pd by (auto simp: cut_off_def)
    then show ?thesis using cut(1) True pd ok link_events_take False
      by (intro exI[of _ "take k ps"] exI[of _ "take m (wire z p d)"]) simp
  next
    case False
    then show ?thesis using cut(1) ok link_events_take \<open>\<not> length (images (wire z) ps) \<le> n\<close>
      by (intro exI[of _ "take k ps"] exI[of _ "[]"]) simp
  qed
qed

section \<open>The receiving loop\<close>

locale receiver =
  fixes z :: zstd
    and exchange :: "rsock \<Rightarrow> 'a gateway_scheme \<Rightarrow> 'a gateway_scheme"
    and dispatch :: "PacketGW \<Rightarrow> bytes option \<Rightarrow> 'a gateway_scheme \<Rightarrow> bool \<times> 'a gateway_scheme"
    and finish :: "'a gateway_scheme \<Rightarrow> 'a gateway_scheme"
  assumes exchange_packet: "read_packet z rs s = (Some (p, d), rs', s') \<Longrightarrow>
      exchange rs s = (case dispatch p d s' of (True, t) \<Rightarrow> exchange rs' t | (False, t) \<Rightarrow> finish t)"
    and exchange_end: "read_packet z rs s = (None, rs', s') \<Longrightarrow> exchange rs s = finish s'"
    and dispatch_other: "link_live lid q s \<Longrightarrow> \<not> concerns lid p \<Longrightarrow> dispatch p d s = (g, t) \<Longrightarrow>
      g \<and> link_live lid q t \<and> pr_links t q = pr_links s q"
    and dispatch_data: "packet_type p = Regular \<Longrightarrow> dispatch p (Some b) s = (True, forward_to_app (link_id p) b s)"
    and dispatch_close: "link_live lid q s \<Longrightarrow> packet_type p = Close \<Longrightarrow> link_id p = lid \<Longrightarrow> dispatch p d s = (g, t) \<Longrightarrow>
      g \<and> link_gone q t \<and> pr_links t q = close_connection (pr_links s q)"
    and dispatch_gone: "link_gone q s \<Longrightarrow> dispatch p d s = (g, t) \<Longrightarrow> link_gone q t \<and> pr_links t q = pr_links s q"
    and finish_link: "pr_links (finish s) q = pr_links s q \<or> pr_links (finish s) q = close_connection (pr_links s q)"
begin

text \<open>A link that is closed and out of the registry stays as it is, whatever bytes still arrive.\<close>

lemma gone_stays:
  "link_gone q s \<Longrightarrow> pr_links s q = close_connection l \<Longrightarrow> pr_links (exchange rs s) q = close_connection l"
proof (induction "length rs" arbitrary: rs s rule: less_induct)
  case less
  obtain x rs' t where r: "read_packet z rs s = (x, rs', t)" by (metis prod.collapse)
  have t: "pr_links t = pr_links s" "gw_links t = gw_links s" "pr_next_link t = pr_next_link s"
    using read_frame[of z rs s x rs' t] r by (simp_all add: read_packet_def)
  have stop: "pr_links (finish u) q = close_connection l" if "pr_links u q = close_connection l" for u
    using finish_link[of u q] that by auto
  show ?case
  proof (cases x)
    case None
    then show ?thesis using exchange_end[of rs s rs' t] r stop t(1) less.prems(2) by simp
  next
    case (Some y)
    obtain p d where y: "y = (p, d)" by fastforce
    obtain g u where d: "dispatch p d t = (g, u)" by fastforce
    have "link_gone q t" using less.prems(1) t by (simp add: link_gone_def)
    then have u: "link_gone q u" "pr_links u q = close_connection l"
      using dispatch_gone d t(1) less.prems(2) by simp_all
    have "length rs' < length rs" using gw.read_consumes[of z rs s "(p, d)" rs' t] r Some y by simp
    then have "pr_links (exchange rs' u) q = close_connection l" using less.hyps u by blast
    then show ?thesis using exchange_packet[of rs s p d rs' t] r Some y d stop[OF u(2)] by (cases g) simp_all
  qed
qed

text \<open>One packet of the stream, and a part of a packet at its end.\<close>

lemma one_packet:
  assumes "zstd_lawful z" and "sendable p d"
  obtains t where "exchange (wire z p d @ rest) s =
      (case dispatch (sent_header z p d) d t of (True, u) \<Rightarrow> exchange rest u | (False, u) \<Rightarrow> finish u)"
    and "pr_links t = pr_links s" and "gw_links t = gw_links s" and "pr_next_link t = pr_next_link s"
proof -
  obtain t where r: "read_gw_packet z (wire z p d @ rest) s = (Some (sent_header z p d, d), rest, t)"
    using read_wire[OF assms] .
  then show ?thesis using that[of t] read_frame[OF r] exchange_packet[of "wire z p d @ rest" s] by (simp add: read_packet_def)
qed

lemma cut_packet:
  assumes "zstd_lawful z" and "sendable p d" and "n < length (wire z p d)"
  obtains t where "exchange (take n (wire z p d)) s = finish t" and "pr_links t = pr_links s"
proof -
  obtain rs t where r: "read_gw_packet z (take n (wire z p d)) s = (None, rs, t)"
    using read_wire_truncated[OF assms, of s] by (cases "read_gw_packet z (take n (wire z p d)) s") auto
  then show ?thesis using that[of t] read_frame(1)[OF r] exchange_end[of "take n (wire z p d)" s] by (simp add: read_packet_def)
qed

lemma nothing_more: "exchange [] s = finish s"
  by (rule exchange_end[of _ _ "[]"]) (simp add: gw.read_end)

lemma data_at_link:
  assumes "zstd_lawful z"
  shows "link_live lid q s \<Longrightarrow> all_sendable ps \<Longrightarrow> link_events lid ps = data_events ds \<Longrightarrow>
    \<exists>t. exchange (images (wire z) ps @ rest) s = exchange rest t \<and> link_live lid q t \<and>
      w_out (link_writer (pr_links t q)) = w_out (link_writer (pr_links s q)) @
        take (w_room (link_writer (pr_links s q))) (concat ds) \<and>
      w_room (link_writer (pr_links t q)) = w_room (link_writer (pr_links s q)) - length (concat ds)"
proof (induction ps arbitrary: s ds)
  case Nil
  then show ?case by (intro exI[of _ s]) simp
next
  case (Cons x ps)
  obtain p d where x: "x = (p, d)" by fastforce
  let ?more = "images (wire z) ps @ rest"
  have ok: "sendable p d" "all_sendable ps" using Cons.prems(2) x by simp_all
  obtain t where t: "exchange (wire z p d @ ?more) s =
      (case dispatch (sent_header z p d) d t of (True, u) \<Rightarrow> exchange ?more u | (False, u) \<Rightarrow> finish u)"
    and same: "pr_links t = pr_links s" "gw_links t = gw_links s" "pr_next_link t = pr_next_link s"
    using one_packet[OF assms ok(1)] .
  have live: "link_live lid q t" using link_live_cong[OF same Cons.prems(1)] .
  obtain g u where u: "dispatch (sent_header z p d) d t = (g, u)" by fastforce
  show ?case
  proof (cases "concerns lid p")
    case False
    then have "g" "link_live lid q u" "pr_links u q = pr_links s q"
      using dispatch_other[OF live _ u] same(1) by simp_all
    moreover have "link_events lid ps = data_events ds" using Cons.prems(3) x False by simp
    ultimately show ?thesis using Cons.IH[OF _ ok(2), of u ds] t u x by simp
  next
    case True
    have ev: "link_events lid ((p, d) # ps) = data_events ds" using Cons.prems(3) x by simp
    obtain b ds' where p: "packet_type p = Regular" "link_id p = lid" "d = Some b" "ds = b # ds'"
        "link_events lid ps = data_events ds'"
      using link_events_data_Cons[OF ev True] .
    then have gu: "g" "u = forward_to_app lid b t" using u by (simp_all add: dispatch_data)
    have conn: "link_state (pr_links t q) = Connected" using live by (simp add: link_live_def)
    have u_live: "link_live lid q u" and u_q: "pr_links u q = link_send_packet (Some b) (pr_links s q)"
      unfolding gu(2) using forward_live[OF live, of b] same(1) by simp_all
    show ?thesis using Cons.IH[OF u_live ok(2) p(5)] t u gu(1) x u_q link_send_out link_send_room conn same(1) p(4)
      by simp
  qed
qed

text \<open>A stream with the \<open>Close\<close> of the link in it: all its data, and the link is closed.\<close>

lemma link_closed:
  assumes "zstd_lawful z" and "link_live lid q s" and "all_sendable ps"
    and "link_events lid ps = data_events ds @ [(Close, None)]"
  shows "\<exists>l. pr_links (exchange (images (wire z) ps @ rest) s) q = close_connection l \<and>
    w_out (link_writer l) = w_out (link_writer (pr_links s q)) @ take (w_room (link_writer (pr_links s q))) (concat ds)"
proof -
  have ev: "link_events lid ps = data_events ds @ (Close, None) # []" using assms(4) by simp
  obtain ps1 p ps2 where split: "ps = ps1 @ (p, None) # ps2" "link_events lid ps1 = data_events ds"
      "concerns lid p" "packet_type p = Close"
    using link_events_split[OF ev] by blast
  have ok: "all_sendable ps1" "sendable p None" using assms(3) split(1) by simp_all
  let ?more = "images (wire z) ps2 @ rest"
  obtain t where t: "exchange (images (wire z) ps1 @ wire z p None @ ?more) s = exchange (wire z p None @ ?more) t"
      "link_live lid q t" "w_out (link_writer (pr_links t q)) = w_out (link_writer (pr_links s q)) @
        take (w_room (link_writer (pr_links s q))) (concat ds)"
    using data_at_link[OF assms(1,2) ok(1) split(2), where rest = "wire z p None @ ?more"] by blast
  obtain u where u: "exchange (wire z p None @ ?more) t =
      (case dispatch (sent_header z p None) None u of (True, v) \<Rightarrow> exchange ?more v | (False, v) \<Rightarrow> finish v)"
      "pr_links u = pr_links t" "gw_links u = gw_links t" "pr_next_link u = pr_next_link t"
    using one_packet[OF assms(1) ok(2)] .
  obtain g v where v: "dispatch (sent_header z p None) None u = (g, v)" by fastforce
  have "link_id p = lid" using split(3,4) by (simp add: concerns_def)
  then have cl: "g" "link_gone q v" "pr_links v q = close_connection (pr_links t q)"
    using dispatch_close[OF link_live_cong[OF u(2-4) t(2)] _ _ v] split(4) u(2) by simp_all
  have "exchange (images (wire z) ps @ rest) s = exchange ?more v" using t(1) u(1) v cl(1) split(1) by simp
  then show ?thesis using gone_stays[OF cl(2,3)] t(3) by (intro exI[of _ "pr_links t q"]) simp
qed

text \<open>A stream without it, and a part of a packet after it: the application keeps what it got.\<close>

lemma link_open:
  assumes "zstd_lawful z" and "link_live lid q s" and "all_sendable ps" and "link_events lid ps = data_events ds"
    and "rest = [] \<or> cut_off z rest"
  shows "w_out (link_writer (pr_links (exchange (images (wire z) ps @ rest) s) q)) =
    w_out (link_writer (pr_links s q)) @ take (w_room (link_writer (pr_links s q))) (concat ds)"
proof -
  obtain t where t: "exchange (images (wire z) ps @ rest) s = exchange rest t"
      "w_out (link_writer (pr_links t q)) = w_out (link_writer (pr_links s q)) @
        take (w_room (link_writer (pr_links s q))) (concat ds)"
    using data_at_link[OF assms(1-4), where rest = rest] by blast
  have "w_out (link_writer (pr_links (finish u) q)) = w_out (link_writer (pr_links u q))" for u
    using finish_link[of u q] by auto
  moreover obtain u where "exchange rest t = finish u" "pr_links u = pr_links t"
    using assms(5) nothing_more cut_packet[OF assms(1)] unfolding cut_off_def by metis
  ultimately show ?thesis using t by simp
qed

text \<open>So of any stream, cut off anywhere, the application gets a first part of its data.\<close>

lemma stream_at_link:
  assumes "zstd_lawful z" and "link_live lid q s" and "all_sendable ps"
    and "prefix (link_events lid ps) (data_events ds @ [(Close, None)])"
    and "s' = exchange (take n (images (wire z) ps)) s"
  shows "\<exists>got. w_out (link_writer (pr_links s' q)) = w_out (link_writer (pr_links s q)) @ got \<and> prefix got (concat ds) \<and>
    (length (images (wire z) ps) \<le> n \<and> link_events lid ps = data_events ds @ [(Close, None)] \<and>
      length (concat ds) \<le> w_room (link_writer (pr_links s q)) \<longrightarrow>
      got = concat ds \<and> link_state (pr_links s' q) = Disconnected)"
proof -
  obtain qs rest where cut: "take n (images (wire z) ps) = images (wire z) qs @ rest" "all_sendable qs"
      "prefix (link_events lid qs) (link_events lid ps)" "rest = [] \<or> cut_off z rest"
      "length (images (wire z) ps) \<le> n \<Longrightarrow> qs = ps"
    using take_sendable[OF assms(3), of n z lid] by blast
  have pre: "prefix (link_events lid qs) (data_events ds @ [(Close, None)])"
    using prefix_order.trans[OF cut(3) assms(4)] .
  let ?room = "w_room (link_writer (pr_links s q))"
  show ?thesis
  proof (cases rule: link_events_prefix[OF pre])
    case (1 j)
    have "prefix (take ?room (concat (take j ds))) (concat ds)"
      by (metis append_take_drop_id concat_append prefix_order.trans prefixI)
    moreover have "link_events lid ps \<noteq> data_events ds @ [(Close, None)]" if "length (images (wire z) ps) \<le> n"
      using 1 cut(5)[OF that] by (auto dest!: arg_cong[where f = "\<lambda>l. (Close, None) \<in> set l"])
    ultimately show ?thesis using link_open[OF assms(1,2) cut(2) 1 cut(4)]
      unfolding assms(5) cut(1) by (intro exI[of _ "take ?room (concat (take j ds))"]) auto
  next
    case 2
    then show ?thesis using link_closed[OF assms(1,2) cut(2) 2, of rest]
      unfolding assms(5) cut(1) by (intro exI[of _ "take ?room (concat ds)"]) (auto simp: take_is_prefix)
  qed
qed

text \<open>
  The conversation of a link, as the tasks of the other gateway have it, at the receiving end:
  \<open>after\<close> is what they still had to say when the bytes were taken.
\<close>

lemma conversation_delivered:
  assumes "zstd_lawful z" and "link_live lid q s" and "all_sendable ps"
    and "puts k (images (wire z) ps) k'" and "w_out k' = w_out k @ sent"
    and "said lid ps (data_events ds @ [(Close, None)]) after k'" and "s' = exchange sent s"
  obtains got where "w_out (link_writer (pr_links s' q)) = w_out (link_writer (pr_links s q)) @ got"
    and "prefix got (concat ds)"
    and "after = [] \<Longrightarrow> w_room k' > 0 \<Longrightarrow> length (concat ds) \<le> w_room (link_writer (pr_links s q)) \<Longrightarrow>
      got = concat ds \<and> link_state (pr_links s' q) = Disconnected"
proof -
  have pre: "prefix (link_events lid ps) (data_events ds @ [(Close, None)])"
    using assms(6) unfolding said_def by (metis prefixI)
  obtain n where n: "sent = take n (images (wire z) ps)" and alive: "w_room k' > 0 \<Longrightarrow> length (images (wire z) ps) \<le> n"
    using assms(4,5) unfolding puts_def by (metis append_same_eq le_refl less_numeral_extra(3) same_append_eq take_all)
  have "link_events lid ps = data_events ds @ [(Close, None)]" if "after = []" "w_room k' > 0"
    using assms(6) that unfolding said_def by simp
  moreover obtain got where "w_out (link_writer (pr_links s' q)) = w_out (link_writer (pr_links s q)) @ got"
      "prefix got (concat ds)"
    and "length (images (wire z) ps) \<le> n \<and> link_events lid ps = data_events ds @ [(Close, None)] \<and>
      length (concat ds) \<le> w_room (link_writer (pr_links s q)) \<longrightarrow>
      got = concat ds \<and> link_state (pr_links s' q) = Disconnected"
    using stream_at_link[OF assms(1-3) pre, of s' n] assms(7) n by blast
  ultimately show thesis using that alive by simp
qed

end

section \<open>The exchange loop of the client\<close>

text \<open>A new application connection is a new link.\<close>

lemma connect_client_leaves:
  assumes "q < pr_next_link s"
  shows "leaves_alone q s (connect_client z l w s)"
    and "lid \<noteq> l \<Longrightarrow> fmlookup (gw_links (connect_client z l w s)) lid = fmlookup (gw_links s) lid"
  using assms by (auto simp: connect_client_def connect_app_def alloc_link_def add_link_eq send_opened_def
      send_open_fail_def next_packet_id_eq spawn_def leaves_alone_def Let_def split: list.split option.split)

lemma send_pong_links [simp]:
  "pr_links (send_pong z w i s) = pr_links s" "gw_links (send_pong z w i s) = gw_links s"
  "pr_next_link (send_pong z w i s) = pr_next_link s"
  by (simp_all add: send_pong_def next_packet_id_eq Let_def)

lemma dispatch_close:
  "packet_type p = Close \<Longrightarrow> client_dispatch z w p d s =
     (True, case fmlookup (gw_links s) (link_id p) of
        Some r \<Rightarrow> update_link r close_connection (snd (gw_remove_link (link_id p) s))
      | None \<Rightarrow> snd (gw_remove_link (link_id p) s))"
  by (simp add: client_dispatch_def case_prod_beta split: option.split)

lemma dispatch_regular:
  "packet_type p = Regular \<Longrightarrow> client_dispatch z w p d s =
     (True, case d of Some b \<Rightarrow> forward_to_app (link_id p) b s | None \<Rightarrow> s)"
  by (simp add: client_dispatch_def split: option.split)

lemma dispatch_control:
  assumes "packet_type p \<notin> {Open, Regular, Close}" and "client_dispatch z w p d s = (g, s')"
  shows "pr_links s' = pr_links s" "gw_links s' = gw_links s" "pr_next_link s' = pr_next_link s"
    "g \<longleftrightarrow> packet_type p \<noteq> GwDeny"
  using assms by (cases "packet_type p"; auto simp: client_dispatch_def update_keepalive_def Let_def)+

lemma client_dispatch_leaves:
  assumes "q < pr_next_link s" and "packet_type p \<in> {Regular, Close} \<Longrightarrow> fmlookup (gw_links s) (link_id p) \<noteq> Some q"
    and "client_dispatch z w p d s = (g, s')"
  shows "leaves_alone q s s'"
proof -
  consider (closes) "packet_type p = Close" | (opens) "packet_type p = Open" | (regular) "packet_type p = Regular"
    | (control) "packet_type p \<notin> {Open, Regular, Close}" by blast
  then show ?thesis
  proof cases
    case closes
    then have s': "s' = (case fmlookup (gw_links s) (link_id p) of
        Some r \<Rightarrow> update_link r close_connection (snd (gw_remove_link (link_id p) s))
      | None \<Rightarrow> snd (gw_remove_link (link_id p) s))" using assms(3) by (simp add: dispatch_close)
    show ?thesis
    proof (cases "fmlookup (gw_links s) (link_id p)")
      case None
      then show ?thesis using s' leaves_remove by simp
    next
      case (Some r)
      then show ?thesis using s' leaves_trans[OF leaves_remove leaves_update] assms(2) closes by simp
    qed
  next
    case opens
    then show ?thesis using assms(3) connect_client_leaves(1)[OF assms(1)] by (auto simp: client_dispatch_def)
  next
    case regular
    then show ?thesis using assms(2,3) forward_elsewhere
      by (auto simp: dispatch_regular leaves_fields split: option.splits)
  next
    case control
    then show ?thesis using dispatch_control[OF _ assms(3)] by (intro leaves_fields) simp_all
  qed
qed

lemma client_dispatch_other:
  assumes "link_live lid q s" and "\<not> concerns lid p" and "client_dispatch z w p d s = (g, s')"
  shows "g" and "link_live lid q s'" and "pr_links s' q = pr_links s q"
proof -
  have other: "packet_type p \<in> {Open, Regular, Close} \<Longrightarrow> link_id p \<noteq> lid" and nd: "packet_type p \<noteq> GwDeny"
    using assms(2) by (auto simp: concerns_def)
  have q: "q < pr_next_link s" "\<And>l. fmlookup (gw_links s) l = Some q \<Longrightarrow> l = lid"
    using assms(1) by (auto simp: link_live_def)
  have leaves: "leaves_alone q s s'"
    using client_dispatch_leaves[OF q(1) _ assms(3)] q(2) other by blast
  have "g \<and> fmlookup (gw_links s') lid = fmlookup (gw_links s) lid"
  proof (cases "packet_type p \<in> {Open, Regular, Close}")
    case False
    then show ?thesis using dispatch_control[OF False assms(3)] nd by simp
  next
    case True
    then consider "packet_type p = Open" | "packet_type p = Regular" | "packet_type p = Close" by blast
    then show ?thesis
    proof cases
      case 1
      then show ?thesis using assms(3) connect_client_leaves(2)[OF q(1)] other by (auto simp: client_dispatch_def)
    next
      case 2
      then show ?thesis using assms(3) by (auto simp: dispatch_regular split: option.splits)
    next
      case 3
      then show ?thesis using assms(3) other by (auto simp: dispatch_close gw_remove_link_eq split: option.splits)
    qed
  qed
  then show "g" "link_live lid q s'" using leaves_live[OF leaves _ assms(1)] by simp_all
  show "pr_links s' q = pr_links s q" using leaves by (simp add: leaves_alone_def)
qed

lemma close_live:
  assumes "link_live lid q s" and "packet_type p = Close" and "link_id p = lid"
    and "client_dispatch z w p d s = (g, s')"
  shows "g" and "link_gone q s'" and "pr_links s' q = close_connection (pr_links s q)"
proof -
  have q: "fmlookup (gw_links s) lid = Some q" using assms(1) by (simp add: link_live_def)
  then have s': "g \<and> s' = update_link q close_connection (snd (gw_remove_link lid s))"
    using assms(2-4) by (simp add: dispatch_close)
  then show "g" "pr_links s' q = close_connection (pr_links s q)" by (simp_all add: gw_remove_link_eq)
  show "link_gone q s'" using assms(1) s' by (auto simp: link_gone_def link_live_def gw_remove_link_eq update_link_def)
qed

interpretation client_end: receiver z "\<lambda>rs s. snd (gateway_exchange z w rs s)" "client_dispatch z w" "\<lambda>s. s" for z w
proof
  fix rs rs' :: rsock and s s' :: client and p d
  assume "read_packet z rs s = (Some (p, d), rs', s')"
  then show "snd (gateway_exchange z w rs s) = (case client_dispatch z w p d s' of
      (True, t) \<Rightarrow> snd (gateway_exchange z w rs' t) | (False, t) \<Rightarrow> t)"
    by (simp add: gateway_exchange_eq[of z w rs s] split: prod.split bool.split)
next
  fix q p d g and s t :: client
  assume gone: "link_gone q s" and d: "client_dispatch z w p d s = (g, t)"
  have "leaves_alone q s t" by (rule client_dispatch_leaves[OF _ _ d]) (use gone in \<open>auto simp: link_gone_def\<close>)
  then show "link_gone q t \<and> pr_links t q = pr_links s q" using leaves_gone[OF _ gone] by (simp add: leaves_alone_def)
qed (auto simp: gateway_exchange_eq[of z w] dispatch_regular dest: client_dispatch_other close_live)

section \<open>The exchange loop of the server\<close>

lemma server_dispatch_regular:
  "packet_type p = Regular \<Longrightarrow> server_dispatch z w p d s =
     (True, case d of Some b \<Rightarrow> forward_to_app (link_id p) b s | None \<Rightarrow> s)"
  by (simp add: server_dispatch_def forward_to_app_def split: option.split)

lemma remove_link_eq:
  "remove_link lid s = (case fmlookup (gw_links s) lid of
     None \<Rightarrow> snd (gw_remove_link lid (s\<lparr>sv_link_clients := fmdrop lid (sv_link_clients s)\<rparr>))
   | Some r \<Rightarrow> update_link r close_connection (snd (gw_remove_link lid (s\<lparr>sv_link_clients := fmdrop lid (sv_link_clients s)\<rparr>))))"
  by (simp add: remove_link_def gw_remove_link_eq Let_def split: option.split)

text \<open>The server registers no link here, so its packets only remove.\<close>

lemma server_dispatch_registry:
  assumes "server_dispatch z w p d s = (g, t)"
  shows "pr_next_link t = pr_next_link s"
    and "gw_links t = (if packet_type p \<in> {Close, OpenFail} then fmdrop (link_id p) (gw_links s) else gw_links s)"
    and "g \<longleftrightarrow> packet_type p \<noteq> GwDeny"
    and "packet_type p \<in> {Regular, Opened, OpenFail, Close} \<longrightarrow> fmlookup (gw_links s) (link_id p) \<noteq> Some q \<Longrightarrow>
      pr_links t q = pr_links s q"
  using assms by (cases "packet_type p"; auto simp: server_dispatch_def remove_link_eq gw_remove_link_eq
      split: option.splits)+

lemma server_dispatch_other:
  assumes "link_live lid q s" and "\<not> concerns lid p" and "server_dispatch z w p d s = (g, t)"
  shows "g \<and> link_live lid q t \<and> pr_links t q = pr_links s q"
proof -
  note reg = server_dispatch_registry[OF assms(3)]
  have other: "packet_type p \<in> {Regular, Opened, OpenFail, Close} \<longrightarrow> link_id p \<noteq> lid" "packet_type p \<noteq> GwDeny"
    using assms(2) by (auto simp: concerns_def)
  have "packet_type p \<in> {Regular, Opened, OpenFail, Close} \<longrightarrow> fmlookup (gw_links s) (link_id p) \<noteq> Some q"
    using other(1) assms(1) by (auto simp: link_live_def)
  then have q: "pr_links t q = pr_links s q" by (rule reg(4))
  have "fmlookup (gw_links t) lid = fmlookup (gw_links s) lid" using reg(2) other(1) by auto
  moreover have "\<And>l r. fmlookup (gw_links t) l = Some r \<Longrightarrow> fmlookup (gw_links s) l = Some r"
    using reg(2) by (auto split: if_splits)
  ultimately have "link_live lid q t" using assms(1) q reg(1) unfolding link_live_def by metis
  then show ?thesis using q reg(3) other(2) by simp
qed

lemma server_close_live:
  assumes "link_live lid q s" and "packet_type p = Close" and "link_id p = lid"
    and "server_dispatch z w p d s = (g, t)"
  shows "g \<and> link_gone q t \<and> pr_links t q = close_connection (pr_links s q)"
proof -
  have q: "fmlookup (gw_links s) lid = Some q" using assms(1) by (simp add: link_live_def)
  then have t: "g" "t = update_link q close_connection (snd (gw_remove_link lid (s\<lparr>sv_link_clients := fmdrop lid (sv_link_clients s)\<rparr>)))"
    using assms(2-4) by (simp_all add: server_dispatch_def remove_link_eq)
  have "link_gone q t" using assms(1) unfolding t(2) by (auto simp: link_gone_def link_live_def gw_remove_link_eq update_link_def)
  then show ?thesis using t by (simp add: gw_remove_link_eq)
qed

lemma server_dispatch_gone:
  assumes "link_gone q s" and "server_dispatch z w p d s = (g, t)"
  shows "link_gone q t \<and> pr_links t q = pr_links s q"
proof -
  note reg = server_dispatch_registry[OF assms(2)]
  have "pr_links t q = pr_links s q" by (rule reg(4)) (use assms(1) in \<open>auto simp: link_gone_def\<close>)
  moreover have "\<And>l r. fmlookup (gw_links t) l = Some r \<Longrightarrow> fmlookup (gw_links s) l = Some r"
    using reg(2) by (auto split: if_splits)
  ultimately show ?thesis using assms(1) reg(1) unfolding link_gone_def by metis
qed

lemma client_exchange_eq:
  "client_exchange z ho a i w rs s =
     (case read_packet z rs s of
        (Some (p, d), rs', s') \<Rightarrow>
          (case server_dispatch z w p d s' of
             (True, t) \<Rightarrow> client_exchange z ho a i w rs' t
           | (False, t) \<Rightarrow> cleanup_client ho a i t)
      | (None, rs', s') \<Rightarrow> cleanup_client ho a i s')"
  by (simp add: client_exchange.simps[of z ho a i w rs s] client_turn_def split: prod.split option.split bool.split)

interpretation server_end: receiver z "client_exchange z ho a i w" "server_dispatch z w" "cleanup_client ho a i"
  for z ho a i w
proof
  fix rs rs' :: rsock and s s' :: server and p d
  assume "read_packet z rs s = (Some (p, d), rs', s')"
  then show "client_exchange z ho a i w rs s = (case server_dispatch z w p d s' of
      (True, t) \<Rightarrow> client_exchange z ho a i w rs' t | (False, t) \<Rightarrow> cleanup_client ho a i t)"
    by (simp add: client_exchange_eq[of z ho a i w rs s])
qed (auto simp: client_exchange_eq[of z ho a i w] server_dispatch_regular cleanup_links
    dest: server_dispatch_other server_close_live server_dispatch_gone)

end
