(* ===== verification/Delivery.thy ===== *)
theory Delivery
  imports Receiving
begin

text \<open>
  What the two receiving gateways have in common when the delivery of a stream is followed step by
  step, with other tasks in between: which steps leave a link alone, what its application has got so
  far, and what one packet of the stream does.
\<close>

section \<open>Steps that leave a link alone\<close>

text \<open>The writer and the state of a link stay, and entries of the registry are old or for new links.\<close>

definition holds :: "lref \<Rightarrow> 'a gateway_scheme \<Rightarrow> 'a gateway_scheme \<Rightarrow> bool" where
  "holds q s s' \<longleftrightarrow> link_writer (pr_links s' q) = link_writer (pr_links s q) \<and>
     link_state (pr_links s' q) = link_state (pr_links s q) \<and> pr_next_link s \<le> pr_next_link s' \<and>
     (\<forall>l r. fmlookup (gw_links s') l = Some r \<longrightarrow>
       fmlookup (gw_links s) l = Some r \<or> pr_next_link s \<le> r \<and> r < pr_next_link s')"

lemma holds_leaves: "leaves_alone q s s' \<Longrightarrow> holds q s s'"
  by (simp add: leaves_alone_def holds_def)

lemma holds_gone: 
  assumes "holds q s s'" and "link_gone q s"
  shows "link_gone q s'"
proof -
  have "r < pr_next_link s' \<and> r \<noteq> q" if "fmlookup (gw_links s') l = Some r" for l r
    using that assms unfolding holds_def link_gone_def by (metis leD order_less_le_trans)
  moreover have "q < pr_next_link s'" using assms unfolding holds_def link_gone_def
    by (meson order_less_le_trans)
  ultimately show ?thesis unfolding link_gone_def by blast
qed

text \<open>A live link stays live as long as its number leads to it.\<close>

lemma holds_live:
  assumes "holds q s s'" and "link_live lid q s"
  shows "if fmlookup (gw_links s') lid = Some q then link_live lid q s' else link_gone q s'"
proof -
  have h: "link_state (pr_links s' q) = link_state (pr_links s q)" "pr_next_link s \<le> pr_next_link s'"
      "\<And>l r. fmlookup (gw_links s') l = Some r \<Longrightarrow>
        fmlookup (gw_links s) l = Some r \<or> pr_next_link s \<le> r \<and> r < pr_next_link s'"
    using assms(1) unfolding holds_def by blast+
  have l: "link_state (pr_links s q) = Connected" "q < pr_next_link s"
      "\<And>l r. fmlookup (gw_links s) l = Some r \<Longrightarrow> r < pr_next_link s \<and> (r = q \<longrightarrow> l = lid)"
    using assms(2) unfolding link_live_def by blast+
  have old: "r < pr_next_link s' \<and> (r = q \<longrightarrow> x = lid)" if "fmlookup (gw_links s') x = Some r" for x r
  proof (cases "fmlookup (gw_links s) x = Some r")
    case True
    then show ?thesis using l(3)[OF True] h(2) by simp
  next
    case False
    then show ?thesis using h(3)[OF that] l(2) by simp
  qed
  have nq: "q < pr_next_link s'" using h(2) l(2) by simp
  show ?thesis
  proof (cases "fmlookup (gw_links s') lid = Some q")
    case True
    have "\<forall>x r. fmlookup (gw_links s') x = Some r \<longrightarrow> r < pr_next_link s' \<and> (r = q \<longrightarrow> x = lid)"
      using old by blast
    moreover have "link_state (pr_links s' q) = Connected" using h(1) l(1) by simp
    ultimately have "link_live lid q s'" unfolding link_live_def using True nq by blast
    then show ?thesis using True by simp
  next
    case False
    have "r < pr_next_link s' \<and> r \<noteq> q" if "fmlookup (gw_links s') x = Some r" for x r
      using old[OF that] that False by blast
    then have "link_gone q s'" using nq unfolding link_gone_def by blast
    then show ?thesis using False by simp
  qed
qed

lemma link_gone_cong:
  "gw_links t = gw_links s \<Longrightarrow> pr_next_link t = pr_next_link s \<Longrightarrow> link_gone q s \<Longrightarrow> link_gone q t"
  by (simp add: link_gone_def)

section \<open>What the application has got\<close>

text \<open>
  \<open>b\<close> before, and of the data \<open>es\<close> what its connection took of it, with room for \<open>k\<close> bytes at the
  start.
\<close>

definition received :: "bytes \<Rightarrow> nat \<Rightarrow> bytes list \<Rightarrow> link \<Rightarrow> bool" where
  "received b k es l \<longleftrightarrow> w_out (link_writer l) = b @ take k (concat es) \<and>
     (link_state l = Connected \<longrightarrow> w_room (link_writer l) = k - length (concat es))"

text \<open>What is left of a stream of data and a final \<open>Close\<close> after some of the data.\<close>

lemma data_prefix:
  "prefix (data_events es @ tail) (data_events ds @ [(Close, None)]) \<Longrightarrow>
     \<exists>zs. ds = es @ zs \<and> prefix tail (data_events zs @ [(Close, None)])"
proof (induction ds arbitrary: es)
  case Nil
  then show ?case by (cases es) (auto simp: prefix_Cons)
next
  case (Cons c ds)
  show ?case
  proof (cases es)
    case Nil
    then show ?thesis using Cons.prems by (intro exI[of _ "c # ds"]) simp
  next
    case (Cons e es')
    then show ?thesis using Cons.IH[of es'] Cons.prems by auto
  qed
qed

text \<open>The next thing that a stream of data and a final \<open>Close\<close> says.\<close>

lemma next_event:
  assumes "prefix (data_events es @ (ty, d) # tail) (data_events ds @ [(Close, None)])"
  shows "ty = Regular \<and> (\<exists>c. d = Some c) \<or> ty = Close \<and> d = None \<and> tail = []"
  using assms
proof (induction ds arbitrary: es)
  case Nil
  then show ?case by (cases es) auto
next
  case (Cons c ds)
  then show ?case by (cases es) auto
qed

lemma wire_nonempty: "wire z p d \<noteq> []"
proof
  assume "wire z p d = []"
  then have "to_bytes (fst (prepare_packet z p d)) = []" by (simp add: wire_def case_prod_beta)
  then show False by (metis length_to_bytes list.size(3) zero_neq_numeral)
qed

section \<open>One packet of the stream\<close>

context receiver
begin

lemma packet_at_link:
  assumes live: "link_live lid q v" and got: "received b k es (pr_links v q)"
    and ev: "prefix (data_events es @ link_events lid ((p, d) # ms)) (data_events ds @ [(Close, None)])"
    and u: "dispatch (sent_header z p d) d v = (g, s')"
  shows "g \<and>
    ((\<exists>fs. data_events es @ link_events lid ((p, d) # ms) = data_events fs @ link_events lid ms \<and> link_live lid q s' \<and>
        received b k fs (pr_links s' q)) \<or>
     link_events lid ((p, d) # ms) = [(Close, None)] \<and> link_gone q s' \<and> pr_links s' q = close_connection (pr_links v q))"
proof (cases "concerns lid p")
  case False
  then show ?thesis using dispatch_other[OF live _ u] got by (auto intro!: exI[of _ es])
next
  case True
  then have "packet_type p = Regular \<and> (\<exists>c. d = Some c) \<or> packet_type p = Close \<and> d = None \<and> link_events lid ms = []"
    using next_event[of es "packet_type p" d "link_events lid ms" ds] ev by simp
  moreover have "link_id p = lid" if "packet_type p \<in> {Regular, Close}"
    using True that by (auto simp: concerns_def)
  ultimately consider (data) c where "packet_type p = Regular" "d = Some c" "link_id p = lid"
    | (close) "packet_type p = Close" "d = None" "link_events lid ms = []" "link_id p = lid" by auto
  then show ?thesis
  proof cases
    case data
    then have gu: "g" "s' = forward_to_app lid c v" using u by (simp_all add: dispatch_data)
    have "link_state (pr_links v q) = Connected" using live by (simp add: link_live_def)
    then have "received b k (es @ [c]) (pr_links s' q)"
      using got forward_live(2)[OF live, of c] unfolding gu(2)
      by (simp add: received_def link_send_out link_send_room)
    moreover have "link_live lid q s'" using forward_live(1)[OF live, of c] gu(2) by simp
    ultimately show ?thesis using gu(1) data True by (intro conjI disjI1 exI[of _ "es @ [c]"]) simp_all
  next
    case close
    then show ?thesis using dispatch_close[OF live _ _ u] True by simp
  qed
qed

end

section \<open>The end of the stream\<close>

text \<open>What was written of the data of the stream, and when it was all.\<close>

lemma received_part:
  assumes "prefix ev (data_events ds @ [(Close, None)])" and "ev = data_events es @ tail"
  shows "prefix (take k (concat es)) (concat ds)"
proof -
  obtain zs where "ds = es @ zs" using data_prefix[of es tail ds] assms by auto
  then show ?thesis using prefix_order.trans[OF take_is_prefix, of "concat es" "concat ds" k] by simp
qed

lemma close_not_data: "data_events ds @ [(Close, None)] \<noteq> data_events es"
  by (auto dest!: arg_cong[where f = "\<lambda>l. (Close, None) \<in> set l"])

lemma received_all:
  assumes "data_events ds @ [(Close, None)] = data_events es @ tail" and "tail = [] \<or> tail = [(Close, None)]"
  shows "es = ds"
proof -
  have "tail = [(Close, None)]" using assms close_not_data[of ds es] by (metis append_Nil2)
  then show ?thesis using assms(1) by (auto dest: map_injective simp: inj_on_def)
qed

section \<open>What was sent\<close>

text \<open>
  The bytes of a conversation that are on the connection: packets, cut off at the end if the connection
  broke; of the link they say a first part, and everything when its task has ended.
\<close>

lemma sent_stream:
  assumes "all_sendable ps" and "puts k (images (wire z) ps) k'" and "w_out k' = w_out k @ sent"
    and "said lid ps (data_events ds @ [(Close, None)]) after k'"
  obtains qs rest where "sent = images (wire z) qs @ rest" and "all_sendable qs" and "rest = [] \<or> cut_off z rest"
    and "prefix (link_events lid qs) (data_events ds @ [(Close, None)])"
    and "after = [] \<and> w_room k' > 0 \<longrightarrow> rest = [] \<and> link_events lid qs = data_events ds @ [(Close, None)]"
proof -
  obtain n where n: "sent = take n (images (wire z) ps)" and alive: "w_room k' > 0 \<Longrightarrow> length (images (wire z) ps) \<le> n"
    using assms(2,3) unfolding puts_def by (metis append_same_eq le_refl less_numeral_extra(3) same_append_eq take_all)
  obtain qs rest where cut: "take n (images (wire z) ps) = images (wire z) qs @ rest" "all_sendable qs"
      "prefix (link_events lid qs) (link_events lid ps)" "rest = [] \<or> cut_off z rest"
      "length (images (wire z) ps) \<le> n \<longrightarrow> qs = ps"
    using take_sendable[OF assms(1), of n z lid] by blast
  show thesis
  proof (rule that)
    show "sent = images (wire z) qs @ rest" using n cut(1) by simp
    show "all_sendable qs" "rest = [] \<or> cut_off z rest" by (fact cut(2), fact cut(4))
    have "prefix (link_events lid ps) (data_events ds @ [(Close, None)])" using assms(4) unfolding said_def by (metis prefixI)
    then show "prefix (link_events lid qs) (data_events ds @ [(Close, None)])" by (rule prefix_order.trans[OF cut(3)])
    show "after = [] \<and> w_room k' > 0 \<longrightarrow> rest = [] \<and> link_events lid qs = data_events ds @ [(Close, None)]"
    proof (intro impI conjI)
      assume fin: "after = [] \<and> w_room k' > 0"
      then have all: "qs = ps" "take n (images (wire z) ps) = images (wire z) ps" using cut(5) alive by simp_all
      then show "rest = []" using cut(1) by simp
      show "link_events lid qs = data_events ds @ [(Close, None)]" using assms(4) fin all(1) unfolding said_def by simp
    qed
  qed
qed

end
