(* ===== verification/Client_Delivery.thy ===== *)
theory Client_Delivery
  imports Client_System Delivery
begin

text \<open>
  The receiving end among the other tasks of the client. While the main task reads the packets of
  the server, pings, other applications, tasks of earlier connections and the task of the link
  itself run in between; the application of the link still gets the data of its packets in order.
\<close>

section \<open>What the other tasks leave alone\<close>

lemma holds_keeps:
  fixes s s' :: client
  assumes "client_keeps s s'" and "link_writer (pr_links s' q) = link_writer (pr_links s q)"
    and "link_state (pr_links s' q) = link_state (pr_links s q)"
  shows "holds q s s'"
  using assms unfolding client_keeps_def holds_def by simp

lemma app_turn_holds: "client_app_turn z r w s = (g, s') \<Longrightarrow>
    link_writer (pr_links s' q) = link_writer (pr_links s q) \<and> link_state (pr_links s' q) = link_state (pr_links s q)"
  by (auto simp: client_app_turn_def next_packet_id_eq Let_def case_prod_beta split: sum.splits if_splits)

lemma other_task_holds:
  assumes "client_thread_step z order h t s us s'" and "\<not> is_main t"
  shows "holds q s s'" and "client_keeps s s'" and "set (of_all serves us) \<subseteq> set (serves t)"
    and "list_all (\<lambda>u. \<not> is_main u) us"
    and "(\<And>r w. t = Finishing r w \<Longrightarrow> connection_id (pr_links s r) \<noteq> lid) \<Longrightarrow>
      fmlookup (gw_links s') lid = fmlookup (gw_links s) lid"
proof -
  have "holds q s s' \<and> client_keeps s s' \<and> set (of_all serves us) \<subseteq> set (serves t) \<and> list_all (\<lambda>u. \<not> is_main u) us \<and>
      ((\<forall>r w. t = Finishing r w \<longrightarrow> connection_id (pr_links s r) \<noteq> lid) \<longrightarrow>
        fmlookup (gw_links s') lid = fmlookup (gw_links s) lid)"
    using assms
  proof cases
    case (pinged w)
    then have "pr_links s' = pr_links s" "gw_links s' = gw_links s"
      by (auto simp: ping_turn_def next_packet_id_eq Let_def case_prod_beta update_keepalive_def split: if_splits)
    then show ?thesis using pinged client_keeps_ping[OF pinged(3)] holds_keeps[of s s' q] by simp
  next
    case (ping_failed w)
    then have "pr_links s' = pr_links s" "gw_links s' = gw_links s"
      by (auto simp: ping_turn_def next_packet_id_eq Let_def case_prod_beta update_keepalive_def split: if_splits)
    then show ?thesis using ping_failed client_keeps_ping[OF ping_failed(3)] holds_keeps[of s s' q] by simp
  next
    case (app_forwarded r w)
    have "gw_links s' = gw_links s" using app_forwarded(3)
      by (auto simp: client_app_turn_def next_packet_id_eq Let_def case_prod_beta split: sum.splits if_splits)
    then show ?thesis using app_forwarded app_turn_holds[OF app_forwarded(3), of q]
        client_keeps_app_turn[OF app_forwarded(3)] holds_keeps[of s s' q] by simp
  next
    case (app_exhausted r w)
    have "gw_links s' = gw_links s" using app_exhausted(3)
      by (auto simp: client_app_turn_def next_packet_id_eq Let_def case_prod_beta split: sum.splits if_splits)
    then show ?thesis using app_exhausted app_turn_holds[OF app_exhausted(3), of q]
        client_keeps_app_turn[OF app_exhausted(3)] holds_keeps[of s s' q] by simp
  next
    case (app_finished r w)
    then have "pr_links s' = pr_links s" "gw_links s' = fmdrop (connection_id (pr_links s r)) (gw_links s)"
      by (simp_all add: client_app_end_def gw_remove_link_eq next_packet_id_eq Let_def case_prod_beta)
    then show ?thesis using app_finished client_keeps_app_end[of s z r w] holds_keeps[of s s' q] by simp
  qed simp_all
  then show "holds q s s'" "client_keeps s s'" "set (of_all serves us) \<subseteq> set (serves t)"
      "list_all (\<lambda>u. \<not> is_main u) us"
      "(\<And>r w. t = Finishing r w \<Longrightarrow> connection_id (pr_links s r) \<noteq> lid) \<Longrightarrow>
        fmlookup (gw_links s') lid = fmlookup (gw_links s) lid"
    by auto
qed

section \<open>A link that is no longer registered\<close>

lemma gone_turn:
  assumes "gateway_turn z w rs s = (g, rs', s')" and "link_gone q s"
  shows "link_gone q s' \<and> pr_links s' q = pr_links s q"
proof -
  obtain x rs2 t where r: "read_packet z rs s = (x, rs2, t)" by (metis prod.collapse)
  have t: "pr_links t = pr_links s" "gw_links t = gw_links s" "pr_next_link t = pr_next_link s"
    using read_frame[of z rs s x rs2 t] r by (simp_all add: read_packet_def)
  then have gone: "link_gone q t" using assms(2) by (simp add: link_gone_def)
  show ?thesis
  proof (cases x)
    case None
    then show ?thesis using assms r t gone by (simp add: gateway_turn_def)
  next
    case (Some y)
    then obtain p d where "x = Some (p, d)" by (cases y) simp
    then have "client_dispatch z w p d t = (g, s')" using assms(1) r by (simp add: gateway_turn_def split: prod.splits)
    then show ?thesis using client_end.dispatch_gone[OF gone] t(1) by simp
  qed
qed

lemma authenticate_keeps_links:
  assumes "gw_authenticate h w rs s = (ok, rs', s')"
  shows "pr_links s' = pr_links s" and "gw_links s' = gw_links s" and "pr_next_link s' = pr_next_link s"
proof -
  have "s' = s \<or> (\<exists>nonce. s' = snd (send_auth_response h w nonce s))"
    using assms by (auto simp: gw_authenticate_def split: prod.splits option.splits if_splits) (metis snd_conv)+
  moreover have "pr_links (snd (send_auth_response h w nonce s)) = pr_links s \<and>
      gw_links (snd (send_auth_response h w nonce s)) = gw_links s \<and>
      pr_next_link (snd (send_auth_response h w nonce s)) = pr_next_link s" for nonce
    by (simp add: send_auth_response_def next_packet_id_eq gw_write_eq Let_def case_prod_beta)
  ultimately show "pr_links s' = pr_links s" "gw_links s' = gw_links s" "pr_next_link s' = pr_next_link s" by auto
qed

lemma gone_step:
  assumes "order_lawful order" and "client_thread_step z order h t s us s'" and "link_gone q s"
  shows "link_gone q s' \<and> link_writer (pr_links s' q) = link_writer (pr_links s q) \<and>
    link_state (pr_links s' q) = link_state (pr_links s q)"
proof (cases "is_main t")
  case False
  then show ?thesis using other_task_holds(1)[OF assms(2), of q] holds_gone assms(3) by (auto simp: holds_def)
next
  case True
  show ?thesis using assms(2)
  proof cases
    case (dialled k w)
    then have "pr_links s' = pr_links s" "gw_links s' = gw_links s" "pr_next_link s' = pr_next_link s"
      by (auto simp: begin_connection_def alloc_writer_def Let_def)
    then show ?thesis using link_gone_cong assms(3) by metis
  next
    case (proved w rs rs' s1)
    then have "pr_links s' = pr_links s" "gw_links s' = gw_links s" "pr_next_link s' = pr_next_link s"
      using authenticate_keeps_links[OF proved(4)] by (simp_all add: begin_exchange_def spawn_def Let_def)
    then show ?thesis using link_gone_cong assms(3) by metis
  next
    case (refused w rs rs' s1)
    then have "pr_links s' = pr_links s" "gw_links s' = gw_links s" "pr_next_link s' = pr_next_link s"
      using authenticate_keeps_links[OF refused(4)] by (simp_all add: abandon_connection_def Let_def)
    then show ?thesis using link_gone_cong assms(3) by metis
  next
    case (exchanged w rs rs')
    then show ?thesis using gone_turn[OF exchanged(3) assms(3)] by simp
  next
    case (server_lost w rs rs')
    then show ?thesis using gone_turn[OF server_lost(3) assms(3)] by simp
  next
    case reset
    have "q |\<notin>| fmran (gw_links s)" using assms(3) by (auto simp: link_gone_def fmlookup_ran_iff)
    then show ?thesis using reset assms(3) close_all_links_eq[OF order_drains[OF assms(1)], of s]
      by (simp add: client_on_disconnection_def link_gone_def Let_def)
  qed (use True assms(3) in auto)
qed

section \<open>A turn of the main task\<close>

lemma turn_reads:
  fixes s :: client
  assumes "zstd_lawful z" and "sendable p d"
  obtains t where "gateway_turn z w (wire z p d @ rest) s =
      (let (g, u) = client_dispatch z w (sent_header z p d) d t in (g, rest, u))"
    and "pr_links t = pr_links s" and "gw_links t = gw_links s" and "pr_next_link t = pr_next_link s"
proof -
  obtain t where r: "read_gw_packet z (wire z p d @ rest) s = (Some (sent_header z p d, d), rest, t)"
    using read_wire[OF assms] .
  have "gateway_turn z w (wire z p d @ rest) s =
      (let (g, u) = client_dispatch z w (sent_header z p d) d t in (g, rest, u))"
    by (simp add: gateway_turn_def read_packet_def r)
  then show ?thesis by (rule that) (rule read_frame[OF r])+
qed

lemma turn_stops:
  fixes s :: client
  assumes "zstd_lawful z" and "rest = [] \<or> cut_off z rest" and "gateway_turn z w rest s = (g, rs', t)"
  shows "\<not> g" and "pr_links t = pr_links s" and "gw_links t = gw_links s" and "pr_next_link t = pr_next_link s"
    and "new_tasks s t = []"
proof -
  have "fst (read_gw_packet z rest s) = None"
    using assms(2)
  proof
    assume "rest = []"
    then show ?thesis using gw.read_end[of "[]" z s] by (simp add: read_packet_def)
  next
    assume "cut_off z rest"
    then show ?thesis using read_wire_truncated[OF assms(1)] by (auto simp: cut_off_def)
  qed
  then obtain rs2 u where r: "read_gw_packet z rest s = (None, rs2, u)" by (cases "read_gw_packet z rest s") auto
  then have "t = u" "\<not> g" using assms(3) by (simp_all add: gateway_turn_def read_packet_def)
  moreover have "new_tasks s u = []" using client_keeps_new_tasks[OF client_keeps_read] r by (simp add: read_packet_def)
  ultimately show "\<not> g" "pr_links t = pr_links s" "gw_links t = gw_links s" "pr_next_link t = pr_next_link s"
    "new_tasks s t = []" using read_frame[OF r] by simp_all
qed

section \<open>The delivery in any interleaving\<close>

text \<open>
  The links of the number \<open>lid\<close> that tasks serve, and the main task that reads the stream.
\<close>

definition sole :: "u16 \<Rightarrow> lref \<Rightarrow> client \<Rightarrow> client_thread list \<Rightarrow> bool" where
  "sole lid q s ts \<longleftrightarrow> (\<forall>(r, w) \<in> set (of_all serves ts). connection_id (pr_links s r) = lid \<longrightarrow> r = q)"

definition reads_on :: "zstd \<Rightarrow> wref \<Rightarrow> packets \<Rightarrow> bytes \<Rightarrow> client_thread \<Rightarrow> bool" where
  "reads_on z w ms rest t \<longleftrightarrow> t = Exchanging w (images (wire z) ms @ rest) \<or> ms = [] \<and> t = LostServer"

text \<open>While the link is live, and after it left the registry; \<open>ev\<close> is what the stream says of it.\<close>

definition delivering ::
  "zstd \<Rightarrow> u16 \<Rightarrow> lref \<Rightarrow> wref \<Rightarrow> bytes \<Rightarrow> nat \<Rightarrow> (PacketType \<times> bytes option) list \<Rightarrow> bytes \<Rightarrow>
    client \<times> client_thread list \<Rightarrow> bool" where
  "delivering z lid q w b k ev rest x \<longleftrightarrow> (let (s, ts) = x in
     \<exists>ms es. ev = data_events es @ link_events lid ms \<and> received b k es (pr_links s q) \<and> all_sendable ms \<and>
       link_live lid q s \<and> sole lid q s ts \<and> (\<exists>t \<in> set ts. reads_on z w ms rest t))"

definition delivered ::
  "lref \<Rightarrow> bytes \<Rightarrow> nat \<Rightarrow> (PacketType \<times> bytes option) list \<Rightarrow> client \<times> client_thread list \<Rightarrow> bool" where
  "delivered q b k ev x \<longleftrightarrow> (let (s, ts) = x in
     \<exists>es tail. ev = data_events es @ tail \<and> w_out (link_writer (pr_links s q)) = b @ take k (concat es) \<and> link_gone q s \<and>
       (link_state (pr_links s q) = Disconnected \<longrightarrow> tail = [] \<or> tail = [(Close, None)]) \<and>
       (link_state (pr_links s q) \<noteq> Disconnected \<longrightarrow> q \<notin> fst ` set (of_all serves ts)))"

lemma deliveringI:
  "ev = data_events es @ link_events lid ms \<Longrightarrow> received b k es (pr_links s q) \<Longrightarrow> all_sendable ms \<Longrightarrow>
     link_live lid q s \<Longrightarrow> sole lid q s ts \<Longrightarrow> t \<in> set ts \<Longrightarrow> reads_on z w ms rest t \<Longrightarrow>
     delivering z lid q w b k ev rest (s, ts)"
  unfolding delivering_def Let_def prod.case by blast

lemma reads_on_main: "reads_on z w ms rest t \<Longrightarrow> is_main t"
  by (auto simp: reads_on_def)

lemma the_main:
  assumes "client_inv s (xs @ t # ys)" and "is_main t" and "is_main u" and "u \<in> set (xs @ t # ys)"
  shows "u = t"
proof -
  have "length (filter is_main (xs @ t # ys)) = 1" using assms(1) by (simp add: client_inv_def mains_inv_def)
  then have "filter is_main xs = []" "filter is_main ys = []" using assms(2) by simp_all
  then show ?thesis using assms(3,4) by (auto simp: filter_empty_conv)
qed

lemma turn_serves:
  assumes "gateway_turn z w rs s = (g, rs', s')"
  shows "set (of_all serves (new_tasks s s')) \<subseteq> {(pr_next_link s, w)}"
  using gateway_turn_effect[OF assms]
proof
  assume "client_keeps s s'"
  then show ?thesis by (simp add: client_keeps_new_tasks)
qed (auto simp: adds_link_def new_tasks_def)

lemma step_serves:
  assumes "client_thread_step z order h t s us s'"
  shows "set (of_all serves us) \<subseteq> set (serves t) \<union> {(pr_next_link s, w) |w. True}"
  using assms
proof cases
  case (exchanged w rs rs')
  then show ?thesis using turn_serves[OF exchanged(3)] by auto
next
  case (server_lost w rs rs')
  then show ?thesis using turn_serves[OF server_lost(3)] by auto
qed (auto simp: begin_exchange_def spawn_def new_tasks_def Let_def)

text \<open>Once the link is out of the registry, nothing changes for its application.\<close>

lemma delivered_step:
  assumes "order_lawful order" and "client_thread_step z order h t s us s'" and "delivered q b k ev (s, xs @ t # ys)"
  shows "delivered q b k ev (s', xs @ us @ ys)"
proof -
  obtain es tail where d: "ev = data_events es @ tail" "w_out (link_writer (pr_links s q)) = b @ take k (concat es)"
      "link_gone q s" "link_state (pr_links s q) = Disconnected \<longrightarrow> tail = [] \<or> tail = [(Close, None)]"
      "link_state (pr_links s q) \<noteq> Disconnected \<longrightarrow> q \<notin> fst ` set (of_all serves (xs @ t # ys))"
    using assms(3) by (auto simp: delivered_def)
  have "q \<noteq> pr_next_link s" using d(3) by (auto simp: link_gone_def)
  then have "q \<notin> fst ` set (of_all serves (xs @ us @ ys))" if "q \<notin> fst ` set (of_all serves (xs @ t # ys))"
    using that step_serves[OF assms(2)] by fastforce
  then show ?thesis using d gone_step[OF assms(1,2) d(3)] unfolding delivered_def by auto
qed

lemma sole_keeps:
  assumes "sole lid q s (xs @ t # ys)" and "client_keeps s s'" and "set (of_all serves us) \<subseteq> set (serves t)"
  shows "sole lid q s' (xs @ us @ ys)"
  using assms unfolding sole_def client_keeps_def by auto

text \<open>Another task runs while the link is live.\<close>

lemma delivering_other:
  assumes "client_thread_step z order h t s us s'" and "\<not> is_main t" and "client_inv s (xs @ t # ys)"
    and "delivering z lid q w b k ev rest (s, xs @ t # ys)"
  shows "delivering z lid q w b k ev rest (s', xs @ us @ ys) \<or> delivered q b k ev (s', xs @ us @ ys)"
proof -
  obtain ms es m where d: "ev = data_events es @ link_events lid ms" "received b k es (pr_links s q)" "all_sendable ms"
      "link_live lid q s" "sole lid q s (xs @ t # ys)" "m \<in> set (xs @ t # ys)" "reads_on z w ms rest m"
    using assms(4) by (auto simp: delivering_def)
  note other = other_task_holds[OF assms(1,2)]
  have same: "link_writer (pr_links s' q) = link_writer (pr_links s q)" "link_state (pr_links s' q) = link_state (pr_links s q)"
    using other(1)[of q] by (simp_all add: holds_def)
  have m: "m \<in> set (xs @ us @ ys)" using d(6) reads_on_main[OF d(7)] assms(2) by auto
  show ?thesis
  proof (cases "fmlookup (gw_links s') lid = Some q")
    case True
    then have "link_live lid q s'" using holds_live[OF other(1) d(4)] by simp
    moreover have "received b k es (pr_links s' q)" using d(2) same by (simp add: received_def)
    moreover have "sole lid q s' (xs @ us @ ys)" by (rule sole_keeps[OF d(5) other(2,3)])
    ultimately show ?thesis using d(1,3,7) m unfolding delivering_def by auto
  next
    case False
    then have gone: "link_gone q s'" using holds_live[OF other(1) d(4)] by simp
    have "fmlookup (gw_links s') lid \<noteq> fmlookup (gw_links s) lid" using False d(4) by (simp add: link_live_def)
    then obtain r v where t: "t = Finishing r v" "connection_id (pr_links s r) = lid" using other(5) by blast
    then have "r = q" using d(5) by (auto simp: sole_def)
    moreover have "us = []" using assms(1) t(1) by (auto elim: client_thread_stepE)
    ultimately have "q \<notin> fst ` set (of_all serves (xs @ us @ ys))"
      using assms(3) t(1) by (auto simp: client_inv_def apps_inv_def rev_image_eqI)
    then show ?thesis using d(1,2,4) gone same
      by (auto simp: delivered_def received_def link_live_def intro!: exI[of _ es] exI[of _ "link_events lid ms"])
  qed
qed

text \<open>The main task reads a packet while the link is live.\<close>

lemma sole_turn:
  assumes "gateway_turn z w rs s = (g, rs', s')" and "client_inv s (xs @ Exchanging w rs # ys)"
    and "sole lid q s (xs @ Exchanging w rs # ys)" and "link_live lid q s" and "link_live lid q s'"
    and "is_main m" and "serves m = []"
  shows "sole lid q s' (xs @ (m # new_tasks s s') @ ys)"
  using gateway_turn_effect[OF assms(1)]
proof
  assume k: "client_keeps s s'"
  then show ?thesis using sole_keeps[OF assms(3) k, of "m # new_tasks s s'"] assms(7) by (simp add: client_keeps_new_tasks)
next
  assume "\<exists>l. adds_link l w s s'"
  then obtain l where l: "adds_link l w s s'" by blast
  have "q < pr_next_link s" "fmlookup (gw_links s') lid = Some q" using assms(4,5) by (simp_all add: link_live_def)
  then have "l \<noteq> lid" using l by (auto simp: adds_link_def split: if_splits)
  moreover have "r < pr_next_link s" if "(r, v) \<in> set (of_all serves (xs @ Exchanging w rs # ys))" for r v
    using that assms(2) unfolding client_inv_def apps_inv_def by blast
  ultimately show ?thesis using l assms(3,7) unfolding sole_def adds_link_def
    by (fastforce simp: new_tasks_def)
qed

lemma delivering_packet:
  assumes z: "zstd_lawful z" and ok: "sendable p d" "all_sendable ms"
    and t: "gateway_turn z w (wire z p d @ bs) s = (g, rs', s')"
    and live: "link_live lid q s" and got: "received b k es (pr_links s q)"
    and ev: "prefix (data_events es @ link_events lid ((p, d) # ms)) (data_events ds @ [(Close, None)])"
  shows "g \<and> rs' = bs \<and>
    ((\<exists>fs. data_events es @ link_events lid ((p, d) # ms) = data_events fs @ link_events lid ms \<and> link_live lid q s' \<and>
        received b k fs (pr_links s' q)) \<or>
     link_events lid ((p, d) # ms) = [(Close, None)] \<and> link_gone q s' \<and> pr_links s' q = close_connection (pr_links s q))"
proof -
  obtain v where v: "gateway_turn z w (wire z p d @ bs) s =
      (let (g, u) = client_dispatch z w (sent_header z p d) d v in (g, bs, u))"
    and same: "pr_links v = pr_links s" "gw_links v = gw_links s" "pr_next_link v = pr_next_link s"
    using turn_reads[OF z ok(1)] .
  have u: "client_dispatch z w (sent_header z p d) d v = (g, s')" and rs: "rs' = bs"
    using t v by (simp_all split: prod.splits)
  show ?thesis
    using client_end.packet_at_link[OF link_live_cong[OF same live] _ ev u, of b k] got same(1) rs by simp
qed

lemma delivering_main:
  assumes z: "zstd_lawful z" and order: "order_lawful order"
    and step: "client_thread_step z order h t s us s'" and main: "is_main t" and inv: "client_inv s (xs @ t # ys)"
    and ev: "prefix ev (data_events ds @ [(Close, None)])" and rest: "rest = [] \<or> cut_off z rest"
    and d: "delivering z lid q w b k ev rest (s, xs @ t # ys)"
  shows "delivering z lid q w b k ev rest (s', xs @ us @ ys) \<or> delivered q b k ev (s', xs @ us @ ys)"
proof -
  obtain ms es m where d: "ev = data_events es @ link_events lid ms" "received b k es (pr_links s q)" "all_sendable ms"
      "link_live lid q s" "sole lid q s (xs @ t # ys)" "m \<in> set (xs @ t # ys)" "reads_on z w ms rest m"
    using d by (auto simp: delivering_def)
  have "m = t" using the_main[OF inv main reads_on_main[OF d(7)] d(6)] .
  then have t: "t = Exchanging w (images (wire z) ms @ rest) \<or> ms = [] \<and> t = LostServer" using d(7) by (simp add: reads_on_def)
  have reg: "fmlookup (gw_links s) lid = Some q" "q < pr_next_link s" using d(4) by (simp_all add: link_live_def)
  show ?thesis
  proof (cases "t = LostServer")
    case True
    then have "ms = []" "s' = client_on_disconnection (order (fmdom (gw_links s))) s"
      using t step by (auto elim: client_thread_stepE)
    moreover have "q |\<in>| fmran (gw_links s)" using reg(1) by (rule fmranI)
    ultimately have "delivered q b k ev (s', xs @ us @ ys)"
      using d(1,2) reg(2) close_all_links_eq[OF order_drains[OF order], of s]
      by (auto simp: delivered_def client_on_disconnection_def link_gone_def received_def Let_def
          intro!: exI[of _ es])
    then show ?thesis by blast
  next
    case False
    then have t: "t = Exchanging w (images (wire z) ms @ rest)" using t by blast
    obtain g rs' where turn: "gateway_turn z w (images (wire z) ms @ rest) s = (g, rs', s')"
      and us: "us = (if g then Exchanging w rs' else LostServer) # new_tasks s s'"
      using step unfolding t by cases auto
    note sole = sole_turn[OF turn inv[unfolded t] d(5)[unfolded t] d(4)]
    show ?thesis
    proof (cases ms)
      case Nil
      have stop: "\<not> g" "pr_links s' = pr_links s" "gw_links s' = gw_links s" "pr_next_link s' = pr_next_link s"
        using turn_stops[OF z rest, of w s g rs' s'] turn Nil by simp_all
      have live: "link_live lid q s'" by (rule link_live_cong[OF stop(2-4) d(4)])
      have us': "us = LostServer # new_tasks s s'" using us stop(1) by simp
      have "delivering z lid q w b k ev rest (s', xs @ us @ ys)" unfolding us'
        by (rule deliveringI[of _ es lid "[]" b k _ q _ LostServer, OF _ _ _ live sole[OF live]])
          (use d(1,2) Nil stop(2) in \<open>simp_all add: reads_on_def\<close>)
      then show ?thesis ..
    next
      case (Cons x ms')
      obtain p e where x: "x = (p, e)" by fastforce
      have ok: "sendable p e" "all_sendable ms'" using d(3) Cons x by simp_all
      have turn': "gateway_turn z w (wire z p e @ (images (wire z) ms' @ rest)) s = (g, rs', s')" using turn Cons x by simp
      have ev': "prefix (data_events es @ link_events lid ((p, e) # ms')) (data_events ds @ [(Close, None)])"
        using ev d(1) Cons x by simp
      have gr: "g" "rs' = images (wire z) ms' @ rest"
        using delivering_packet[OF z ok turn' d(4,2) ev'] by blast+
      have us': "us = Exchanging w (images (wire z) ms' @ rest) # new_tasks s s'" using us gr by simp
      consider (reads) fs where "ev = data_events fs @ link_events lid ms'" "link_live lid q s'" "received b k fs (pr_links s' q)"
        | (closed) "link_events lid ms = [(Close, None)]" "link_gone q s'" "pr_links s' q = close_connection (pr_links s q)"
        using delivering_packet[OF z ok turn' d(4,2) ev'] d(1) Cons x by metis
      then show ?thesis
      proof cases
        case reads
        have "delivering z lid q w b k ev rest (s', xs @ us @ ys)" unfolding us'
          by (rule deliveringI[where t = "Exchanging w (images (wire z) ms' @ rest)", OF reads(1,3) ok(2) reads(2) sole[OF reads(2)]])
            (simp_all add: reads_on_def)
        then show ?thesis ..
      next
        case closed
        then show ?thesis using d(1,2) by (auto simp: delivered_def received_def intro!: exI[of _ es])
      qed
    qed
  qed
qed

section \<open>Whole runs\<close>

lemma command_links [simp]:
  "pr_links (send_ping z s) = pr_links s" "gw_links (send_ping z s) = gw_links s"
  "pr_next_link (send_ping z s) = pr_next_link s"
  by (simp_all add: send_ping_def next_packet_id_eq Let_def split: option.split)

lemma delivery_step:
  assumes "zstd_lawful z" and "order_lawful order" and "client_step z order h x y" and "client_inv (fst x) (snd x)"
    and "prefix ev (data_events ds @ [(Close, None)])" and "rest = [] \<or> cut_off z rest"
    and "delivering z lid q w b k ev rest x \<or> delivered q b k ev x"
  shows "delivering z lid q w b k ev rest y \<or> delivered q b k ev y"
  using assms(3)
proof cases
  case (ping_command s ts)
  have "client_keeps s (send_ping z s)" by (rule client_keeps_command)
  then have "sole lid q (send_ping z s) ts = sole lid q s ts" by (simp add: sole_def client_keeps_def)
  then show ?thesis using assms(7) ping_command link_live_cong[of "send_ping z s" s] link_gone_cong[of "send_ping z s" s]
    by (auto simp: delivering_def delivered_def) blast+
next
  case (task_runs t s us s' xs ys)
  have inv: "client_inv s (xs @ t # ys)" using assms(4) task_runs(1) by simp
  show ?thesis
  proof (cases "delivered q b k ev x")
    case True
    then have "delivered q b k ev (s, xs @ t # ys)" using task_runs(1) by simp
    then show ?thesis using delivered_step[OF assms(2) task_runs(3)] task_runs(2) by blast
  next
    case False
    then have d: "delivering z lid q w b k ev rest (s, xs @ t # ys)" using assms(7) task_runs(1) by blast
    show ?thesis unfolding task_runs(2)
    proof (cases "is_main t")
      case True
      show "delivering z lid q w b k ev rest (s', xs @ us @ ys) \<or> delivered q b k ev (s', xs @ us @ ys)"
        by (rule delivering_main[OF assms(1,2) task_runs(3) True inv assms(5,6) d])
    next
      case False
      show "delivering z lid q w b k ev rest (s', xs @ us @ ys) \<or> delivered q b k ev (s', xs @ us @ ys)"
        by (rule delivering_other[OF task_runs(3) False inv d])
    qed
  qed
qed

lemma delivery_run:
  assumes "zstd_lawful z" and "order_lawful order" and "(client_step z order h)\<^sup>*\<^sup>* x y" and "client_inv (fst x) (snd x)"
    and "prefix ev (data_events ds @ [(Close, None)])" and "rest = [] \<or> cut_off z rest"
    and "delivering z lid q w b k ev rest x"
  shows "client_inv (fst y) (snd y) \<and> (delivering z lid q w b k ev rest y \<or> delivered q b k ev y)"
  using assms(3)
proof induction
  case base
  show ?case using assms(4,7) by simp
next
  case (step y y')
  then show ?case using client_step_inv[OF assms(2) step(2)] delivery_step[OF assms(1,2) step(2) _ assms(5,6)] by blast
qed

text \<open>
  What the application has at the end of a run: a first part of the data; everything, if the stream
  was whole and has been read and the task of the link has not ended; or if the link was closed.
\<close>

lemma client_receives:
  assumes "zstd_lawful z" and "order_lawful order" and "client_inv s ts" and "link_live lid q s" and "sole lid q s ts"
    and "Exchanging w (images (wire z) ms @ rest) \<in> set ts" and "all_sendable ms" and "rest = [] \<or> cut_off z rest"
    and "prefix (link_events lid ms) (data_events ds @ [(Close, None)])"
    and "(client_step z order h)\<^sup>*\<^sup>* (s, ts) (s', ts')"
  obtains got where "w_out (link_writer (pr_links s' q)) = w_out (link_writer (pr_links s q)) @ got"
    and "prefix got (concat ds)"
    and "\<lbrakk>rest = []; link_events lid ms = data_events ds @ [(Close, None)];
        length (concat ds) \<le> w_room (link_writer (pr_links s q));
        link_state (pr_links s' q) = Disconnected \<or>
          q \<in> fst ` set (of_all serves ts') \<and> (\<forall>rs. Exchanging w rs \<in> set ts' \<longrightarrow> rs = [])\<rbrakk> \<Longrightarrow>
      got = concat ds \<and> link_state (pr_links s' q) = Disconnected"
proof -
  let ?b = "w_out (link_writer (pr_links s q))" and ?k = "w_room (link_writer (pr_links s q))" and ?ev = "link_events lid ms"
  have "delivering z lid q w ?b ?k ?ev rest (s, ts)"
    by (rule deliveringI[of _ "[]" lid ms _ _ _ _ _ "Exchanging w (images (wire z) ms @ rest)"])
      (use assms(4-7) in \<open>simp_all add: received_def reads_on_def\<close>)
  then have run: "delivering z lid q w ?b ?k ?ev rest (s', ts') \<or> delivered q ?b ?k ?ev (s', ts')"
    using delivery_run[OF assms(1,2,10) _ assms(9,8)] assms(3) by simp
  note part = received_part[OF assms(9)] and no_close = close_not_data[of ds]
  show thesis
  proof (cases "delivered q ?b ?k ?ev (s', ts')")
    case True
    then obtain es tail where d: "?ev = data_events es @ tail"
        "w_out (link_writer (pr_links s' q)) = ?b @ take ?k (concat es)"
        "link_state (pr_links s' q) = Disconnected \<longrightarrow> tail = [] \<or> tail = [(Close, None)]"
        "link_state (pr_links s' q) \<noteq> Disconnected \<longrightarrow> q \<notin> fst ` set (of_all serves ts')"
      by (auto simp: delivered_def)
    show thesis
    proof (rule that[OF d(2) part[OF d(1)]])
      assume "rest = []" and ev: "?ev = data_events ds @ [(Close, None)]" and room: "length (concat ds) \<le> ?k"
        and "link_state (pr_links s' q) = Disconnected \<or>
          q \<in> fst ` set (of_all serves ts') \<and> (\<forall>rs. Exchanging w rs \<in> set ts' \<longrightarrow> rs = [])"
      then have disc: "link_state (pr_links s' q) = Disconnected" using d(4) by blast
      then have "es = ds" using received_all[of ds es tail] d(1,3) ev by simp
      then show "take ?k (concat es) = concat ds \<and> link_state (pr_links s' q) = Disconnected" using room disc by simp
    qed
  next
    case False
    then obtain ns es t where d: "?ev = data_events es @ link_events lid ns" "received ?b ?k es (pr_links s' q)"
        "link_live lid q s'" "t \<in> set ts'" "reads_on z w ns rest t"
      using run by (auto simp: delivering_def)
    have out: "w_out (link_writer (pr_links s' q)) = ?b @ take ?k (concat es)" using d(2) by (simp add: received_def)
    show thesis
    proof (rule that[OF out part[OF d(1)]])
      assume rest: "rest = []" and ev: "?ev = data_events ds @ [(Close, None)]"
        and "link_state (pr_links s' q) = Disconnected \<or>
          q \<in> fst ` set (of_all serves ts') \<and> (\<forall>rs. Exchanging w rs \<in> set ts' \<longrightarrow> rs = [])"
      then have "\<forall>rs. Exchanging w rs \<in> set ts' \<longrightarrow> rs = []" using d(3) by (auto simp: link_live_def)
      then have "images (wire z) ns = [] \<or> ns = []" using d(4,5) rest by (auto simp: reads_on_def)
      then have "ns = []" using wire_nonempty[of z] by (cases ns) auto
      then have False using d(1) ev no_close[of es] by simp
      then show "take ?k (concat es) = concat ds \<and> link_state (pr_links s' q) = Disconnected" ..
    qed
  qed
qed

end
