(* ===== verification/Server_System.thy ===== *)
theory Server_System
  imports Server
begin

text \<open>
  The server as a system of concurrent tasks. A \<open>server_thread\<close> is a spawned task with the point
  it has reached; a step of the system runs one task up to its next await, in any order, or lets
  a gateway client or an application connect. The shared state is the record \<open>server\<close>. The
  invariants hold in every reachable state, whatever the interleaving.
\<close>

datatype server_thread =
    Authenticating SocketAddr wref rsock
  | Announcing SocketAddr wref rsock
  | Registering SocketAddr uuid wref rsock
  | Serving SocketAddr uuid wref rsock
  | Leaving SocketAddr uuid
  | Choosing tcp_stream
  | Linking tcp_stream u16 client_session
  | Routing lref u16 client_session
  | Opening lref wref u16
  | Marking lref wref u16
  | Forwarding lref wref u16
  | Ending lref wref u16

text \<open>
  One task runs: from its point and the shared state to the points that remain (none when it ends)
  and the new shared state. Nonces and timeouts are the environment's; a fresh session identifier
  is one that the store does not hold.
\<close>

inductive thread_step ::
  "zstd \<Rightarrow> hash_order \<Rightarrow> hmac \<Rightarrow> server_thread \<Rightarrow> server \<Rightarrow> server_thread list \<Rightarrow> server \<Rightarrow> bool"
  for z ho h where
  authenticated: "length nonce = NONCE_SIZE \<Longrightarrow> authenticate_client h nonce timed_out w rs s = (True, rs', s') \<Longrightarrow>
    thread_step z ho h (Authenticating a w rs) s [Announcing a w rs'] s'"
| rejected: "length nonce = NONCE_SIZE \<Longrightarrow> authenticate_client h nonce timed_out w rs s = (False, rs', s') \<Longrightarrow>
    thread_step z ho h (Authenticating a w rs) s [] s'"
| announced: "\<not> has_session i (sv_session_store s) \<Longrightarrow>
    thread_step z ho h (Announcing a w rs) s [Registering a i w rs] (announce_client i s)"
| registered: "thread_step z ho h (Registering a i w rs) s [Serving a i w rs] (insert_session a i w s)"
| served: "client_turn z w rs s = (True, rs', s') \<Longrightarrow>
    thread_step z ho h (Serving a i w rs) s [Serving a i w rs'] s'"
| disconnected: "client_turn z w rs s = (False, rs', s') \<Longrightarrow>
    thread_step z ho h (Serving a i w rs) s [Leaving a i] s'"
| left: "thread_step z ho h (Leaving a i) s [] (cleanup_client ho a i s)"
| refused: "choose_client ho s = ((lid, None), s') \<Longrightarrow> thread_step z ho h (Choosing k) s [] s'"
| chosen: "choose_client ho s = ((lid, Some c), s') \<Longrightarrow>
    thread_step z ho h (Choosing k) s [Linking k lid c] s'"
| linked: "link_app k lid s = (r, s') \<Longrightarrow> thread_step z ho h (Linking k lid c) s [Routing r lid c] s'"
| routed: "thread_step z ho h (Routing r lid c) s [Opening r (cs_writer c) lid] (route_app lid (cs_addr c) s)"
| opened: "thread_step z ho h (Opening r w lid) s [Marking r w lid] (send_open z w lid s)"
| marked: "thread_step z ho h (Marking r w lid) s [Forwarding r w lid] (update_link r (set_state Waiting) s)"
| forwarded: "app_turn z r w lid s = (True, s') \<Longrightarrow>
    thread_step z ho h (Forwarding r w lid) s [Forwarding r w lid] s'"
| exhausted: "app_turn z r w lid s = (False, s') \<Longrightarrow>
    thread_step z ho h (Forwarding r w lid) s [Ending r w lid] s'"
| ended: "thread_step z ho h (Ending r w lid) s [] (app_end z w lid s)"

type_synonym system = "server \<times> server_thread list"

inductive system_step :: "zstd \<Rightarrow> hash_order \<Rightarrow> hmac \<Rightarrow> system \<Rightarrow> system \<Rightarrow> bool" for z ho h where
  client_arrives: "accept_gateway peer k s = ((a, w), s') \<Longrightarrow>
    system_step z ho h (s, ts) (s', ts @ [Authenticating a w (gs_reader k)])"
| app_arrives: "system_step z ho h (s, ts) (s, ts @ [Choosing k])"
| thread_runs: "thread_step z ho h t s us s' \<Longrightarrow>
    system_step z ho h (s, xs @ t # ys) (s', xs @ us @ ys)"

text \<open>The listeners of \<open>run\<close> have bound their ports; nobody has connected yet.\<close>

definition system_start :: "configuration \<Rightarrow> process \<Rightarrow> system" where
  "system_start config p = (snd (listen_gateway_start True (GatewayServer_new config p)), [])"

definition reachable :: "zstd \<Rightarrow> hash_order \<Rightarrow> hmac \<Rightarrow> configuration \<Rightarrow> process \<Rightarrow> system \<Rightarrow> bool" where
  "reachable z ho h config p = (system_step z ho h)\<^sup>*\<^sup>* (system_start config p)"

inductive_cases thread_stepE: "thread_step z ho h t s us s'"
inductive_cases system_stepE: "system_step z ho h x y"

section \<open>Operations that only take away\<close>

text \<open>
  Most steps leave the session store and the life cycle alone, and change the registries only
  by removing entries. The links they touch keep their numbers, and what is left to read from an
  application never grows.
\<close>

definition only_removes :: "server \<Rightarrow> server \<Rightarrow> bool" where
  "only_removes s s' \<longleftrightarrow>
     (\<forall>l r. fmlookup (gw_links s') l = Some r \<longrightarrow> fmlookup (gw_links s) l = Some r) \<and>
     (\<forall>l a. fmlookup (sv_link_clients s') l = Some a \<longrightarrow> fmlookup (sv_link_clients s) l = Some a) \<and>
     (\<forall>r. connection_id (pr_links s' r) = connection_id (pr_links s r) \<and>
       reader_size (link_reader (pr_links s' r)) \<le> reader_size (link_reader (pr_links s r))) \<and>
     (\<forall>a c. fmlookup (sv_client_sessions s') a = Some c \<longrightarrow> fmlookup (sv_client_sessions s) a = Some c) \<and>
     pr_next_link s' = pr_next_link s \<and>
     sv_session_store s' = sv_session_store s \<and> gw_state s' = gw_state s"

lemma only_removes_refl [simp]: "only_removes s s"
  by (simp add: only_removes_def)

lemma only_removes_trans: "only_removes s t \<Longrightarrow> only_removes t u \<Longrightarrow> only_removes s u"
  unfolding only_removes_def by (metis order_trans)

text \<open>Changes to anything that \<open>only_removes\<close> does not look at.\<close>

lemma only_removes_process [simp]:
  "only_removes s (s\<lparr>pr_writers := a, gw_statistics := b, pr_metrics := c\<rparr>)"
  "only_removes s (s\<lparr>pr_pool := p, gw_statistics := b, pr_metrics := c\<rparr>)"
  "only_removes s (s\<lparr>pr_writers := a\<rparr>)"
  "only_removes s (s\<lparr>gw_packet_id_counter := n\<rparr>)"
  "only_removes s (s\<lparr>gw_link_id_counter := m\<rparr>)"
  by (simp_all add: only_removes_def)

lemma only_removes_send [simp]: "only_removes s (snd (send_gw_packet z w p d s))"
  using send_gw_packet_shape[of z w p d s] by (metis only_removes_process(1))

lemma only_removes_write [simp]: "only_removes s (snd (gw_write w d s))"
  by (simp add: gw_write_eq)

lemma only_removes_read: "read_packet z rs s = (x, rs', s') \<Longrightarrow> only_removes s s'"
  unfolding read_packet_def by (metis read_gw_packet_shape only_removes_process(2))

lemma only_removes_next [simp]: "only_removes s (snd (next_packet_id s))"
  by (simp add: next_packet_id_eq)

lemma only_removes_update [simp]:
  "(\<And>l. connection_id (f l) = connection_id l) \<Longrightarrow> (\<And>l. link_reader (f l) = link_reader l) \<Longrightarrow>
     only_removes s (update_link r f s)"
  by (simp add: only_removes_def update_link_def)

lemma only_removes_reader:
  "app_read n (link_reader (pr_links s r)) = (x, rd) \<Longrightarrow>
     only_removes s (update_link r (\<lambda>l. l\<lparr>link_reader := rd\<rparr>) s)"
  by (auto simp: only_removes_def update_link_def dest: app_read_size)

lemma only_removes_remove_link [simp]: "only_removes s (remove_link lid s)"
  by (auto simp: only_removes_def remove_link_def gw_remove_link_eq update_link_def Let_def
      split: option.splits if_splits)

lemma only_removes_then [simp]:
  "only_removes s t \<Longrightarrow> only_removes s (snd (send_gw_packet z w p d t))"
  "only_removes s t \<Longrightarrow> only_removes s (snd (gw_write w b t))"
  "only_removes s t \<Longrightarrow> only_removes s (remove_link lid t)"
  "only_removes s t \<Longrightarrow> (\<And>l. connection_id (f l) = connection_id l) \<Longrightarrow> (\<And>l. link_reader (f l) = link_reader l) \<Longrightarrow>
     only_removes s (update_link r f t)"
  "only_removes s t \<Longrightarrow> only_removes s (t\<lparr>gw_packet_id_counter := n\<rparr>)"
  by (rule only_removes_trans, assumption, simp)+

lemma only_removes_challenge [simp]: "only_removes s (snd (send_challenge nonce w s))"
  by (simp add: send_challenge_def next_packet_id_eq Let_def case_prod_beta)

lemma only_removes_verdict [simp]: "only_removes s (snd (send_verdict a i w s))"
  by (simp add: send_verdict_def Let_def case_prod_beta)

lemma only_removes_authenticate:
  assumes "authenticate_client h nonce timed_out w rs s = (ok, rs', s')"
  shows "only_removes s s'"
proof -
  have "s' = snd (send_challenge nonce w s) \<or>
      (\<exists>a i. s' = snd (send_verdict a i w (snd (send_challenge nonce w s))))"
    using assms by (auto simp: authenticate_client_def Let_def split: prod.splits sum.splits if_splits)
      (metis snd_conv)+
  then show ?thesis using only_removes_challenge only_removes_verdict only_removes_trans by blast
qed

lemma only_removes_dispatch: "server_dispatch z w p d s = (g, s') \<Longrightarrow> only_removes s s'"
  by (cases "packet_type p")
    (auto simp: server_dispatch_def send_pong_def next_packet_id_eq Let_def split: option.splits)

lemma only_removes_client_turn: "client_turn z w rs s = (g, rs', s') \<Longrightarrow> only_removes s s'"
  by (auto simp: client_turn_def split: prod.splits option.splits
      dest!: only_removes_read only_removes_dispatch intro: only_removes_trans)

lemma only_removes_app_turn:
  assumes "app_turn z r w lid s = (g, s')"
  shows "only_removes s s'"
proof -
  obtain x rd where a: "app_read 16384 (link_reader (pr_links s r)) = (x, rd)" by fastforce
  let ?s = "update_link r (\<lambda>l. l\<lparr>link_reader := rd\<rparr>) s"
  have "only_removes s ?s" using only_removes_reader[OF a] .
  then show ?thesis using assms a
    by (auto simp: app_turn_def next_packet_id_eq Let_def case_prod_beta split: sum.splits if_splits)
qed

lemma only_removes_send_open [simp]: "only_removes s (send_open z w lid s)"
  by (simp add: send_open_def next_packet_id_eq Let_def)

lemma only_removes_app_end [simp]: "only_removes s (app_end z w lid s)"
  by (simp add: app_end_def next_packet_id_eq Let_def case_prod_beta)

lemma only_removes_choose: "choose_client ho s = (x, s') \<Longrightarrow> only_removes s s'"
  by (auto simp: choose_client_def next_link_id_def Let_def)

lemma only_removes_accept: "accept_gateway peer k s = (x, s') \<Longrightarrow> only_removes s s'"
  by (auto simp: accept_gateway_def replace_session_def alloc_writer_def gw_shutdown_writer_def
      only_removes_def Let_def split: option.splits if_splits)

section \<open>The invariant\<close>

text \<open>What a task is responsible for: a session identifier in the store, a session, a link, a route.\<close>

fun session_of :: "server_thread \<Rightarrow> uuid list" where
  "session_of (Registering a i w rs) = [i]"
| "session_of (Serving a i w rs) = [i]"
| "session_of (Leaving a i) = [i]"
| "session_of _ = []"

definition session_ids :: "server_thread list \<Rightarrow> uuid list" where
  "session_ids ts = concat (map session_of ts)"

fun holds_session :: "server_thread \<Rightarrow> SocketAddr \<Rightarrow> uuid \<Rightarrow> bool" where
  "holds_session (Serving a i w rs) a' i' \<longleftrightarrow> a = a' \<and> i = i'"
| "holds_session (Leaving a i) a' i' \<longleftrightarrow> a = a' \<and> i = i'"
| "holds_session _ a' i' \<longleftrightarrow> False"

fun holds_link :: "server_thread \<Rightarrow> lref \<Rightarrow> u16 \<Rightarrow> bool" where
  "holds_link (Routing r l c) r' l' \<longleftrightarrow> r = r' \<and> l = l'"
| "holds_link (Opening r w l) r' l' \<longleftrightarrow> r = r' \<and> l = l'"
| "holds_link (Marking r w l) r' l' \<longleftrightarrow> r = r' \<and> l = l'"
| "holds_link (Forwarding r w l) r' l' \<longleftrightarrow> r = r' \<and> l = l'"
| "holds_link (Ending r w l) r' l' \<longleftrightarrow> r = r' \<and> l = l'"
| "holds_link _ r' l' \<longleftrightarrow> False"

fun holds_route :: "server_thread \<Rightarrow> u16 \<Rightarrow> bool" where
  "holds_route (Opening r w l) l' \<longleftrightarrow> l = l'"
| "holds_route (Marking r w l) l' \<longleftrightarrow> l = l'"
| "holds_route (Forwarding r w l) l' \<longleftrightarrow> l = l'"
| "holds_route (Ending r w l) l' \<longleftrightarrow> l = l'"
| "holds_route _ l' \<longleftrightarrow> False"

definition links_inv :: "server \<Rightarrow> server_thread list \<Rightarrow> bool" where
  "links_inv s ts \<longleftrightarrow> (\<forall>l r. fmlookup (gw_links s) l = Some r \<longrightarrow>
     r < pr_next_link s \<and> connection_id (pr_links s r) = l \<and> (\<exists>t \<in> set ts. holds_link t r l))"

definition routes_inv :: "server \<Rightarrow> server_thread list \<Rightarrow> bool" where
  "routes_inv s ts \<longleftrightarrow> (\<forall>l a. fmlookup (sv_link_clients s) l = Some a \<longrightarrow> (\<exists>t \<in> set ts. holds_route t l))"

definition sessions_inv :: "server \<Rightarrow> server_thread list \<Rightarrow> bool" where
  "sessions_inv s ts \<longleftrightarrow> (\<forall>a c. fmlookup (sv_client_sessions s) a = Some c \<longrightarrow>
     cs_addr c = a \<and> (\<exists>t \<in> set ts. holds_session t a (cs_session_id c)))"

definition store_inv :: "server \<Rightarrow> server_thread list \<Rightarrow> bool" where
  "store_inv s ts \<longleftrightarrow> distinct (session_ids ts) \<and>
     (\<forall>i. has_session i (sv_session_store s) \<longleftrightarrow> i \<in> set (session_ids ts)) \<and>
     (gw_state s = GsWaiting \<or> gw_state s = GsConnected \<and> session_ids ts \<noteq> [])"

lemma session_ids_simps [simp]:
  "session_ids [] = []" "session_ids (t # ts) = session_of t @ session_ids ts"
  "session_ids (xs @ ys) = session_ids xs @ session_ids ys"
  by (simp_all add: session_ids_def)

text \<open>A step that only removes, from a task to one with the same responsibilities.\<close>

definition keeps :: "server_thread list \<Rightarrow> server_thread list \<Rightarrow> bool" where
  "keeps ts us \<longleftrightarrow> session_ids us = session_ids ts \<and>
     (\<forall>a i. (\<exists>t \<in> set ts. holds_session t a i) \<longrightarrow> (\<exists>u \<in> set us. holds_session u a i)) \<and>
     (\<forall>r l. (\<exists>t \<in> set ts. holds_link t r l) \<longrightarrow> (\<exists>u \<in> set us. holds_link u r l)) \<and>
     (\<forall>l. (\<exists>t \<in> set ts. holds_route t l) \<longrightarrow> (\<exists>u \<in> set us. holds_route u l))"

lemma keeps_in_context: "keeps [t] us \<Longrightarrow> keeps (xs @ t # ys) (xs @ us @ ys)"
  unfolding keeps_def by (auto simp: bex_Un)

lemma links_inv_keep: "only_removes s s' \<Longrightarrow> keeps ts us \<Longrightarrow> links_inv s ts \<Longrightarrow> links_inv s' us"
  unfolding links_inv_def only_removes_def keeps_def by metis

lemma routes_inv_keep: "only_removes s s' \<Longrightarrow> keeps ts us \<Longrightarrow> routes_inv s ts \<Longrightarrow> routes_inv s' us"
  unfolding routes_inv_def only_removes_def keeps_def by metis

lemma sessions_inv_keep: "only_removes s s' \<Longrightarrow> keeps ts us \<Longrightarrow> sessions_inv s ts \<Longrightarrow> sessions_inv s' us"
  unfolding sessions_inv_def only_removes_def keeps_def by metis

lemma store_inv_keep: "only_removes s s' \<Longrightarrow> keeps ts us \<Longrightarrow> store_inv s ts \<Longrightarrow> store_inv s' us"
  unfolding store_inv_def only_removes_def keeps_def by metis

lemmas inv_keep = links_inv_keep routes_inv_keep sessions_inv_keep store_inv_keep

definition system_inv :: "server \<Rightarrow> server_thread list \<Rightarrow> bool" where
  "system_inv s ts \<longleftrightarrow> links_inv s ts \<and> routes_inv s ts \<and> sessions_inv s ts \<and> store_inv s ts"

lemma system_inv_keep: "only_removes s s' \<Longrightarrow> keeps ts us \<Longrightarrow> system_inv s ts \<Longrightarrow> system_inv s' us"
  unfolding system_inv_def using inv_keep by blast

section \<open>The steps that do more\<close>

lemma announced_inv:
  assumes "\<not> has_session i (sv_session_store s)" and "system_inv s (xs @ Announcing a w rs # ys)"
  shows "system_inv (announce_client i s) (xs @ Registering a i w rs # ys)"
  using assms
  by (auto simp: system_inv_def links_inv_def routes_inv_def sessions_inv_def store_inv_def
      announce_client_def session_store_defs Let_def bex_Un)

lemma registered_inv:
  assumes "system_inv s (xs @ Registering a i w rs # ys)"
  shows "system_inv (insert_session a i w s) (xs @ Serving a i w rs # ys)"
  using assms
  by (auto simp: system_inv_def links_inv_def routes_inv_def sessions_inv_def store_inv_def
      insert_session_def bex_Un)

lemma routed_inv:
  assumes "system_inv s (xs @ Routing r l c # ys)"
  shows "system_inv (route_app l (cs_addr c) s) (xs @ Opening r (cs_writer c) l # ys)"
  using assms
  by (auto simp: system_inv_def links_inv_def routes_inv_def sessions_inv_def store_inv_def
      route_app_def bex_Un)

lemma linked_inv:
  assumes "link_app k l s = (r, s')" and "system_inv s (xs @ Linking k l c # ys)"
  shows "system_inv s' (xs @ Routing r l c # ys)"
proof -
  have r: "r = pr_next_link s" and s': "pr_next_link s' = Suc r" "gw_links s' = fmupd l r (gw_links s)"
      "pr_links s' = (pr_links s)(r := Link_new k l)" "sv_link_clients s' = sv_link_clients s"
      "sv_client_sessions s' = sv_client_sessions s" "sv_session_store s' = sv_session_store s"
      "gw_state s' = gw_state s"
    using assms(1) by (auto simp: link_app_def alloc_link_def add_link_eq Let_def)
  show ?thesis using assms(2)
    by (auto simp: system_inv_def links_inv_def routes_inv_def sessions_inv_def store_inv_def s' r bex_Un
        less_SucI)
qed

text \<open>The clean-up removes the session of the task that ends, if it is still there.\<close>

lemma left_inv:
  assumes "system_inv s (xs @ Leaving a i # ys)"
  shows "system_inv (cleanup_client ho a i s) (xs @ ys)"
proof -
  let ?s = "cleanup_client ho a i s"
  note c = cleanup_eq[OF refl refl refl, where s = s and addr = a and ho = ho and sid = i]
  have links: "links_inv ?s (xs @ ys)" and routes: "routes_inv ?s (xs @ ys)"
    using assms c(1,5,6)
    by (auto simp: system_inv_def links_inv_def routes_inv_def cleanup_registry bex_Un split: if_splits)
  have sessions: "sessions_inv ?s (xs @ ys)"
    using assms c(2)
    by (fastforce simp: system_inv_def sessions_inv_def bex_Un split: if_splits)
  have "store_inv ?s (xs @ ys)"
  proof -
    have "sv_client_sessions ?s = fmempty" if "session_ids (xs @ ys) = []"
    proof -
      have "\<not> holds_session t b j" if "t \<in> set (xs @ ys)" for t b j
      proof -
        have "session_of t = []" using that \<open>session_ids (xs @ ys) = []\<close> by (force simp: session_ids_def)
        then show ?thesis by (cases t) simp_all
      qed
      then have "fmlookup (sv_client_sessions ?s) b = None" for b
        using sessions unfolding sessions_inv_def by (metis not_None_eq)
      then show ?thesis by (metis fmap_ext fmempty_lookup)
    qed
    then have "gw_state ?s = GsWaiting \<or> gw_state ?s = GsConnected \<and> session_ids (xs @ ys) \<noteq> []"
      using c(4) assms by (auto simp: system_inv_def store_inv_def)
    then show ?thesis using assms c(3)
      by (auto simp: system_inv_def store_inv_def session_store_defs)
  qed
  then show ?thesis using links routes sessions by (simp add: system_inv_def)
qed

lemma ended_inv:
  assumes "system_inv s (xs @ Ending r w l # ys)"
  shows "system_inv (app_end z w l s) (xs @ ys)"
proof -
  let ?s = "app_end z w l s"
  have gone: "fmlookup (gw_links ?s) l = None" "fmlookup (sv_link_clients ?s) l = None"
    by (simp_all add: app_end_def remove_link_def gw_remove_link_eq next_packet_id_eq Let_def
        case_prod_beta split: option.split)
  have keep: "only_removes s ?s" by simp
  have "system_inv ?s (xs @ Ending r w l # ys)"
    using assms by (rule system_inv_keep[OF keep, rotated]) (simp add: keeps_def)
  then have inv: "links_inv ?s (xs @ Ending r w l # ys)" "routes_inv ?s (xs @ Ending r w l # ys)"
      "sessions_inv ?s (xs @ Ending r w l # ys)" "store_inv ?s (xs @ Ending r w l # ys)"
    by (simp_all add: system_inv_def)
  have "links_inv ?s (xs @ ys)" using inv(1) gone(1) by (fastforce simp: links_inv_def bex_Un)
  moreover have "routes_inv ?s (xs @ ys)" using inv(2) gone(2) by (fastforce simp: routes_inv_def bex_Un)
  ultimately show ?thesis using inv(3,4)
    by (simp add: system_inv_def sessions_inv_def store_inv_def bex_Un)
qed

lemma thread_step_inv:
  assumes "thread_step z ho h t s us s'" and "system_inv s (xs @ t # ys)"
  shows "system_inv s' (xs @ us @ ys)"
  using assms
proof cases
  case (announced i a w rs)
  then show ?thesis using announced_inv assms(2) by simp
next
  case (registered a i w rs)
  then show ?thesis using registered_inv assms(2) by simp
next
  case (left a i)
  then show ?thesis using left_inv assms(2) by simp
next
  case (linked k l r c)
  then show ?thesis using linked_inv assms(2) by simp
next
  case (routed r l c)
  then show ?thesis using routed_inv assms(2) by simp
next
  case (ended r w l)
  then show ?thesis using ended_inv assms(2) by simp
qed (rule system_inv_keep[OF _ keeps_in_context assms(2)];
    force simp: keeps_def intro: only_removes_authenticate only_removes_client_turn
      only_removes_app_turn only_removes_choose)+

lemma system_step_inv:
  assumes "system_step z ho h x y" and "system_inv (fst x) (snd x)"
  shows "system_inv (fst y) (snd y)"
  using assms
proof cases
  case (client_arrives peer k s a w s' ts)
  then show ?thesis
    using system_inv_keep[OF only_removes_accept, of peer k s "(a, w)" s' ts] assms(2)
    by (simp add: keeps_def bex_Un)
next
  case (app_arrives s ts k)
  then show ?thesis using system_inv_keep[OF only_removes_refl, of ts _ s] assms(2)
    by (simp add: keeps_def bex_Un)
next
  case (thread_runs t s us s' xs ys)
  then show ?thesis using thread_step_inv assms(2) by simp
qed

lemma system_start_inv: "system_inv (fst (system_start config p)) (snd (system_start config p))"
  by (simp add: system_start_def listen_gateway_start_def GatewayServer_new_def Gateway_new_def
      gateway.defs process.defs SessionStore_new_def system_inv_def links_inv_def routes_inv_def
      sessions_inv_def store_inv_def session_store_defs)

lemma reachable_inv:
  assumes "reachable z ho h config p (s, ts)"
  shows "system_inv s ts"
proof -
  have "system_inv (fst x) (snd x)" if "(system_step z ho h)\<^sup>*\<^sup>* (system_start config p) x" for x
    using that by induction (simp_all add: system_start_inv system_step_inv)
  then show ?thesis using assms unfolding reachable_def by fastforce
qed

end
