(* ===== verification/Handshake.thy ===== *)
theory Handshake
  imports Scenario
begin

text \<open>
  The two halves of the challenge-response handshake (\<open>authenticate_client\<close> of
  \<^verbatim>\<open>server.rs\<close>, \<open>gw_authenticate\<close> of \<^verbatim>\<open>client.rs\<close>): what each side writes, what it accepts,
  and that the two agree when they are run against each other.
\<close>

section \<open>Messages\<close>

definition challenge_image :: "u64 \<Rightarrow> bytes \<Rightarrow> bytes" where
  "challenge_image pid nonce = to_bytes (PacketGW_new GwAuthChallenge pid 0 (of_nat (length nonce))) @ nonce"

definition response_image :: "u64 \<Rightarrow> bytes \<Rightarrow> bytes" where
  "response_image pid tag = to_bytes (PacketGW_new GwAuthResponse pid 0 (of_nat (length tag))) @ tag"

definition verdict_image :: "bool \<Rightarrow> u64 \<Rightarrow> bytes" where
  "verdict_image accepted pid =
     (if accepted then to_bytes (PacketGW_new GwConnected pid 0 12) @ version_data
      else to_bytes (PacketGW_new GwDeny pid 0 1) @ [0])"

lemma length_version_data [simp]: "length version_data = 12"
  by (simp add: version_data_def)

lemma version_major [simp]: "from_le (take 4 version_data) = (0 :: u32)"
  by (simp add: version_data_def from_le_to_le)

lemma length_images [simp]:
  "length (challenge_image pid nonce) = 16 + length nonce"
  "length (response_image pid tag) = 16 + length tag"
  "length (verdict_image accepted i) = (if accepted then 28 else 17)"
  by (simp_all add: challenge_image_def response_image_def verdict_image_def)

lemma gw_write_config [simp]:
  "gw_config (snd (gw_write w b s)) = gw_config s"
  "gw_packet_id_counter (snd (gw_write w b s)) = gw_packet_id_counter s"
  by (simp_all add: gw_write_eq)

section \<open>What the server does\<close>

lemma send_challenge_done:
  assumes "16 + length nonce \<le> w_room (pr_writers s w)"
  shows "fst (send_challenge nonce w s)"
    and "w_out (pr_writers (snd (send_challenge nonce w s)) w) =
      w_out (pr_writers s w) @ challenge_image (gw_packet_id_counter s + 1) nonce"
    and "w_room (pr_writers (snd (send_challenge nonce w s)) w) = w_room (pr_writers s w) - (16 + length nonce)"
    and "gw_config (snd (send_challenge nonce w s)) = gw_config s"
  using assms by (simp_all add: send_challenge_def next_packet_id_def gw_write_eq challenge_image_def Let_def)

lemma receive_response_eq:
  "receive_response rs =
     (case from_bytes (take 16 rs) of
        None \<Rightarrow> (Inl UnexpectedEof, [])
      | Some p \<Rightarrow>
         (if packet_type p \<noteq> GwAuthResponse then (Inl InvalidData, drop 16 rs)
          else if length rs < 16 + unat (data_size p) then (Inl UnexpectedEof, [])
          else (Inr (p, take (unat (data_size p)) (drop 16 rs)), drop (16 + unat (data_size p)) rs)))"
  using from_bytes_None_iff[of "take 16 rs"]
  by (auto simp: receive_response_def read_exact_def Let_def add.commute split: option.split)

lemma receive_response_image:
  "length tag = 32 \<Longrightarrow>
     receive_response (response_image pid tag @ rs) =
       (Inr (PacketGW_new GwAuthResponse pid 0 32, tag), rs)"
  using from_bytes_to_bytes_append[of "PacketGW_new GwAuthResponse pid 0 32" "[]"]
  by (simp add: receive_response_eq response_image_def)

lemma send_verdict_done:
  assumes "28 \<le> w_room (pr_writers s w)"
  shows "fst (send_verdict accepted pid w s) = accepted"
    and "w_out (pr_writers (snd (send_verdict accepted pid w s)) w) =
      w_out (pr_writers s w) @ verdict_image accepted pid"
    and "w_room (pr_writers (snd (send_verdict accepted pid w s)) w) =
      w_room (pr_writers s w) - length (verdict_image accepted pid)"
  using assms
  by (auto simp: send_verdict_def gw_write_eq verdict_image_def Let_def)

section \<open>What the client does\<close>

lemma receive_challenge_image:
  "length nonce = 32 \<Longrightarrow> receive_challenge (challenge_image pid nonce @ rs) = (Some (pid, nonce), rs)"
  using from_bytes_to_bytes_append[of "PacketGW_new GwAuthChallenge pid 0 32" "[]"]
  by (simp add: receive_challenge_def challenge_image_def Let_def)

lemma send_auth_response_done:
  assumes "hmac_lawful h" and "48 \<le> w_room (pr_writers s w)"
  shows "fst (send_auth_response h w nonce s)"
    and "w_out (pr_writers (snd (send_auth_response h w nonce s)) w) = w_out (pr_writers s w) @
      response_image (gw_packet_id_counter s + 1) (compute_response h (auth_key s) nonce)"
  using assms by (simp_all add: send_auth_response_def next_packet_id_def gw_write_eq response_image_def Let_def)

lemma receive_verdict_image:
  "receive_verdict (verdict_image accepted pid @ rs) = (accepted, rs)"
  using from_bytes_to_bytes_append[of "PacketGW_new GwConnected pid 0 12" "[]"]
    from_bytes_to_bytes_append[of "PacketGW_new GwDeny pid 0 1" "[]"]
  by (cases accepted)
    (simp_all add: receive_verdict_def verdict_image_def slice_range_def read_exact_def Let_def)

section \<open>The two against each other\<close>

abbreviation server_tag :: "hmac \<Rightarrow> bytes \<Rightarrow> 'a gateway_scheme \<Rightarrow> bytes" where
  "server_tag h nonce s \<equiv> compute_response h (as_bytes (key (general (gw_config s)))) nonce"

lemma authenticate_client_eq:
  assumes "16 + length nonce \<le> w_room (pr_writers s w)"
  shows "authenticate_client h nonce False w rs s =
    (let s' = snd (send_challenge nonce w s) in
     case receive_response rs of
       (Inl e, rs') \<Rightarrow> (False, rs', s')
     | (Inr (p, tag), rs') \<Rightarrow>
         (let (ok, s'') = send_verdict (verify_response h (as_bytes (key (general (gw_config s)))) nonce tag)
            (packet_id p) w s' in (ok, rs', s'')))"
  using send_challenge_done[OF assms]
  by (simp add: authenticate_client_def Let_def case_prod_beta split: sum.split)

lemma authenticate_client_run:
  assumes "hmac_lawful h" and "length nonce = 32" and "length tag = 32"
    and "76 \<le> w_room (pr_writers s w)"
    and "authenticate_client h nonce False w (response_image pid tag @ rs) s = (ok, rs', s')"
  shows "ok \<longleftrightarrow> tag = server_tag h nonce s" and "rs' = rs"
    and "w_out (pr_writers s' w) = w_out (pr_writers s w) @
      challenge_image (gw_packet_id_counter s + 1) nonce @ verdict_image ok pid"
    and "w_room (pr_writers s' w) = w_room (pr_writers s w) - (48 + length (verdict_image ok pid))"
proof -
  have room: "16 + length nonce \<le> w_room (pr_writers s w)" using assms(2,4) by simp
  note c = send_challenge_done[OF room]
  have "28 \<le> w_room (pr_writers (snd (send_challenge nonce w s)) w)" using c(3) assms(2,4) by simp
  note v = send_verdict_done[OF this, of "tag = server_tag h nonce s" pid]
  let ?t = "snd (send_challenge nonce w s)"
  have "authenticate_client h nonce False w (response_image pid tag @ rs) s =
      (tag = server_tag h nonce s, rs, snd (send_verdict (tag = server_tag h nonce s) pid w ?t))"
    using v(1)
    by (simp add: authenticate_client_eq[OF room] receive_response_image[OF assms(3)]
        hmac_auth.verify_iff[OF assms(1)] Let_def case_prod_beta)
  then have eqs: "ok = (tag = server_tag h nonce s)" "rs' = rs"
      "s' = snd (send_verdict (tag = server_tag h nonce s) pid w ?t)"
    unfolding assms(5) by (simp_all only: prod.inject)
  show "ok \<longleftrightarrow> tag = server_tag h nonce s" "rs' = rs" by (fact eqs(1), fact eqs(2))
  show "w_out (pr_writers s' w) = w_out (pr_writers s w) @
      challenge_image (gw_packet_id_counter s + 1) nonce @ verdict_image ok pid"
    unfolding eqs(1,3) v(2) c(2) by simp
  show "w_room (pr_writers s' w) = w_room (pr_writers s w) - (48 + length (verdict_image ok pid))"
    unfolding eqs(1,3) v(3) c(3) by (simp add: assms(2))
qed

text \<open>The challenge is the first thing that the server writes, whatever the answer.\<close>

lemma send_verdict_appends: "\<exists>x. w_out (pr_writers (snd (send_verdict a pid w s)) w) = w_out (pr_writers s w) @ x"
  by (auto simp: send_verdict_def gw_write_eq write_all_prefix Let_def)

lemma challenge_first:
  assumes "16 + length nonce \<le> w_room (pr_writers s w)"
    and "authenticate_client h nonce False w rs s = (ok, rs', s')"
  obtains x where "w_out (pr_writers s' w) =
    w_out (pr_writers s w) @ challenge_image (gw_packet_id_counter s + 1) nonce @ x"
proof -
  note c = send_challenge_done(2)[OF assms(1)]
  have "s' = snd (send_challenge nonce w s) \<or>
      (\<exists>a pid. s' = snd (send_verdict a pid w (snd (send_challenge nonce w s))))"
    using assms(2) by (auto simp: authenticate_client_eq[OF assms(1)] Let_def split: prod.splits sum.splits)
      (metis snd_conv)+
  then show thesis using that c send_verdict_appends by (metis append.assoc append_Nil2)
qed

lemma gw_authenticate_run:
  assumes "hmac_lawful h" and "length nonce = 32" and "48 \<le> w_room (pr_writers s w)"
  shows "gw_authenticate h w (challenge_image pid nonce @ rs) s =
      (fst (receive_verdict rs), snd (receive_verdict rs), snd (send_auth_response h w nonce s))"
    and "w_out (pr_writers (snd (send_auth_response h w nonce s)) w) = w_out (pr_writers s w) @
      response_image (gw_packet_id_counter s + 1) (compute_response h (auth_key s) nonce)"
  using send_auth_response_done[OF assms(1,3), of nonce]
  by (simp_all add: gw_authenticate_def receive_challenge_image[OF assms(2)] Let_def case_prod_beta)

text \<open>
  C7: the handshake. A client and a server run against each other: what one reads is what
  the other writes, followed by whatever comes after the handshake (\<open>more\<close>). If the connection
  does not break and the response comes in time, both sides come to the same verdict, it is
  acceptance exactly when the keys give the same tag on the nonce, and both have read exactly the
  messages of the handshake.
\<close>

theorem handshake_agrees:
  assumes "hmac_lawful h" and "length nonce = 32"
    and "76 \<le> w_room (pr_writers sv w)" and "48 \<le> w_room (pr_writers cl v)"
    and "w_out (pr_writers sv w) = []" and "w_out (pr_writers cl v) = []"
    and "authenticate_client h nonce False w (w_out (pr_writers cl' v) @ more_s) sv = (ok_s, rest_s, sv')"
    and "gw_authenticate h v (w_out (pr_writers sv' w) @ more_c) cl = (ok_c, rest_c, cl')"
  shows "ok_c = ok_s \<and> (ok_s \<longleftrightarrow> compute_response h (auth_key cl) nonce = server_tag h nonce sv) \<and>
    rest_s = more_s \<and> rest_c = more_c"
proof -
  let ?tag = "compute_response h (auth_key cl) nonce"
  let ?pid = "gw_packet_id_counter cl + 1"
  have "16 + length nonce \<le> w_room (pr_writers sv w)" using assms(2,3) by simp
  then obtain x where x: "w_out (pr_writers sv' w) = challenge_image (gw_packet_id_counter sv + 1) nonce @ x"
    using challenge_first[OF _ assms(7)] assms(5) by auto
  note client = gw_authenticate_run(1)[OF assms(1,2,4), of "gw_packet_id_counter sv + 1" "x @ more_c"]
    gw_authenticate_run(2)[OF assms(1,2,4)]
  have cl': "w_out (pr_writers cl' v) = response_image ?pid ?tag"
    using assms(6,8) x client by simp
  have tag: "length ?tag = 32" using assms(1) by simp
  note server = authenticate_client_run[OF assms(1,2) tag assms(3) assms(7)[unfolded cl']]
  have "x = verdict_image ok_s ?pid" using server(3) x assms(5) by simp
  then have "ok_c = ok_s" "rest_c = more_c"
    using assms(8) x client(1) receive_verdict_image[of ok_s ?pid more_c] by simp_all
  then show ?thesis using server by simp
qed

definition sample_nonce :: bytes where
  "sample_nonce = replicate 32 7"

definition sample_tag :: bytes where
  "sample_tag = server_tag sample_hmac sample_nonce sample_server"

lemma sample_handshake [simp]:
  "length sample_nonce = 32" "length sample_tag = 32" "auth_key sample_client = as_bytes ''secret''"
  "gw_packet_id_counter sample_server = 0" "gw_packet_id_counter sample_client = 0"
  "server_tag sample_hmac sample_nonce sample_server = sample_tag"
  "compute_response sample_hmac (as_bytes ''secret'') sample_nonce = sample_tag"
  by (simp_all add: sample_nonce_def sample_tag_def length_compute_response[OF sample_hmac_lawful])
    (simp_all add: scenario_defs auth_key_def w_room_def)

theorem handshake_agrees_witness:
  "fst (authenticate_client sample_hmac sample_nonce False 0 (response_image 1 sample_tag) sample_server)"
proof -
  define sv where "sv = snd (snd (authenticate_client sample_hmac sample_nonce False 0
      (response_image 1 sample_tag) sample_server))"
  define cl where "cl = snd (snd (gw_authenticate sample_hmac 0 (w_out (pr_writers sv 0)) sample_client))"
  obtain ok rest where a: "authenticate_client sample_hmac sample_nonce False 0
      (response_image 1 sample_tag) sample_server = (ok, rest, sv)" by (metis sv_def prod.collapse)
  obtain x where x: "w_out (pr_writers sv 0) = challenge_image 1 sample_nonce @ x"
    using challenge_first[OF _ a] by auto
  have cl: "w_out (pr_writers cl 0) = response_image 1 sample_tag"
    using gw_authenticate_run(1)[OF sample_hmac_lawful, of sample_nonce sample_client 0 1 x] x
      gw_authenticate_run(2)[OF sample_hmac_lawful, of sample_nonce sample_client 0]
    by (simp add: cl_def)
  obtain okc restc where c: "gw_authenticate sample_hmac 0 (w_out (pr_writers sv 0) @ []) sample_client =
      (okc, restc, cl)" by (metis append_Nil2 cl_def prod.collapse)
  have "ok"
    using handshake_agrees[OF sample_hmac_lawful, of sample_nonce sample_server 0 sample_client 0 cl "[]" ok
        rest sv "[]" okc restc] a c cl by simp
  then show ?thesis using a by simp
qed

section \<open>Soundness\<close>

text \<open>
  C8: the server admits a client only if the first message it sent is a \<open>GwAuthResponse\<close>
  whose 32 bytes of payload are the HMAC of this session's nonce under the server's key, and if it
  came in time. Nothing else that a client can send gets it in.
\<close>

theorem server_admits_only_key_holders:
  assumes "hmac_lawful h" and "authenticate_client h nonce timed_out w rs s = (True, rest, s')"
  shows "\<not> timed_out \<and> (\<exists>p. from_bytes (take 16 rs) = Some p \<and> packet_type p = GwAuthResponse \<and>
    data_size p = 32 \<and> rs = take 16 rs @ server_tag h nonce s @ rest)"
proof -
  obtain p tag rest' where r: "receive_response rs = (Inr (p, tag), rest')"
      "send_challenge nonce w s = (True, snd (send_challenge nonce w s))" and t: "\<not> timed_out"
    using assms(2) by (auto simp: authenticate_client_def Let_def split: prod.splits sum.splits if_splits)
  have conf: "gw_config (snd (send_challenge nonce w s)) = gw_config s"
    by (simp add: send_challenge_def next_packet_id_def gw_write_eq Let_def)
  have "verify_response h (as_bytes (key (general (gw_config s)))) nonce tag" "rest = rest'"
    using assms(2) r t conf
    by (auto simp: authenticate_client_def send_verdict_def Let_def split: prod.splits if_splits)
  then have tag: "tag = server_tag h nonce s" "rest = rest'" by (simp_all add: hmac_auth.verify_iff[OF assms(1)])
  have p: "from_bytes (take 16 rs) = Some p" "packet_type p = GwAuthResponse"
      "16 + unat (data_size p) \<le> length rs" "tag = take (unat (data_size p)) (drop 16 rs)"
      "rest' = drop (16 + unat (data_size p)) rs"
    using r(1) by (auto simp: receive_response_eq split: option.splits if_splits)
  have "unat (data_size p) = length tag" using p(3,4) by simp
  also have "\<dots> = 32" using tag(1) assms(1) by simp
  finally have n: "unat (data_size p) = 32" .
  then have "data_size p = 32" by unat_arith
  moreover have "rs = take 16 rs @ tag @ rest'"
    using p(4,5) n append_take_drop_id[of 16 rs] append_take_drop_id[of 32 "drop 16 rs"] by simp
  ultimately show ?thesis using t p(1,2) tag by auto
qed

theorem server_admits_only_key_holders_witness:
  "\<exists>p rest. from_bytes (take 16 (response_image 1 sample_tag)) = Some p \<and>
     packet_type p = GwAuthResponse \<and> data_size p = 32 \<and>
     response_image 1 sample_tag = take 16 (response_image 1 sample_tag) @ sample_tag @ rest"
proof -
  obtain rest s' where a: "authenticate_client sample_hmac sample_nonce False 0
      (response_image 1 sample_tag @ []) sample_server = (True, rest, s')"
    using authenticate_client_run(1)[OF sample_hmac_lawful, of sample_nonce sample_tag sample_server 0 1 "[]"]
    by (cases "authenticate_client sample_hmac sample_nonce False 0 (response_image 1 sample_tag @ []) sample_server") auto
  show ?thesis using server_admits_only_key_holders[OF sample_hmac_lawful a] by auto
qed

text \<open>
  C27: the client counts the server's verdict as acceptance in exactly these cases: a whole
  \<open>GwConnected\<close> header came, and either it announces fewer than 12 bytes of version data or the
  major version in the 12 bytes that follow is the client's own. A denial, another packet, a
  version mismatch or a broken connection is a refusal.
\<close>

theorem client_accepts_verdict_iff:
  "fst (receive_verdict rs) \<longleftrightarrow>
     (\<exists>p. from_bytes (take 16 rs) = Some p \<and> packet_type p = GwConnected \<and>
       (data_size p < 12 \<or> 28 \<le> length rs \<and> from_le (take 4 (drop 16 rs)) = PROTOCOL_VERSION_MAJOR))"
proof (cases "from_bytes (take 16 rs)")
  case None
  then have "length rs < 16" using from_bytes_None_iff[of "take 16 rs"] by simp
  then show ?thesis using None by (simp add: receive_verdict_def read_exact_def)
next
  case (Some p)
  then have "16 \<le> length rs" using from_bytes_None_iff[of "take 16 rs"] by (cases "length rs < 16") auto
  moreover have "12 \<le> unat (data_size p) \<longleftrightarrow> \<not> data_size p < 12" by (simp add: word_less_nat_alt not_less)
  ultimately show ?thesis using Some
    by (cases "packet_type p") (auto simp: receive_verdict_def read_exact_def slice_range_def Let_def)
qed

end
