(* ===== verification/Server_Theorems.thy ===== *)
theory Server_Theorems
  imports Server_System Handshake Tunnel
begin

text \<open>
  What holds of the server in every reachable state of the task system, what one task can do to
  another, and the operations of the server on every branch.
\<close>

section \<open>A run of the system\<close>

text \<open>One client connects, authenticates, is served, disconnects and is cleaned up after.\<close>

definition sample_peer :: SocketAddr where
  "sample_peer = SocketAddr 1 1"

definition sample_stream :: "bytes \<Rightarrow> gw_stream" where
  "sample_stream bs = \<lparr>gs_reader = response_image 1 sample_tag @ bs, gs_writer = wsock_open 100000\<rparr>"

abbreviation sample_reachable :: "system \<Rightarrow> bool" where
  "sample_reachable \<equiv> reachable zeros_zstd sample_order sample_hmac sample_config sample_process"

lemma reachable_start: "reachable z ho h config p (system_start config p)"
  by (simp add: reachable_def)

lemma reachable_step: "reachable z ho h config p x \<Longrightarrow> system_step z ho h x y \<Longrightarrow> reachable z ho h config p y"
  unfolding reachable_def by (rule rtranclp.rtrancl_into_rtrancl)

lemma reachable_thread:
  "reachable z ho h config p (s, xs @ t # ys) \<Longrightarrow> thread_step z ho h t s us s' \<Longrightarrow>
     reachable z ho h config p (s', xs @ us @ ys)"
  using reachable_step system_step.thread_runs by blast

lemma reachable_alone:
  "reachable z ho h config p (s, [t]) \<Longrightarrow> thread_step z ho h t s us s' \<Longrightarrow> reachable z ho h config p (s', us)"
  using reachable_thread[of z ho h config p s "[]" t "[]" us s'] by simp

lemma authenticate_keeps_counter:
  fixes s :: "'a gateway_scheme"
  assumes "authenticate_client h nonce timed_out w rs s = (ok, rs', s')"
  shows "gw_link_id_counter s' = gw_link_id_counter s"
proof -
  have c: "gw_link_id_counter (snd (send_challenge nonce w s)) = gw_link_id_counter s" for nonce w and s :: "'a gateway_scheme"
    by (simp add: send_challenge_def next_packet_id_eq gw_write_eq Let_def)
  have v: "gw_link_id_counter (snd (send_verdict a i w s)) = gw_link_id_counter s" for a i w and s :: "'a gateway_scheme"
    by (simp add: send_verdict_def gw_write_eq Let_def)
  have "s' = snd (send_challenge nonce w s) \<or>
      (\<exists>a i. s' = snd (send_verdict a i w (snd (send_challenge nonce w s))))"
    using assms by (auto simp: authenticate_client_def Let_def split: prod.splits sum.splits if_splits)
      (metis snd_conv)+
  then show ?thesis using c v by auto
qed

lemma sample_serving_stream:
  obtains s w c where "sample_reachable (s, [Serving sample_peer 5 w bs])"
    and "fmlookup (sv_client_sessions s) sample_peer = Some c" and "cs_session_id c = 5"
    and "sv_session_store s = fmupd 5 [] fmempty" and "sv_client_sessions s = fmupd sample_peer c fmempty"
    and "cs_writer c = w" and "w_room (pr_writers s w) = 99924" and "gw_links s = fmempty" and "pr_next_link s = 0"
    and "gw_link_id_counter s = 1"
proof -
  obtain s0 where start: "system_start sample_config sample_process = (s0, [])"
    by (simp add: system_start_def)
  have s0: "gw_config s0 = sample_config" "sv_session_store s0 = fmempty" "sv_client_sessions s0 = fmempty"
      "gw_links s0 = fmempty" "pr_next_link s0 = 0"
      "gw_link_id_counter s0 = 1"
    using start by (auto simp: system_start_def listen_gateway_start_def GatewayServer_new_def
        Gateway_new_def gateway.defs process.defs SessionStore_new_def sample_process_def)
  obtain w s1 where s1: "accept_gateway (Some sample_peer) (sample_stream bs) s0 = ((sample_peer, w), s1)"
    by (simp add: accept_gateway_def Let_def case_prod_beta)
  have facts: "w_room (pr_writers s1 w) = 100000" "gw_config s1 = sample_config"
      "sv_session_store s1 = fmempty" "sv_client_sessions s1 = fmempty" "gw_links s1 = fmempty" "pr_next_link s1 = 0"
      "gw_link_id_counter s1 = 1"
    using s1 s0 by (auto simp: accept_gateway_def alloc_writer_def replace_session_def sample_stream_def
        wsock_open_def w_room_def Let_def)
  have step: "system_step zeros_zstd sample_order sample_hmac (s0, [])
      (s1, [] @ [Authenticating sample_peer w (gs_reader (sample_stream bs))])"
    by (rule system_step.client_arrives[OF s1])
  have r0: "sample_reachable (s0, [])"
    using reachable_start[of zeros_zstd sample_order sample_hmac sample_config sample_process]
    unfolding start .
  have r1: "sample_reachable (s1, [Authenticating sample_peer w (response_image 1 sample_tag @ bs)])"
    using reachable_step[OF r0 step] by (simp only: append_Nil sample_stream_def gw_stream.simps)
  obtain ok rest s2 where a: "authenticate_client sample_hmac sample_nonce False w
      (response_image 1 sample_tag @ bs) s1 = (ok, rest, s2)" by (metis prod.collapse)
  have "sample_tag = server_tag sample_hmac sample_nonce s1"
    by (simp add: facts(2) sample_config_def)
  then have ok: "ok" "rest = bs" and room: "w_room (pr_writers s2 w) = 99924"
    using authenticate_client_run(1,2,4)[OF sample_hmac_lawful _ _ _ a] facts(1) by simp_all
  have r2: "sample_reachable (s2, [Announcing sample_peer w bs])"
    using a ok by (intro reachable_alone[OF r1] thread_step.authenticated[where nonce = sample_nonce and timed_out = False]) simp_all
  have store: "sv_session_store s2 = fmempty" and none: "sv_client_sessions s2 = fmempty" "gw_links s2 = fmempty" "pr_next_link s2 = 0"
    using only_removes_authenticate[OF a] facts(3-6) by (auto simp: only_removes_def intro!: fmap_ext)
  have counter: "gw_link_id_counter s2 = 1" using authenticate_keeps_counter[OF a] facts(7) by simp
  have r3: "sample_reachable (announce_client 5 s2, [Registering sample_peer 5 w bs])"
    by (intro reachable_alone[OF r2] thread_step.announced) (simp add: store has_session_def)
  let ?s = "insert_session sample_peer 5 w (announce_client 5 s2)"
  have "sample_reachable (?s, [Serving sample_peer 5 w bs])"
    by (intro reachable_alone[OF r3] thread_step.registered)
  then show thesis
    by (rule that, simp add: insert_session_def, simp,
        simp_all add: insert_session_def announce_client_def store none room counter save_session_def Let_def)
qed

lemma sample_serving:
  obtains s w c where "sample_reachable (s, [Serving sample_peer 5 w []])"
    and "fmlookup (sv_client_sessions s) sample_peer = Some c" and "cs_session_id c = 5"
    and "sv_session_store s = fmupd 5 [] fmempty" and "sv_client_sessions s = fmupd sample_peer c fmempty"
    and "cs_writer c = w" and "w_room (pr_writers s w) = 99924" and "gw_links s = fmempty" and "pr_next_link s = 0"
  by (rule sample_serving_stream[of "[]"]) (rule that)

section \<open>Every reachable state\<close>

text \<open>
  C20: no zombie sessions. Whatever connects, disconnects and runs in whatever order: a client
  session in the registry is under its own address, and a task is running that serves exactly this
  session or is about to clean it up.
\<close>

theorem sessions_have_tasks:
  assumes "reachable z ho h config p (s, ts)" and "fmlookup (sv_client_sessions s) a = Some c"
  shows "cs_addr c = a \<and> (\<exists>t \<in> set ts. holds_session t a (cs_session_id c))"
  using reachable_inv[OF assms(1)] assms(2) by (simp add: system_inv_def sessions_inv_def)

theorem sessions_have_tasks_witness:
  "\<exists>s ts c. sample_reachable (s, ts) \<and> fmlookup (sv_client_sessions s) sample_peer = Some c \<and>
     (\<exists>t \<in> set ts. holds_session t sample_peer (cs_session_id c))"
  by (rule sample_serving) (use sessions_have_tasks in blast)



text \<open>
  C22: the registry of links. A registered link is allocated, carries the number under which it is
  registered, belongs to a running task of its application connection, and no two numbers share a
  link.
\<close>

theorem registered_links_are_owned:
  assumes "reachable z ho h config p (s, ts)"
  shows "links_unshared s \<and> (\<forall>l r. fmlookup (gw_links s) l = Some r \<longrightarrow>
    r < pr_next_link s \<and> connection_id (pr_links s r) = l \<and> (\<exists>t \<in> set ts. holds_link t r l))"
proof -
  have inv: "links_inv s ts" using reachable_inv[OF assms] by (simp add: system_inv_def)
  then have "links_unshared s" unfolding links_inv_def links_unshared_def by metis
  then show ?thesis using inv by (simp add: links_inv_def)
qed

theorem registered_links_are_owned_witness:
  "\<exists>s ts. sample_reachable (s, ts) \<and> session_ids ts = [5] \<and> links_unshared s"
proof -
  obtain s w where r: "sample_reachable (s, [Serving sample_peer 5 w []])" by (rule sample_serving)
  have "links_unshared s" using registered_links_are_owned[OF r] by simp
  moreover have "session_ids [Serving sample_peer 5 w []] = [5]" by simp
  ultimately show ?thesis using r by blast
qed

definition server_clean :: "server \<Rightarrow> bool" where
  "server_clean s \<longleftrightarrow> gw_links s = fmempty \<and> sv_link_clients s = fmempty \<and>
     sv_client_sessions s = fmempty \<and> sv_session_store s = fmempty \<and> gw_state s = GsWaiting"

lemma no_tasks_clean:
  assumes "system_inv s []"
  shows "server_clean s"
proof -
  have inv: "links_inv s []" "routes_inv s []" "sessions_inv s []" "store_inv s []"
    using assms by (simp_all add: system_inv_def)
  have empty: "m = fmempty" if "\<And>k. fmlookup m k = None" for m :: "('k, 'v) fmap"
    using that by (intro fmap_ext) simp
  have "gw_links s = fmempty" "sv_link_clients s = fmempty" "sv_client_sessions s = fmempty"
    using inv(1-3) by (auto simp: links_inv_def routes_inv_def sessions_inv_def intro!: empty)
  moreover have "sv_session_store s = fmempty" "gw_state s = GsWaiting"
    using inv(4) by (auto simp: store_inv_def has_session_def fmdom_notD intro!: empty)
  ultimately show ?thesis by (simp add: server_clean_def)
qed

text \<open>
  C6: nothing leaks. When the last task has ended, the server is as it was at the start: no links,
  no routes, no client sessions, an empty session store, and the state \<open>WAITING\<close>. This
  holds for every interleaving, and whatever the clients sent.
\<close>

theorem quiescent_server_is_clean:
  assumes "reachable z ho h config p (s, [])"
  shows "gw_links s = fmempty \<and> sv_link_clients s = fmempty \<and> sv_client_sessions s = fmempty \<and>
    sv_session_store s = fmempty \<and> gw_state s = GsWaiting"
  using no_tasks_clean[OF reachable_inv[OF assms]] by (simp add: server_clean_def)

theorem quiescent_server_is_clean_witness:
  "\<exists>s. sample_reachable (s, []) \<and> sv_session_store s = fmempty"
proof -
  obtain s w where r: "sample_reachable (s, [Serving sample_peer 5 w []])" by (rule sample_serving)
  have "client_turn zeros_zstd w [] s = (False, [], s)" by (simp add: client_turn_def gw.read_end)
  then have "sample_reachable (s, [Leaving sample_peer 5])"
    by (intro reachable_alone[OF r] thread_step.disconnected)
  then have "sample_reachable (cleanup_client sample_order sample_peer 5 s, [])"
    by (rule reachable_alone) (rule thread_step.left)
  then show ?thesis using quiescent_server_is_clean by blast
qed

section \<open>Operations of the server\<close>

text \<open>
  C30: the clean-up after a client. It removes exactly the routes that belong to the client's
  address, and from the registry exactly the links under those numbers; the session goes if it is
  still the one of this task and stays if a newer one has replaced it; the identifier leaves the
  store, others do not; and the server waits again if no session is left.
\<close>

theorem cleanup_releases_exactly_the_client:
  assumes "hash_order_lawful ho" and "s' = cleanup_client ho addr sid s"
    and "current = (\<exists>c. fmlookup (sv_client_sessions s) addr = Some c \<and> cs_session_id c = sid)"
  shows "fmlookup (sv_link_clients s') l =
      (if fmlookup (sv_link_clients s) l = Some addr then None else fmlookup (sv_link_clients s) l) \<and>
    fmlookup (gw_links s') l =
      (if fmlookup (sv_link_clients s) l = Some addr then None else fmlookup (gw_links s) l) \<and>
    fmlookup (sv_client_sessions s') a =
      (if current \<and> a = addr then None else fmlookup (sv_client_sessions s) a) \<and>
    (has_session i (sv_session_store s') \<longleftrightarrow> i \<noteq> sid \<and> has_session i (sv_session_store s)) \<and>
    gw_state s' = (if sv_client_sessions s' = fmempty then GsWaiting else gw_state s)"
proof -
  have all: "set (ho_links ho S) = fset S" for S
    using assms(1) unfolding hash_order_lawful_def by (metis fset_of_list.rep_eq)
  note c = cleanup_eq[OF refl assms(2,3)]
  have "fmlookup (gw_links s') l =
      (if fmlookup (sv_link_clients s) l = Some addr then None else fmlookup (gw_links s) l)"
    unfolding assms(2) cleanup_registry all by (auto intro: fmdomI)
  then show ?thesis using c(4)
    by (auto simp: c(1-3) all fmdomI session_store_defs)
qed

theorem cleanup_releases_exactly_the_client_witness:
  "fmlookup (gw_links (cleanup_client sample_order unspecified_addr 5 (route_app 1 unspecified_addr tunnel_server))) 1 = None"
  using cleanup_releases_exactly_the_client[OF sample_order_lawful refl refl, of unspecified_addr 5
      "route_app 1 unspecified_addr tunnel_server" 1]
  by (simp add: route_app_def)

text \<open>
  C40: a packet \<open>Close\<close> or \<open>OpenFail\<close> closes the link it names and removes it and its route,
  whichever client sent it: \<open>client_exchange\<close> does not ask to whom the link is routed. Other
  links and routes stay.
\<close>

theorem server_closes_any_link:
  assumes "t = Close \<or> t = OpenFail" and "fmlookup (gw_links s) lid = Some r"
    and "server_dispatch z w (PacketGW_new t i lid n) d s = (go_on, s')"
  shows "go_on \<and> link_state (pr_links s' r) = Disconnected \<and> w_shut (link_writer (pr_links s' r)) \<and>
    gw_links s' = fmdrop lid (gw_links s) \<and> sv_link_clients s' = fmdrop lid (sv_link_clients s) \<and>
    (\<forall>q. q \<noteq> r \<longrightarrow> pr_links s' q = pr_links s q)"
proof -
  have "s' = remove_link lid s" "go_on" using assms(1,3) by (auto simp: server_dispatch_def)
  then show ?thesis using assms(2)
    by (simp add: remove_link_def gw_remove_link_eq shutdown_def Let_def)
qed

theorem server_closes_any_link_witness:
  "gw_links (snd (server_dispatch zeros_zstd 0 (PacketGW_new Close 3 1 0) None
     (route_app 1 (SocketAddr 9 9) tunnel_server))) = fmdrop 1 (gw_links tunnel_server)"
proof -
  let ?s = "route_app 1 (SocketAddr 9 9) tunnel_server"
  obtain g s' where d: "server_dispatch zeros_zstd 0 (PacketGW_new Close 3 1 0) None ?s = (g, s')"
    by (metis prod.collapse)
  have "fmlookup (gw_links ?s) 1 = Some 0" "gw_links ?s = gw_links tunnel_server"
    by (simp_all add: route_app_def)
  then show ?thesis using server_closes_any_link[OF disjI1[OF refl] _ d] d by simp
qed



text \<open>
  C39: the registration race. If the last other client is cleaned up between \<open>announce_client\<close>,
  which sets the state to \<open>CONNECTED\<close>, and \<open>insert_session\<close>, the server reports \<open>WAITING\<close> although
  a client is connected and served.
\<close>

theorem waiting_with_a_live_session:
  assumes "\<forall>b c. fmlookup (sv_client_sessions s) b = Some c \<longrightarrow> b = other \<and> cs_session_id c = old"
    and "s' = insert_session a sid w (cleanup_client ho other old (announce_client sid s))"
  shows "server_state s' = GsWaiting \<and>
    (\<exists>c. fmlookup (sv_client_sessions s') a = Some c \<and> cs_session_id c = sid)"
proof -
  let ?t = "announce_client sid s"
  have same: "sv_client_sessions ?t = sv_client_sessions s" by (simp add: announce_client_def Let_def)
  have "fmlookup (sv_client_sessions (cleanup_client ho other old ?t)) b = None" for b
  proof (cases "fmlookup (sv_client_sessions s) b")
    case None
    then show ?thesis unfolding cleanup_eq(2)[OF refl refl refl] same by simp
  next
    case (Some c)
    then have "b = other" "cs_session_id c = old" using assms(1) by blast+
    then show ?thesis using Some unfolding cleanup_eq(2)[OF refl refl refl] same by simp
  qed
  then have "sv_client_sessions (cleanup_client ho other old ?t) = fmempty" by (intro fmap_ext) simp
  then have "gw_state (cleanup_client ho other old ?t) = GsWaiting"
    unfolding cleanup_eq(4)[OF refl refl refl] by simp
  then show ?thesis by (simp add: assms(2) insert_session_def server_state_def)
qed

theorem waiting_with_a_live_session_witness:
  "server_state (insert_session sample_peer 7 0 (cleanup_client sample_order unspecified_addr 5
     (announce_client 7 (insert_session unspecified_addr 5 1 sample_server)))) = GsWaiting"
proof -
  have "\<forall>b c. fmlookup (sv_client_sessions (insert_session unspecified_addr 5 1 sample_server)) b = Some c \<longrightarrow>
      b = unspecified_addr \<and> cs_session_id c = 5"
    by (simp add: insert_session_def scenario_defs)
  from waiting_with_a_live_session[OF this refl] show ?thesis by blast
qed

end
