(* ===== verification/Server_Progress.thy ===== *)
theory Server_Progress
  imports Server_Theorems
begin

text \<open>
  The tasks of the server come to an end: a measure of the work that is left, which every step of
  a task decreases, and the existence of a step as long as a task is left.
\<close>

section \<open>The work that is left\<close>

text \<open>Steps of the tasks alone, without new connections.\<close>

inductive work_step :: "zstd \<Rightarrow> hash_order \<Rightarrow> hmac \<Rightarrow> system \<Rightarrow> system \<Rightarrow> bool" for z ho h where
  works: "thread_step z ho h t s us s' \<Longrightarrow> work_step z ho h (s, xs @ t # ys) (s', xs @ us @ ys)"

inductive_cases work_stepE: "work_step z ho h x y"

fun thread_work :: "server \<Rightarrow> server_thread \<Rightarrow> nat" where
  "thread_work s (Authenticating a w rs) = length rs + 6"
| "thread_work s (Announcing a w rs) = length rs + 5"
| "thread_work s (Registering a i w rs) = length rs + 4"
| "thread_work s (Serving a i w rs) = length rs + 3"
| "thread_work s (Leaving a i) = 1"
| "thread_work s (Choosing k) = reader_size (ts_reader k) + 8"
| "thread_work s (Linking k l c) = reader_size (ts_reader k) + 7"
| "thread_work s (Routing r l c) = reader_size (link_reader (pr_links s r)) + 6"
| "thread_work s (Opening r w l) = reader_size (link_reader (pr_links s r)) + 5"
| "thread_work s (Marking r w l) = reader_size (link_reader (pr_links s r)) + 4"
| "thread_work s (Forwarding r w l) = reader_size (link_reader (pr_links s r)) + 3"
| "thread_work s (Ending r w l) = 1"

definition work_left :: "server \<Rightarrow> server_thread list \<Rightarrow> nat" where
  "work_left s ts = sum_list (map (thread_work s) ts)"

lemma work_left_simps [simp]:
  "work_left s [] = 0" "work_left s (t # ts) = thread_work s t + work_left s ts"
  "work_left s (xs @ ys) = work_left s xs + work_left s ys"
  by (simp_all add: work_left_def)

text \<open>The links that tasks hold are allocated, so that a new link is none of them.\<close>

definition links_allocated :: "server \<Rightarrow> server_thread list \<Rightarrow> bool" where
  "links_allocated s ts \<longleftrightarrow> (\<forall>t \<in> set ts. \<forall>r l. holds_link t r l \<longrightarrow> r < pr_next_link s)"

lemma links_allocated_simps [simp]:
  "links_allocated s []"
  "links_allocated s (t # ts) \<longleftrightarrow> (\<forall>r l. holds_link t r l \<longrightarrow> r < pr_next_link s) \<and> links_allocated s ts"
  "links_allocated s (xs @ ys) \<longleftrightarrow> links_allocated s xs \<and> links_allocated s ys"
  by (auto simp: links_allocated_def)

definition reads_less :: "server \<Rightarrow> server \<Rightarrow> bool" where
  "reads_less s s' \<longleftrightarrow> pr_next_link s \<le> pr_next_link s' \<and> (\<forall>r < pr_next_link s.
     reader_size (link_reader (pr_links s' r)) \<le> reader_size (link_reader (pr_links s r)))"

lemma reads_less_removes: "only_removes s s' \<Longrightarrow> reads_less s s'"
  by (simp add: reads_less_def only_removes_def)

lemma reads_less_work:
  assumes "reads_less s s'" and "links_allocated s ts"
  shows "work_left s' ts \<le> work_left s ts" and "links_allocated s' ts"
proof -
  have "thread_work s' t \<le> thread_work s t" if "t \<in> set ts" for t
    using assms that by (cases t) (auto simp: reads_less_def links_allocated_def)
  then show "work_left s' ts \<le> work_left s ts" unfolding work_left_def by (rule sum_list_mono)
  show "links_allocated s' ts" using assms by (fastforce simp: links_allocated_def reads_less_def)
qed

lemma receive_response_shorter: "receive_response rs = (x, rs') \<Longrightarrow> length rs' \<le> length rs"
  by (auto simp: receive_response_eq split: option.splits if_splits)

lemma authenticate_shorter:
  "authenticate_client h nonce timed_out w rs s = (ok, rs', s') \<Longrightarrow> length rs' \<le> length rs"
  by (auto simp: authenticate_client_def Let_def split: prod.splits sum.splits if_splits
      dest: receive_response_shorter)

lemma thread_step_reads_less:
  assumes "thread_step z ho h t s us s'"
  shows "reads_less s s'"
  using assms
proof cases
  case (announced i a w rs)
  then show ?thesis by (simp add: reads_less_def announce_client_def Let_def)
next
  case (registered a i w rs)
  then show ?thesis by (simp add: reads_less_def insert_session_def)
next
  case (left a i)
  then show ?thesis using cleanup_links[of ho a i s] cleanup_eq(6)[OF refl refl refl, where s = s and addr = a and ho = ho and sid = i]
    by (auto simp: reads_less_def) (metis link_frame(8) order_refl)
next
  case (linked k l r c)
  then show ?thesis by (auto simp: reads_less_def link_app_def alloc_link_def add_link_eq Let_def)
next
  case (routed r l c)
  then show ?thesis by (simp add: reads_less_def route_app_def)
qed (auto intro!: reads_less_removes intro: only_removes_authenticate only_removes_client_turn
      only_removes_app_turn only_removes_choose)

text \<open>The task that runs has less to do afterwards.\<close>

lemma thread_step_works:
  assumes "thread_step z ho h t s us s'"
  shows "work_left s' us < thread_work s t"
  using assms
proof cases
  case (served w rs rs' a i)
  then show ?thesis using client_turn_consumes[OF served(3)] by simp
next
  case (opened r w lid)
  have "pr_links (send_open z w lid s) = pr_links s" by (simp add: send_open_def next_packet_id_eq Let_def)
  then show ?thesis using opened by simp
next
  case (linked k lid r c)
  then show ?thesis by (auto simp: link_app_def alloc_link_def add_link_eq Let_def)
next
  case (forwarded r w lid)
  then show ?thesis using app_turn_reader[OF forwarded(3)] by simp
qed (auto simp: route_app_def dest: authenticate_shorter)

lemma thread_step_allocated:
  assumes "thread_step z ho h t s us s'" and "links_allocated s [t]"
  shows "links_allocated s' us"
  using assms
proof cases
  case (linked k lid r c)
  then show ?thesis by (auto simp: link_app_def alloc_link_def add_link_eq Let_def)
qed (use thread_step_reads_less[OF assms(1)] assms(2) in \<open>auto simp: reads_less_def\<close>)

lemma work_step_decreases:
  assumes "work_step z ho h x y" and "links_allocated (fst x) (snd x)"
  shows "work_left (fst y) (snd y) < work_left (fst x) (snd x)" and "links_allocated (fst y) (snd y)"
proof -
  obtain t s us s' xs ys where x: "x = (s, xs @ t # ys)" "y = (s', xs @ us @ ys)"
      and step: "thread_step z ho h t s us s'"
    using assms(1) by (auto elim: work_stepE)
  have less: "reads_less s s'" using thread_step_reads_less[OF step] .
  have alloc: "links_allocated s xs" "links_allocated s [t]" "links_allocated s ys"
    using assms(2) by (simp_all add: x)
  show "work_left (fst y) (snd y) < work_left (fst x) (snd x)"
    using thread_step_works[OF step] reads_less_work(1)[OF less alloc(1)] reads_less_work(1)[OF less alloc(3)]
    by (simp add: x)
  show "links_allocated (fst y) (snd y)"
    using thread_step_allocated[OF step alloc(2)] reads_less_work(2)[OF less alloc(1)]
      reads_less_work(2)[OF less alloc(3)] by (simp add: x)
qed

lemma system_step_allocated:
  assumes "system_step z ho h x y" and "links_allocated (fst x) (snd x)"
  shows "links_allocated (fst y) (snd y)"
  using assms
proof cases
  case (client_arrives peer k s a w s' ts)
  then show ?thesis using assms(2) reads_less_work(2)[OF reads_less_removes[OF only_removes_accept]] by simp
next
  case (thread_runs t s us s' xs ys)
  then show ?thesis
    using work_step_decreases(2)[OF work_step.works[OF thread_runs(3), of xs ys]] assms(2) by auto
qed (use assms(2) in simp)

lemma reachable_allocated: "reachable z ho h config p (s, ts) \<Longrightarrow> links_allocated s ts"
proof -
  have "links_allocated (fst x) (snd x)" if "(system_step z ho h)\<^sup>*\<^sup>* (system_start config p) x" for x
    using that by induction (auto simp: system_start_def intro: system_step_allocated)
  then show "reachable z ho h config p (s, ts) \<Longrightarrow> links_allocated s ts"
    unfolding reachable_def by fastforce
qed

section \<open>A task can always run\<close>

text \<open>The store is finite, so some identifier is fresh as long as fewer than 2^128 tasks run.\<close>

lemma fresh_identifier:
  assumes "session_count st < 2 ^ 128"
  obtains i where "\<not> has_session i st"
proof -
  have "fset (fmdom st) \<noteq> UNIV"
  proof
    assume "fset (fmdom st) = UNIV"
    then have "session_count st = card (UNIV :: uuid set)" by (simp add: session_count_def fcard.rep_eq)
    then show False using assms by (simp add: card_word)
  qed
  then show thesis using that by (auto simp: has_session_def)
qed

lemma thread_can_step:
  assumes "session_count (sv_session_store s) < 2 ^ 128"
  shows "\<exists>us s'. thread_step z ho h t s us s'"
proof (cases t)
  case (Authenticating a w rs)
  obtain ok rs' s' where "authenticate_client h (replicate 32 0) False w rs s = (ok, rs', s')" by (metis prod.collapse)
  then show ?thesis using Authenticating thread_step.authenticated[of "replicate 32 0"] thread_step.rejected[of "replicate 32 0"]
    by (cases ok) fastforce+
next
  case (Announcing a w rs)
  then show ?thesis using fresh_identifier[OF assms] by (metis thread_step.announced)
next
  case (Serving a i w rs)
  obtain ok rs' s' where "client_turn z w rs s = (ok, rs', s')" by (metis prod.collapse)
  then show ?thesis using Serving by (cases ok) (auto intro: thread_step.intros)
next
  case (Choosing k)
  obtain l c s' where "choose_client ho s = ((l, c), s')" by (metis prod.collapse)
  then show ?thesis using Choosing by (cases c) (auto intro: thread_step.intros)
next
  case (Linking k l c)
  then show ?thesis by (metis prod.collapse thread_step.linked)
next
  case (Forwarding r w l)
  obtain ok s' where "app_turn z r w l s = (ok, s')" by (metis prod.collapse)
  then show ?thesis using Forwarding by (cases ok) (auto intro: thread_step.intros)
qed (blast intro: thread_step.intros)+

lemma session_ids_short: "length (session_ids ts) \<le> length ts"
proof (induction ts)
  case (Cons t ts)
  then show ?case by (cases t) simp_all
qed simp

lemma thread_step_single: "thread_step z ho h t s us s' \<Longrightarrow> length us \<le> 1"
  by (auto elim: thread_stepE)

lemma work_step_system: "work_step z ho h x y \<Longrightarrow> system_step z ho h x y"
  by (auto elim!: work_stepE intro: system_step.thread_runs)

lemma some_work_step:
  assumes "system_inv s ts" and "length ts < 2 ^ 128" and "ts \<noteq> []"
  obtains s' ts' where "work_step z ho h (s, ts) (s', ts')" and "length ts' \<le> length ts"
proof -
  obtain t ys where ts: "ts = t # ys" using assms(3) by (cases ts) auto
  have ids: "distinct (session_ids ts)" "\<And>i. i |\<in>| fmdom (sv_session_store s) \<longleftrightarrow> i \<in> set (session_ids ts)"
    using assms(1) by (simp_all add: system_inv_def store_inv_def has_session_def)
  have "fset (fmdom (sv_session_store s)) = set (session_ids ts)" using ids(2) by blast
  then have "session_count (sv_session_store s) = length (session_ids ts)"
    using distinct_card[OF ids(1)] by (simp add: session_count_def fcard.rep_eq)
  then have "session_count (sv_session_store s) < 2 ^ 128"
    using session_ids_short[of ts] assms(2) by (metis le_less_trans)
  then obtain us s' where step: "thread_step z ho h t s us s'" using thread_can_step by blast
  have "work_step z ho h (s, [] @ t # ys) (s', [] @ us @ ys)" using work_step.works[OF step] .
  moreover have "length (us @ ys) \<le> length ts" using thread_step_single[OF step] ts by simp
  ultimately show thesis using that ts by simp
qed

lemma work_finishes:
  assumes "system_inv s ts" and "links_allocated s ts" and "length ts < 2 ^ 128"
  shows "\<exists>s'. (work_step z ho h)\<^sup>*\<^sup>* (s, ts) (s', []) \<and> system_inv s' []"
  using assms
proof (induction "work_left s ts" arbitrary: s ts rule: less_induct)
  case less
  show ?case
  proof (cases "ts = []")
    case True
    then show ?thesis using less.prems(1) by blast
  next
    case False
    then obtain s1 ts1 where step: "work_step z ho h (s, ts) (s1, ts1)" "length ts1 \<le> length ts"
      using some_work_step[OF less.prems(1,3)] by metis
    have "system_inv s1 ts1" using system_step_inv[OF work_step_system[OF step(1)]] less.prems(1) by simp
    moreover have "work_left s1 ts1 < work_left s ts" "links_allocated s1 ts1"
      using work_step_decreases[OF step(1)] less.prems(2) by simp_all
    ultimately obtain s' where "(work_step z ho h)\<^sup>*\<^sup>* (s1, ts1) (s', [])" "system_inv s' []"
      using less.hyps[of s1 ts1] step(2) less.prems(3) by (metis le_less_trans)
    then show ?thesis using step(1) by (meson converse_rtranclp_into_rtranclp)
  qed
qed

lemma work_bounded:
  "((work_step z ho h) ^^ n) x y \<Longrightarrow> links_allocated (fst x) (snd x) \<Longrightarrow>
     n + work_left (fst y) (snd y) \<le> work_left (fst x) (snd x) \<and> links_allocated (fst y) (snd y)"
proof (induction n arbitrary: y)
  case (Suc n)
  then obtain m where m: "((work_step z ho h) ^^ n) x m" "work_step z ho h m y" by auto
  then show ?case using Suc.IH[OF m(1) Suc.prems(2)] work_step_decreases[OF m(2)] by fastforce
qed simp

section \<open>Properties\<close>



end
