(* ===== verification/Server_Streams.thy ===== *)
theory Server_Streams
  imports Server_Progress Receiving
begin

text \<open>
  The connections of the server in any interleaving of its tasks: what goes out on each is a
  sequence of whole packets, and what concerns one link is what the task of this link says, in its
  order.
\<close>

section \<open>What the operations put on a connection\<close>

text \<open>Two writes in a row, the second only if the first succeeded, or in any case.\<close>

definition pair_written :: "bytes \<Rightarrow> bytes \<Rightarrow> wsock \<Rightarrow> wsock" where
  "pair_written a b k = (if isl (fst (write_all a k)) then snd (write_all a k) else snd (write_all b (snd (write_all a k))))"

lemma puts_two_writes: "puts k (a @ b) (snd (write_all b (snd (write_all a k))))"
  by (rule puts_trans[OF puts_write puts_write])

lemma puts_pair: "puts k (a @ b) (pair_written a b k)"
  unfolding pair_written_def using puts_two_writes puts_broken[OF puts_write[of k a]]
  by (simp del: write_all_ok add: write_all_room)

lemma challenge_writers:
  "pr_writers (snd (send_challenge nonce w s)) =
     (pr_writers s)(w := pair_written (to_bytes (PacketGW_new GwAuthChallenge (gw_packet_id_counter s + 1) 0
       (of_nat (length nonce)))) nonce (pr_writers s w))"
  "pr_next_writer (snd (send_challenge nonce w s)) = pr_next_writer s"
  by (simp_all add: send_challenge_def next_packet_id_eq gw_write_eq pair_written_def Let_def
      del: write_all_ok write_all_result)

lemma verdict_writers:
  "pr_writers (snd (send_verdict True pid w s)) = (pr_writers s)(w := pair_written
     (to_bytes (PacketGW_new GwConnected pid 0 12)) version_data (pr_writers s w))"
  "pr_writers (snd (send_verdict False pid w s)) = (pr_writers s)(w := snd (write_all [0]
     (snd (write_all (to_bytes (PacketGW_new GwDeny pid 0 1)) (pr_writers s w)))))"
  "pr_next_writer (snd (send_verdict a pid w s)) = pr_next_writer s"
  by (simp_all add: send_verdict_def gw_write_eq pair_written_def Let_def del: write_all_ok write_all_result)

lemma send_challenge_sends:
  assumes "length nonce = 32"
  shows "sends z w (on_writer w w' [(PacketGW_new GwAuthChallenge (gw_packet_id_counter s + 1) 0 32, Some nonce)])
    s (snd (send_challenge nonce w' s))"
proof (cases "w = w'")
  case True
  have "sends z w' [(PacketGW_new GwAuthChallenge (gw_packet_id_counter s + 1) 0 32, Some nonce)]
      s (snd (send_challenge nonce w' s))"
  proof (rule sends_raw)
    show "sendable (PacketGW_new GwAuthChallenge (gw_packet_id_counter s + 1) 0 32) (Some nonce)"
      using assms by (auto simp: sendable_def)
    show "puts (pr_writers s w') (to_bytes (PacketGW_new GwAuthChallenge (gw_packet_id_counter s + 1) 0 32) @ nonce)
        (pr_writers (snd (send_challenge nonce w' s)) w')"
      by (simp add: challenge_writers puts_pair assms)
  qed (simp_all add: assms challenge_writers)
  then show ?thesis using True by simp
next
  case False
  then show ?thesis by (simp add: sends_nothing challenge_writers)
qed

definition verdict_packet :: "bool \<Rightarrow> u64 \<Rightarrow> PacketGW \<times> bytes option" where
  "verdict_packet accepted pid =
     (if accepted then (PacketGW_new GwConnected pid 0 12, Some version_data)
      else (PacketGW_new GwDeny pid 0 1, Some [0]))"

lemma send_verdict_sends:
  "sends z w (on_writer w w' [verdict_packet accepted pid]) s (snd (send_verdict accepted pid w' s))"
proof (cases "w = w'")
  case True
  have "sends z w' [(PacketGW_new GwConnected pid 0 12, Some version_data)] s (snd (send_verdict True pid w' s))"
    by (rule sends_raw) (simp_all add: sendable_def verdict_writers puts_pair flip: length_0_conv)
  moreover have "sends z w' [(PacketGW_new GwDeny pid 0 1, Some [0])] s (snd (send_verdict False pid w' s))"
    by (rule sends_raw) (simp_all add: sendable_def verdict_writers puts_two_writes)
  ultimately show ?thesis using True by (cases accepted) (simp_all add: verdict_packet_def)
next
  case False
  then show ?thesis by (cases accepted) (simp_all add: sends_nothing verdict_writers)
qed

lemma authenticate_sends:
  assumes "length nonce = 32" and "authenticate_client h nonce timed_out w' rs s = (ok, rs', s')"
  shows "\<exists>ps. sends z w (on_writer w w' ps) s s'"
proof -
  have "s' = snd (send_challenge nonce w' s) \<or>
      (\<exists>a i. s' = snd (send_verdict a i w' (snd (send_challenge nonce w' s))))"
    using assms(2) by (auto simp: authenticate_client_def Let_def split: prod.splits sum.splits if_splits)
      (metis snd_conv)+
  then show ?thesis
  proof
    assume "s' = snd (send_challenge nonce w' s)"
    then show ?thesis using send_challenge_sends[OF assms(1)] by blast
  next
    assume "\<exists>a i. s' = snd (send_verdict a i w' (snd (send_challenge nonce w' s)))"
    then obtain ps qs where "sends z w (on_writer w w' ps @ on_writer w w' qs) s s'"
      using sends_trans[OF send_challenge_sends[OF assms(1)] send_verdict_sends] by blast
    then have "sends z w (on_writer w w' (ps @ qs)) s s'" by (simp add: on_writer_def split: if_splits)
    then show ?thesis by blast
  qed
qed

lemma send_pong_silent: "silent z lid w s (snd (send_gw_packet z w' (PacketGW_new Pong i 0 0) None s))"
  by (cases "w = w'") (simp_all add: silent_elsewhere silent_packet concerns_def)

lemma remove_link_next_writer [simp]: "pr_next_writer (remove_link lid s) = pr_next_writer s"
  by (simp add: remove_link_def gw_remove_link_eq update_link_def Let_def split: option.split)

lemma update_link_next_writer [simp]: "pr_next_writer (update_link r f s) = pr_next_writer s"
  by (simp add: update_link_def)

lemma silent_from_read:
  assumes "read_packet z rs s = (x, rs', t)" and "silent z lid w t u"
  shows "silent z lid w s u"
proof -
  have "pr_writers t = pr_writers s" "pr_next_writer t = pr_next_writer s"
    using read_frame[of z rs s x rs' t] assms(1) by (simp_all add: read_packet_def)
  then have "silent z lid w s t" by (simp add: silent_nothing)
  then show ?thesis using silent_trans assms(2) by blast
qed

lemma server_dispatch_silent: "silent z lid w s (snd (server_dispatch z w' p d s))"
proof (cases "packet_type p = Ping")
  case True
  have "silent z lid w s (s\<lparr>gw_packet_id_counter := gw_packet_id_counter s + 1\<rparr>)" by (simp add: silent_nothing)
  then show ?thesis using True silent_trans[OF _ send_pong_silent]
    by (simp add: server_dispatch_def send_pong_def next_packet_id_eq Let_def)
next
  case False
  then show ?thesis by (intro silent_nothing)
      (cases "packet_type p"; simp add: server_dispatch_def split: option.split)+
qed

lemma client_turn_silent: "client_turn z w' rs s = (g, rs', s') \<Longrightarrow> silent z lid w s s'"
  using server_dispatch_silent[of z lid w _ w']
  by (auto simp: client_turn_def split: prod.splits option.splits intro: silent_from_read) (metis silent_from_read snd_conv)+

lemma send_open_sends:
  "sends z w (on_writer w w' [(PacketGW_new Open (gw_packet_id_counter s + 1) l 0, None)]) s (send_open z w' l s)"
proof -
  let ?t = "s\<lparr>gw_packet_id_counter := gw_packet_id_counter s + 1\<rparr>"
  have "sends z w (on_writer w w' [(PacketGW_new Open (gw_packet_id_counter s + 1) l 0, None)]) ?t (send_open z w' l s)"
    by (simp add: send_open_def next_packet_id_eq sends_packet Let_def)
  then show ?thesis by (rule sends_after) simp_all
qed

lemma app_end_sends:
  "sends z w (on_writer w w' [(PacketGW_new Close (gw_packet_id_counter s + 1) l 0, None)]) s (app_end z w' l s)"
proof -
  let ?t = "s\<lparr>gw_packet_id_counter := gw_packet_id_counter s + 1\<rparr>"
  have "sends z w (on_writer w w' [(PacketGW_new Close (gw_packet_id_counter s + 1) l 0, None)]) ?t
      (snd (send_gw_packet z w' (PacketGW_new Close (gw_packet_id_counter s + 1) l 0) None ?t))"
    by (simp add: sends_packet)
  then have "sends z w (on_writer w w' [(PacketGW_new Close (gw_packet_id_counter s + 1) l 0, None)]) s
      (snd (send_gw_packet z w' (PacketGW_new Close (gw_packet_id_counter s + 1) l 0) None ?t))"
    by (rule sends_after) simp_all
  then show ?thesis
    by (rule sends_before) (simp_all add: app_end_def next_packet_id_eq Let_def case_prod_beta)
qed

text \<open>A turn with a chunk is its packet; a turn at the end of the stream sends nothing.\<close>

lemma app_turn_sends:
  assumes "app_read 16384 (link_reader (pr_links s r)) = (Inr d, rd)" and "d \<noteq> []"
    and "app_turn z r w' l s = (g, s')"
  shows "sends z w (on_writer w w' [(PacketGW_new Regular (gw_packet_id_counter s + 1) l (of_nat (length d)), Some d)]) s s'"
proof -
  let ?p = "PacketGW_new Regular (gw_packet_id_counter s + 1) l (of_nat (length d))"
  define t where "t = (update_link r (add_incoming (of_nat (length d)))
      (update_link r (\<lambda>l. l\<lparr>link_reader := rd\<rparr>) s))\<lparr>gw_packet_id_counter := gw_packet_id_counter s + 1\<rparr>"
  have "length d \<le> 16384" using app_read_length[OF assms(1)] .
  then have "sends z w (on_writer w w' [(?p, Some d)]) t (snd (send_gw_packet z w' ?p (Some d) t))"
    using assms(2) by (intro sends_packet) simp
  moreover have "s' = snd (send_gw_packet z w' ?p (Some d) t)"
    using assms by (auto simp: app_turn_def next_packet_id_eq t_def Let_def case_prod_beta)
  ultimately show ?thesis using sends_after[of z w _ t s' s] by (simp add: t_def)
qed

section \<open>What the tasks say about a link\<close>

text \<open>The tasks that speak for a link on a connection, and those that will when it is set up.\<close>

fun speaks :: "u16 \<Rightarrow> wref \<Rightarrow> server_thread \<Rightarrow> bool" where
  "speaks lid w (Opening r w' l) \<longleftrightarrow> l = lid \<and> w' = w"
| "speaks lid w (Marking r w' l) \<longleftrightarrow> l = lid \<and> w' = w"
| "speaks lid w (Forwarding r w' l) \<longleftrightarrow> l = lid \<and> w' = w"
| "speaks lid w (Ending r w' l) \<longleftrightarrow> l = lid \<and> w' = w"
| "speaks lid w _ \<longleftrightarrow> False"

fun awaits :: "u16 \<Rightarrow> server_thread \<Rightarrow> bool" where
  "awaits lid (Linking k l c) \<longleftrightarrow> l = lid"
| "awaits lid (Routing r l c) \<longleftrightarrow> l = lid"
| "awaits lid _ \<longleftrightarrow> False"

abbreviation link_data :: "'a process_scheme \<Rightarrow> lref \<Rightarrow> (PacketType \<times> bytes option) list" where
  "link_data s r \<equiv> data_events (chunks 16384 (link_reader (pr_links s r)))"

fun thread_says :: "server \<Rightarrow> server_thread \<Rightarrow> (PacketType \<times> bytes option) list" where
  "thread_says s (Opening r w l) = (Open, None) # link_data s r @ [(Close, None)]"
| "thread_says s (Marking r w l) = link_data s r @ [(Close, None)]"
| "thread_says s (Forwarding r w l) = link_data s r @ [(Close, None)]"
| "thread_says s (Ending r w l) = [(Close, None)]"
| "thread_says s _ = []"

lemma close_owned_writers [simp]:
  "pr_writers (close_owned lids s) = pr_writers s" "pr_next_writer (close_owned lids s) = pr_next_writer s"
  by (induction lids arbitrary: s) (auto simp: gw_remove_link_eq split: option.split)

lemma cleanup_writers [simp]:
  "pr_writers (cleanup_client ho a i s) = pr_writers s"
  "pr_next_writer (cleanup_client ho a i s) = pr_next_writer s"
  by (simp_all add: cleanup_client_def Let_def case_prod_beta)

lemma chunks_read:
  "app_read 16384 rd = (x, rd') \<Longrightarrow>
     chunks 16384 rd = (case x of Inl e \<Rightarrow> [] | Inr d \<Rightarrow> if d = [] then [] else d # chunks 16384 rd')"
  by (simp add: chunks.simps[of _ rd])

lemma app_turn_silent:
  assumes "app_turn z r w' l s = (g, s')" and "l \<noteq> lid \<or> w' \<noteq> w"
  shows "silent z lid w s s'"
proof -
  obtain x rd where a: "app_read 16384 (link_reader (pr_links s r)) = (x, rd)" by fastforce
  show ?thesis
  proof (cases "x = Inr [] \<or> isl x")
    case True
    then show ?thesis using app_turn_stop[OF a True, of z w' l] assms(1) by (auto intro: silent_nothing)
  next
    case False
    then obtain d where d: "x = Inr d" "d \<noteq> []" by (cases x) auto
    show ?thesis using app_turn_sends[OF a[unfolded d(1)] d(2) assms(1), of w] assms(2)
      unfolding silent_def by (fastforce simp: concerns_def on_writer_def split: if_splits)
  qed
qed

lemma thread_step_silent:
  assumes "thread_step z ho h t s us s'" and "\<not> speaks lid w t" and "\<And>a rs. t \<noteq> Authenticating a w rs"
  shows "silent z lid w s s'"
  using assms
proof cases
  case (authenticated nonce timed_out w' rs rs' a)
  then show ?thesis using authenticate_sends[OF _ authenticated(4), of z w] assms(3)
    by (auto simp: silent_def on_writer_def split: if_splits)
next
  case (rejected nonce timed_out w' rs rs' a)
  then show ?thesis using authenticate_sends[OF _ rejected(4), of z w] assms(3)
    by (auto simp: silent_def on_writer_def split: if_splits)
next
  case (opened r w' l)
  then show ?thesis using send_open_sends[of z w w' s l] assms(2)
    unfolding silent_def by (fastforce simp: concerns_def on_writer_def split: if_splits)
next
  case (ended r w' l)
  then show ?thesis using app_end_sends[of z w w' s l] assms(2)
    unfolding silent_def by (fastforce simp: concerns_def on_writer_def split: if_splits)
next
  case (forwarded r w' l)
  then show ?thesis using app_turn_silent[OF forwarded(3)] assms(2) by simp
next
  case (exhausted r w' l)
  then show ?thesis using app_turn_silent[OF exhausted(3)] assms(2) by simp
next
  case (served w' rs rs' a i)
  then show ?thesis using client_turn_silent[OF served(3)] by simp
next
  case (disconnected w' rs rs' a i)
  then show ?thesis using client_turn_silent[OF disconnected(3)] by simp
qed (auto intro!: silent_nothing simp: announce_client_def insert_session_def
    route_app_def choose_client_def next_link_id_def link_app_def alloc_link_def add_link_eq Let_def)

text \<open>The task of a link says what is next, in its order.\<close>

lemma app_turn_says:
  assumes "app_turn z r w lid s = (g, s')"
  shows "\<exists>ps. sends z w ps s s' \<and> said lid ps (link_data s r @ [(Close, None)])
    ((if g then link_data s' r else []) @ [(Close, None)]) (pr_writers s' w)"
proof -
  obtain x rd where a: "app_read 16384 (link_reader (pr_links s r)) = (x, rd)" by fastforce
  show ?thesis
  proof (cases "x = Inr [] \<or> isl x")
    case True
    then have "\<not> g" "sends z w [] s s'" "link_data s r = []"
      using app_turn_stop[OF a True, of z w lid] assms chunks_read[OF a]
      by (auto intro: sends_nothing split: sum.splits)
    then show ?thesis by (intro exI[of _ "[]"]) (simp add: said_def)
  next
    case False
    then obtain d where d: "x = Inr d" "d \<noteq> []" by (cases x) auto
    let ?p = "PacketGW_new Regular (gw_packet_id_counter s + 1) lid (of_nat (length d))"
    note turn = app_turn_chunk[OF a[unfolded d(1)] d(2) refl assms]
    have sends: "sends z w [(?p, Some d)] s s'" using app_turn_sends[OF a[unfolded d(1)] d(2) assms, of w] by simp
    have "w_room (pr_writers s' w) = 0" if "\<not> g" using turn(1,2) that by simp
    then show ?thesis using sends turn(3) chunks_read[OF a] d
      by (intro exI[of _ "[(?p, Some d)]"]) (auto simp: said_def concerns_def)
  qed
qed

lemma thread_step_says:
  assumes "thread_step z ho h t s us s'" and "speaks lid w t"
  shows "\<exists>ps. sends z w ps s s' \<and> said lid ps (thread_says s t) (concat (map (thread_says s') us)) (pr_writers s' w)"
  using assms
proof cases
  case (opened r w' l)
  have "pr_links s' = pr_links s" using opened by (simp add: send_open_def next_packet_id_eq Let_def)
  then show ?thesis using opened send_open_sends[of z w w' s l] assms(2)
    by (intro exI[of _ "[(PacketGW_new Open (gw_packet_id_counter s + 1) l 0, None)]"])
      (auto simp: said_def concerns_def)
next
  case (marked r w' l)
  then show ?thesis by (intro exI[of _ "[]"]) (auto simp: said_def intro: sends_nothing)
next
  case (forwarded r w' l)
  then show ?thesis using app_turn_says[of z r w lid s True s'] assms(2) by auto
next
  case (exhausted r w' l)
  then show ?thesis using app_turn_says[of z r w lid s False s'] assms(2) by auto
next
  case (ended r w' l)
  then show ?thesis using app_end_sends[of z w w' s l] assms(2)
    by (intro exI[of _ "[(PacketGW_new Close (gw_packet_id_counter s + 1) l 0, None)]"])
      (auto simp: said_def concerns_def)
qed (use assms(2) in auto)

section \<open>Each link has one task, and a connection under authentication no other\<close>

fun held :: "server_thread \<Rightarrow> lref list" where
  "held (Routing r l c) = [r]"
| "held (Opening r w l) = [r]"
| "held (Marking r w l) = [r]"
| "held (Forwarding r w l) = [r]"
| "held (Ending r w l) = [r]"
| "held _ = []"

fun proving :: "server_thread \<Rightarrow> wref list" where
  "proving (Authenticating a w rs) = [w]"
| "proving _ = []"

fun writing :: "server_thread \<Rightarrow> wref list" where
  "writing (Announcing a w rs) = [w]"
| "writing (Registering a i w rs) = [w]"
| "writing (Serving a i w rs) = [w]"
| "writing (Linking k l c) = [cs_writer c]"
| "writing (Routing r l c) = [cs_writer c]"
| "writing (Opening r w l) = [w]"
| "writing (Marking r w l) = [w]"
| "writing (Forwarding r w l) = [w]"
| "writing (Ending r w l) = [w]"
| "writing _ = []"

definition held_once :: "server \<Rightarrow> server_thread list \<Rightarrow> bool" where
  "held_once s ts \<longleftrightarrow> distinct (of_all held ts) \<and> (\<forall>r \<in> set (of_all held ts). r < pr_next_link s)"

definition session_writers :: "server \<Rightarrow> wref set" where
  "session_writers s = {cs_writer c |c a. fmlookup (sv_client_sessions s) a = Some c}"

definition writers_inv :: "server \<Rightarrow> server_thread list \<Rightarrow> bool" where
  "writers_inv s ts \<longleftrightarrow> distinct (of_all proving ts) \<and>
     (\<forall>w \<in> set (of_all proving ts). w < pr_next_writer s) \<and>
     (\<forall>w \<in> set (of_all writing ts) \<union> session_writers s. w < pr_next_writer s \<and> w \<notin> set (of_all proving ts))"

lemma session_writers_removes: "only_removes s s' \<Longrightarrow> session_writers s' \<subseteq> session_writers s"
  unfolding session_writers_def only_removes_def by blast

lemma writers_inv_keep:
  assumes "writers_inv s (xs @ t # ys)" and "session_writers s' \<subseteq> session_writers s"
    and "pr_next_writer s' = pr_next_writer s" and "of_all proving us = proving t"
    and "set (of_all writing us) \<subseteq> set (writing t)"
  shows "writers_inv s' (xs @ us @ ys)"
proof -
  have p: "of_all proving (xs @ us @ ys) = of_all proving (xs @ t # ys)" using assms(4) by simp
  have w: "set (of_all writing (xs @ us @ ys)) \<subseteq> set (of_all writing (xs @ t # ys))" using assms(5) by auto
  have inv: "distinct (of_all proving (xs @ t # ys))" "\<forall>v \<in> set (of_all proving (xs @ t # ys)). v < pr_next_writer s"
      "\<forall>v \<in> set (of_all writing (xs @ t # ys)) \<union> session_writers s. v < pr_next_writer s \<and>
        v \<notin> set (of_all proving (xs @ t # ys))"
    using assms(1) unfolding writers_inv_def by (rule conjunct1, rule conjunct1[OF conjunct2], rule conjunct2[OF conjunct2])
  have "v < pr_next_writer s' \<and> v \<notin> set (of_all proving (xs @ us @ ys))"
    if "v \<in> set (of_all writing (xs @ us @ ys)) \<union> session_writers s'" for v
    unfolding assms(3) p by (rule bspec[OF inv(3)]) (use that w assms(2) in blast)
  then show ?thesis using inv(1,2) unfolding writers_inv_def p assms(3) by blast
qed

text \<open>No task opens a connection.\<close>

lemma thread_step_next_writer:
  assumes "thread_step z ho h t s us s'"
  shows "pr_next_writer s' = pr_next_writer s"
proof -
  \<comment> \<open>a connection that no task writes to\<close>
  let ?w = "Suc (Max (set (writing t) \<union> set (proving t)))"
  have w: "?w \<notin> set (writing t) \<union> set (proving t)"
    by (metis List.finite_set Max_ge finite_UnI not_less_eq_eq order_refl)
  have "\<not> speaks 0 ?w t" using w by (cases t) auto
  moreover have "t \<noteq> Authenticating a ?w rs" for a rs using w by (cases t) auto
  ultimately have "silent z 0 ?w s s'" using thread_step_silent[OF assms] by blast
  then show ?thesis by (auto simp: silent_def sends_def)
qed

lemma thread_step_writers:
  assumes "thread_step z ho h t s us s'" and "writers_inv s (xs @ t # ys)"
  shows "writers_inv s' (xs @ us @ ys)"
  using assms
proof cases
  case (authenticated nonce timed_out w rs rs' a)
  then show ?thesis
    using assms(2) thread_step_next_writer[OF assms(1)] session_writers_removes[OF only_removes_authenticate[OF authenticated(4)]]
    by (auto simp: writers_inv_def)
next
  case (rejected nonce timed_out w rs rs' a)
  then show ?thesis
    using assms(2) thread_step_next_writer[OF assms(1)] session_writers_removes[OF only_removes_authenticate[OF rejected(4)]]
    by (auto simp: writers_inv_def)
next
  case (registered a i w rs)
  then have "session_writers s' \<subseteq> insert w (session_writers s)"
    by (auto simp: session_writers_def insert_session_def split: if_splits)
  then show ?thesis using assms(2) thread_step_next_writer[OF assms(1)] registered
    by (auto simp: writers_inv_def)
next
  case (chosen lid c k)
  then have "c \<in> {c |c a. fmlookup (sv_client_sessions s) a = Some c}"
    by (auto simp: choose_client_def pick_client_def next_link_id_def Let_def split: list.splits)
  then have "cs_writer c \<in> session_writers s" by (auto simp: session_writers_def)
  then show ?thesis using assms(2) thread_step_next_writer[OF assms(1)] chosen
      session_writers_removes[OF only_removes_choose[OF chosen(3)]]
    by (auto simp: writers_inv_def)
next
  case (left a i)
  have "session_writers s' \<subseteq> session_writers s"
    using left cleanup_eq(2)[OF refl refl refl, where s = s and addr = a and ho = ho and sid = i]
    by (auto simp: session_writers_def split: if_splits)
  then show ?thesis using writers_inv_keep[OF assms(2), of s' us] left by simp
next
  case (served w rs rs' a i)
  then show ?thesis using writers_inv_keep[OF assms(2), of s' us] thread_step_next_writer[OF assms(1)]
      session_writers_removes[OF only_removes_client_turn[OF served(3)]] by simp
next
  case (disconnected w rs rs' a i)
  then show ?thesis using writers_inv_keep[OF assms(2), of s' us] thread_step_next_writer[OF assms(1)]
      session_writers_removes[OF only_removes_client_turn[OF disconnected(3)]] by auto
next
  case (forwarded r w l)
  then show ?thesis using writers_inv_keep[OF assms(2), of s' us] thread_step_next_writer[OF assms(1)]
      session_writers_removes[OF only_removes_app_turn[OF forwarded(3)]] by simp
next
  case (exhausted r w l)
  then show ?thesis using writers_inv_keep[OF assms(2), of s' us] thread_step_next_writer[OF assms(1)]
      session_writers_removes[OF only_removes_app_turn[OF exhausted(3)]] by simp
next
  case (refused l k)
  then show ?thesis using writers_inv_keep[OF assms(2), of s' us] thread_step_next_writer[OF assms(1)]
      session_writers_removes[OF only_removes_choose[OF refused(3)]] by simp
next
  case (ended r w l)
  then show ?thesis using writers_inv_keep[OF assms(2), of s' us] thread_step_next_writer[OF assms(1)]
      session_writers_removes[OF only_removes_app_end[of s z w l]] by auto
next
  case (opened r w l)
  then show ?thesis using writers_inv_keep[OF assms(2), of s' us] thread_step_next_writer[OF assms(1)]
      session_writers_removes[OF only_removes_send_open[of s z w l]] by simp
next
  case (linked k l r c)
  then have "sv_client_sessions s' = sv_client_sessions s"
    by (auto simp: link_app_def alloc_link_def add_link_eq Let_def)
  then show ?thesis using writers_inv_keep[OF assms(2), of s' us] thread_step_next_writer[OF assms(1)] linked
    by (simp add: session_writers_def)
qed (use writers_inv_keep[OF assms(2), of s' us] thread_step_next_writer[OF assms(1)] in
    \<open>simp add: session_writers_def announce_client_def route_app_def Let_def\<close>)+

lemma held_once_keep:
  assumes "held_once s (xs @ t # ys)" and "pr_next_link s \<le> pr_next_link s'"
    and "of_all held us = held t \<or> of_all held us = []"
  shows "held_once s' (xs @ us @ ys)"
proof -
  have "distinct (of_all held (xs @ us @ ys))" and sub: "set (of_all held (xs @ us @ ys)) \<subseteq> set (of_all held (xs @ t # ys))"
    using assms(1,3) unfolding held_once_def by auto
  moreover have "\<forall>r \<in> set (of_all held (xs @ t # ys)). r < pr_next_link s'"
    using assms(1,2) unfolding held_once_def by (meson order_less_le_trans)
  ultimately show ?thesis unfolding held_once_def by blast
qed

lemma thread_step_held:
  assumes "thread_step z ho h t s us s'" and "held_once s (xs @ t # ys)"
  shows "held_once s' (xs @ us @ ys)"
proof -
  have less: "pr_next_link s \<le> pr_next_link s'" using thread_step_reads_less[OF assms(1)] by (simp add: reads_less_def)
  show ?thesis using assms
  proof cases
    case (linked k l r c)
    then have "r = pr_next_link s" "pr_next_link s' = Suc r"
      by (auto simp: link_app_def alloc_link_def add_link_eq Let_def)
    moreover have "\<forall>q \<in> set (of_all held (xs @ ys)). q < pr_next_link s" "distinct (of_all held (xs @ ys))"
      using assms(2) linked(1) by (auto simp: held_once_def)
    ultimately show ?thesis using linked(2) unfolding held_once_def by (auto simp: less_Suc_eq)
  qed (rule held_once_keep[OF assms(2) less]; simp)+
qed

lemma accept_writers:
  assumes "accept_gateway peer k s = ((a, w), s')"
  shows "w = pr_next_writer s" and "pr_next_writer s' = Suc w"
    and "v < w \<Longrightarrow> puts (pr_writers s v) [] (pr_writers s' v)"
    and "pr_links s' = pr_links s" and "pr_next_link s' = pr_next_link s"
  using assms by (auto simp: accept_gateway_def alloc_writer_def replace_session_def gw_shutdown_writer_def
      Let_def split: option.splits)

definition tasks_inv :: "server \<Rightarrow> server_thread list \<Rightarrow> bool" where
  "tasks_inv s ts \<longleftrightarrow> held_once s ts \<and> writers_inv s ts"

lemma system_step_tasks:
  assumes "system_step z ho h x y" and "tasks_inv (fst x) (snd x)"
  shows "tasks_inv (fst y) (snd y)"
  using assms
proof cases
  case (client_arrives peer k s a w s' ts)
  note acc = accept_writers[OF client_arrives(3)]
  have "session_writers s' \<subseteq> session_writers s"
    using session_writers_removes[OF only_removes_accept[OF client_arrives(3)]] .
  then have "v < w \<and> v \<notin> set (of_all proving ts)" if "v \<in> set (of_all writing ts) \<union> session_writers s'" for v
    using that assms(2) client_arrives(1) acc(1) unfolding tasks_inv_def writers_inv_def by auto
  moreover have "distinct (of_all proving ts)" "\<And>v. v \<in> set (of_all proving ts) \<Longrightarrow> v < w"
    using assms(2) client_arrives(1) acc(1) unfolding tasks_inv_def writers_inv_def by auto
  ultimately have "writers_inv s' (ts @ [Authenticating a w (gs_reader k)])"
    unfolding writers_inv_def by (auto simp: acc(2) less_SucI)
  moreover have "held_once s' (ts @ [Authenticating a w (gs_reader k)])"
    using assms(2) client_arrives(1) acc(5) by (simp add: tasks_inv_def held_once_def)
  ultimately show ?thesis using client_arrives(2) by (simp add: tasks_inv_def)
next
  case (app_arrives s ts k)
  then show ?thesis using assms(2) by (simp add: tasks_inv_def held_once_def writers_inv_def)
next
  case (thread_runs t s us s' xs ys)
  then show ?thesis using assms(2) thread_step_held thread_step_writers by (simp add: tasks_inv_def)
qed

lemma reachable_tasks: "reachable z ho h config p (s, ts) \<Longrightarrow> tasks_inv s ts"
proof -
  have "tasks_inv (fst x) (snd x)" if "(system_step z ho h)\<^sup>*\<^sup>* (system_start config p) x" for x
    using that
  proof induction
    case base
    show ?case by (simp add: system_start_def tasks_inv_def held_once_def writers_inv_def session_writers_def
        listen_gateway_start_def GatewayServer_new_def Gateway_new_def gateway.defs process.defs)
  qed (rule system_step_tasks)
  then show "reachable z ho h config p (s, ts) \<Longrightarrow> tasks_inv s ts" unfolding reachable_def by fastforce
qed

section \<open>Only the task of a link reads its application\<close>

definition same_readers :: "'a process_scheme \<Rightarrow> 'a process_scheme \<Rightarrow> bool" where
  "same_readers s s' \<longleftrightarrow> (\<forall>q. link_reader (pr_links s' q) = link_reader (pr_links s q))"

lemma same_readers_update:
  "(\<And>l. link_reader (f l) = link_reader l) \<Longrightarrow> same_readers s (update_link r f s)"
  by (simp add: same_readers_def)

lemma same_readers_links: "pr_links s' = pr_links s \<Longrightarrow> same_readers s s'"
  by (simp add: same_readers_def)

lemma same_readers_trans: "same_readers s t \<Longrightarrow> same_readers t u \<Longrightarrow> same_readers s u"
  by (simp add: same_readers_def)

lemma remove_link_readers: "same_readers s (remove_link lid s)"
  by (auto simp: same_readers_def remove_link_def gw_remove_link_eq Let_def split: option.split)

lemma dispatch_readers: "same_readers s (snd (server_dispatch z w p d s))"
  by (cases "packet_type p")
    (auto simp: server_dispatch_def send_pong_def next_packet_id_eq Let_def same_readers_links remove_link_readers
      intro!: same_readers_update split: option.split)

lemma client_turn_readers:
  assumes "client_turn z w rs s = (g, rs', s')"
  shows "same_readers s s'"
proof -
  obtain x rs2 t where r: "read_packet z rs s = (x, rs2, t)" by (metis prod.collapse)
  have "pr_links t = pr_links s" using r read_frame(1)[of z rs s x rs2 t] by (simp add: read_packet_def)
  then have st: "same_readers s t" by (rule same_readers_links)
  show ?thesis
  proof (cases x)
    case None
    then show ?thesis using assms r st by (simp add: client_turn_def)
  next
    case (Some y)
    then obtain p d where "x = Some (p, d)" by (cases y) simp
    then have "s' = snd (server_dispatch z w p d t)" using assms r by (simp add: client_turn_def case_prod_beta)
    then show ?thesis using same_readers_trans[OF st dispatch_readers] by simp
  qed
qed

lemma app_turn_readers: "app_turn z r w l s = (g, s') \<Longrightarrow> q \<noteq> r \<Longrightarrow> pr_links s' q = pr_links s q"
  by (auto simp: app_turn_def next_packet_id_eq Let_def case_prod_beta split: sum.splits if_splits)

lemma send_challenge_links [simp]: "pr_links (snd (send_challenge nonce w s)) = pr_links s"
  by (simp add: send_challenge_def next_packet_id_eq gw_write_eq Let_def)

lemma send_verdict_links [simp]: "pr_links (snd (send_verdict a i w s)) = pr_links s"
  by (simp add: send_verdict_def gw_write_eq Let_def)

lemma authenticate_links:
  "authenticate_client h nonce timed_out w rs s = (ok, rs', s') \<Longrightarrow> pr_links s' = pr_links s"
  by (auto simp: authenticate_client_def Let_def split: prod.splits sum.splits if_splits)
    (metis send_challenge_links send_verdict_links snd_conv)+

lemma thread_step_readers:
  assumes "thread_step z ho h t s us s'" and "q \<notin> set (held t)" and "q < pr_next_link s"
  shows "link_reader (pr_links s' q) = link_reader (pr_links s q)"
  using assms
proof cases
  case (authenticated nonce timed_out w rs rs' a)
  then show ?thesis using authenticate_links[OF authenticated(4)] by simp
next
  case (rejected nonce timed_out w rs rs' a)
  then show ?thesis using authenticate_links[OF rejected(4)] by simp
next
  case (served w rs rs' a i)
  then show ?thesis using client_turn_readers[OF served(3)] by (simp add: same_readers_def)
next
  case (disconnected w rs rs' a i)
  then show ?thesis using client_turn_readers[OF disconnected(3)] by (simp add: same_readers_def)
next
  case (left a i)
  then show ?thesis using cleanup_links[of ho a i s q] by auto
next
  case (ended r w l)
  then show ?thesis using remove_link_readers
    by (simp add: app_end_def next_packet_id_eq Let_def case_prod_beta same_readers_def)
next
  case (forwarded r w l)
  then show ?thesis using app_turn_readers[OF forwarded(3), of q] assms(2) by simp
next
  case (exhausted r w l)
  then show ?thesis using app_turn_readers[OF exhausted(3), of q] assms(2) by simp
qed (use assms(2,3) in \<open>auto simp: announce_client_def insert_session_def choose_client_def next_link_id_def
    link_app_def alloc_link_def add_link_eq route_app_def send_open_def next_packet_id_eq Let_def\<close>)

lemma thread_says_kept:
  assumes "\<And>r. r \<in> set (held t) \<Longrightarrow> link_reader (pr_links s' r) = link_reader (pr_links s r)"
  shows "thread_says s' t = thread_says s t"
  using assms by (cases t) simp_all

section \<open>The conversation of a link in any interleaving\<close>

definition speakers :: "u16 \<Rightarrow> wref \<Rightarrow> server_thread list \<Rightarrow> server_thread list" where
  "speakers lid w ts = filter (speaks lid w) ts"

definition server_says :: "u16 \<Rightarrow> wref \<Rightarrow> system \<Rightarrow> (PacketType \<times> bytes option) list" where
  "server_says lid w x = of_all (thread_says (fst x)) (speakers lid w (snd x))"

text \<open>No application connection is being set up under this number.\<close>

definition number_idle :: "u16 \<Rightarrow> server_thread list \<Rightarrow> bool" where
  "number_idle lid ts \<longleftrightarrow> list_all (\<lambda>t. \<not> awaits lid t) ts"

text \<open>Steps of the system during which the number is not handed out again.\<close>

definition numbered_step :: "zstd \<Rightarrow> hash_order \<Rightarrow> hmac \<Rightarrow> u16 \<Rightarrow> system \<Rightarrow> system \<Rightarrow> bool" where
  "numbered_step z ho h lid x y \<longleftrightarrow> system_step z ho h x y \<and> number_idle lid (snd y)"

definition conversing :: "u16 \<Rightarrow> wref \<Rightarrow> system \<Rightarrow> bool" where
  "conversing lid w x \<longleftrightarrow> tasks_inv (fst x) (snd x) \<and> number_idle lid (snd x) \<and>
     length (speakers lid w (snd x)) \<le> 1 \<and> w < pr_next_writer (fst x) \<and> w \<notin> set (of_all proving (snd x))"

lemma speakers_simps [simp]:
  "speakers lid w [] = []" "speakers lid w (t # ts) = (if speaks lid w t then [t] else []) @ speakers lid w ts"
  "speakers lid w (xs @ ys) = speakers lid w xs @ speakers lid w ys"
  by (simp_all add: speakers_def)

lemma speakers_mem: "t \<in> set (speakers lid w ts) \<Longrightarrow> t \<in> set ts"
  by (simp add: speakers_def)

lemma number_idle_simps [simp]:
  "number_idle lid []" "number_idle lid (t # ts) \<longleftrightarrow> \<not> awaits lid t \<and> number_idle lid ts"
  "number_idle lid (xs @ ys) \<longleftrightarrow> number_idle lid xs \<and> number_idle lid ys"
  by (simp_all add: number_idle_def)

lemma thread_step_speakers:
  "thread_step z ho h t s us s' \<Longrightarrow> \<not> awaits lid t \<Longrightarrow>
     speakers lid w us = (if speaks lid w t then us else [])"
  by (auto elim!: thread_stepE)

lemma thread_step_proving: "thread_step z ho h t s us s' \<Longrightarrow> set (of_all proving us) \<subseteq> set (proving t)"
  by (auto elim!: thread_stepE)

text \<open>What the other tasks have to say is not changed.\<close>

lemma others_say:
  assumes "thread_step z ho h t s us s'" and "held_once s (xs @ t # ys)"
    and "set vs \<subseteq> set xs \<union> set ys"
  shows "of_all (thread_says s') vs = of_all (thread_says s) vs"
proof -
  have "thread_says s' v = thread_says s v" if "v \<in> set vs" for v
  proof (rule thread_says_kept)
    fix r assume r: "r \<in> set (held v)"
    have v: "v \<in> set xs \<or> v \<in> set ys" using that assms(3) by blast
    then have "r \<in> set (of_all held xs) \<or> r \<in> set (of_all held ys)" using r by (auto simp: of_all_def)
    then have "r \<notin> set (held t)" "r < pr_next_link s" using assms(2) by (auto simp: held_once_def)
    then show "link_reader (pr_links s' r) = link_reader (pr_links s r)" using thread_step_readers[OF assms(1)] by simp
  qed
  then show ?thesis unfolding of_all_def by (metis map_cong)
qed

lemma numbered_step_good:
  assumes "conversing lid w x" and "numbered_step z ho h lid x y"
  shows "conversing lid w y"
proof -
  have step: "system_step z ho h x y" and idle: "number_idle lid (snd y)"
    using assms(2) by (simp_all add: numbered_step_def)
  have inv: "tasks_inv (fst y) (snd y)" using system_step_tasks[OF step] assms(1) by (simp add: conversing_def)
  have "length (speakers lid w (snd y)) \<le> 1 \<and> w < pr_next_writer (fst y) \<and> w \<notin> set (of_all proving (snd y))"
    using step
  proof cases
    case (client_arrives peer k s a v s' ts)
    then show ?thesis using accept_writers(1,2)[OF client_arrives(3)] assms(1) by (simp add: conversing_def)
  next
    case (app_arrives s ts k)
    then show ?thesis using assms(1) by (simp add: conversing_def)
  next
    case (thread_runs t s us s' xs ys)
    have "length us \<le> 1" using thread_step_single[OF thread_runs(3)] .
    moreover have "\<not> awaits lid t" using thread_runs assms(1) by (simp add: conversing_def)
    ultimately show ?thesis using thread_runs assms(1) thread_step_speakers[OF thread_runs(3)]
        thread_step_next_writer[OF thread_runs(3)] thread_step_proving[OF thread_runs(3)]
      by (auto simp: conversing_def split: if_splits)
  qed
  then show ?thesis using inv idle by (simp add: conversing_def)
qed

lemma numbered_step_says:
  assumes "conversing lid w x" and "numbered_step z ho h lid x y"
  shows "\<exists>ps. all_sendable ps \<and> puts (pr_writers (fst x) w) (images (wire z) ps) (pr_writers (fst y) w) \<and>
    said lid ps (server_says lid w x) (server_says lid w y) (pr_writers (fst y) w)"
proof -
  have "system_step z ho h x y" using assms(2) by (simp add: numbered_step_def)
  then show ?thesis
  proof cases
    case (client_arrives peer k s a v s' ts)
    note acc = accept_writers[OF client_arrives(3)]
    have "thread_says s' = thread_says s" by (rule ext, rule thread_says_kept) (simp add: acc(4))
    then have "server_says lid w y = server_says lid w x"
      using client_arrives(1,2) by (simp add: server_says_def of_all_def)
    moreover have "puts (pr_writers s w) [] (pr_writers s' w)"
      using acc(1,3) assms(1) client_arrives(1) by (simp add: conversing_def)
    ultimately show ?thesis using client_arrives(1,2) by (intro exI[of _ "[]"]) (simp add: said_def)
  next
    case (app_arrives s ts k)
    then show ?thesis by (intro exI[of _ "[]"]) (simp add: said_def server_says_def)
  next
    case (thread_runs t s us s' xs ys)
    have t: "\<not> awaits lid t" "w \<notin> set (proving t)" "held_once s (xs @ t # ys)"
      using assms(1) thread_runs(1) by (simp_all add: conversing_def tasks_inv_def)
    note us = thread_step_speakers[OF thread_runs(3) t(1), of w]
    note others = others_say[OF thread_runs(3) t(3)]
    show ?thesis
    proof (cases "speaks lid w t")
      case True
      then have "speakers lid w xs = []" "speakers lid w ys = []"
        using assms(1) thread_runs(1) by (simp_all add: conversing_def)
      then show ?thesis using thread_step_says[OF thread_runs(3) True] True us thread_runs(1,2)
        by (auto simp: server_says_def sends_def of_all_def)
    next
      case False
      moreover have "t \<noteq> Authenticating a w rs" for a rs using t(2) by auto
      ultimately obtain ps where "sends z w ps s s'" "link_events lid ps = []"
        using thread_step_silent[OF thread_runs(3)] unfolding silent_def by blast
      moreover have "server_says lid w y = server_says lid w x"
        using False us thread_runs(1,2) others[OF le_supI1, of "speakers lid w xs"]
          others[OF le_supI2, of "speakers lid w ys"]
        by (auto simp: server_says_def speakers_def)
      ultimately show ?thesis using thread_runs(1,2)
        by (intro exI[of _ ps]) (simp add: sends_def said_def)
    qed
  qed
qed

interpretation server_talk: conversation "numbered_step z ho h lid" "conversing lid w"
  "\<lambda>x. pr_writers (fst x) w" "server_says lid w" z lid for z ho h lid w
  by unfold_locales (rule numbered_step_good numbered_step_says; assumption)+

text \<open>The task of an application connection, from any point after its route was entered.\<close>

lemma reachable_conversing:
  assumes "reachable z ho h config p (s, ts)" and "number_idle lid ts"
    and "speakers lid w ts = [t]"
  shows "conversing lid w (s, ts)"
proof -
  have inv: "tasks_inv s ts" using reachable_tasks[OF assms(1)] .
  have t: "t \<in> set ts" "speaks lid w t" using assms(3) by (auto simp: speakers_def filter_eq_Cons_iff)
  from t(2) have "w \<in> set (writing t)" by (cases t) simp_all
  with t(1) have "w \<in> set (of_all writing ts)" by (auto simp: of_all_def)
  then show ?thesis using inv assms(2,3) by (auto simp: conversing_def tasks_inv_def writers_inv_def)
qed

end
