(* ===== verification/Server_Runs.thy ===== *)
theory Server_Runs
  imports Server_Streams
begin

text \<open>
  The handlers of the server, written as functions that run to their end, are runs of the task
  system in which no other task comes in between.
\<close>

section \<open>One task alone\<close>

lemma work_run_trans [trans]:
  "(work_step z ho h)\<^sup>*\<^sup>* x y \<Longrightarrow> (work_step z ho h)\<^sup>*\<^sup>* y v \<Longrightarrow> (work_step z ho h)\<^sup>*\<^sup>* x v"
  by (rule rtranclp_trans)

lemma system_run_trans [trans]:
  "(system_step z ho h)\<^sup>*\<^sup>* x y \<Longrightarrow> (system_step z ho h)\<^sup>*\<^sup>* y v \<Longrightarrow> (system_step z ho h)\<^sup>*\<^sup>* x v"
  by (rule rtranclp_trans)

lemma works_once:
  "thread_step z ho h t s us s' \<Longrightarrow> (work_step z ho h)\<^sup>*\<^sup>* (s, xs @ t # ys) (s', xs @ us @ ys)"
  by (rule r_into_rtranclp, rule work_step.works)

lemma app_exchange_runs:
  "(work_step z ho h)\<^sup>*\<^sup>* (s, xs @ Forwarding r w lid # ys) (app_exchange z r w lid s, xs @ ys)"
proof (induction z r w lid s rule: app_exchange.induct)
  case (1 z r w lid s)
  obtain g s' where t: "app_turn z r w lid s = (g, s')" by fastforce
  show ?case
  proof (cases g)
    case True
    then have "(work_step z ho h)\<^sup>*\<^sup>* (s, xs @ Forwarding r w lid # ys) (s', xs @ [Forwarding r w lid] @ ys)"
      using t by (intro works_once thread_step.forwarded) simp
    also have "(work_step z ho h)\<^sup>*\<^sup>* (s', xs @ [Forwarding r w lid] @ ys) (app_exchange z r w lid s', xs @ ys)"
      using "1.IH"[OF t[symmetric]] True by simp
    finally show ?thesis using t True by (simp add: app_exchange.simps[of z r w lid s])
  next
    case False
    then have "(work_step z ho h)\<^sup>*\<^sup>* (s, xs @ Forwarding r w lid # ys) (s', xs @ [Ending r w lid] @ ys)"
      using t by (intro works_once thread_step.exhausted) simp
    also have "(work_step z ho h)\<^sup>*\<^sup>* (s', xs @ [Ending r w lid] @ ys) (app_end z w lid s', xs @ [] @ ys)"
      using works_once[OF thread_step.ended] by simp
    finally show ?thesis using t False by (simp add: app_exchange.simps[of z r w lid s])
  qed
qed

lemma client_exchange_runs:
  "(work_step z ho h)\<^sup>*\<^sup>* (s, xs @ Serving a i w rs # ys) (client_exchange z ho a i w rs s, xs @ ys)"
proof (induction z ho a i w rs s rule: client_exchange.induct)
  case (1 z ho a i w rs s)
  obtain g rs' s' where t: "client_turn z w rs s = (g, rs', s')" by (metis prod.collapse)
  show ?case
  proof (cases g)
    case True
    then have "(work_step z ho h)\<^sup>*\<^sup>* (s, xs @ Serving a i w rs # ys) (s', xs @ [Serving a i w rs'] @ ys)"
      using t by (intro works_once thread_step.served) simp
    also have "(work_step z ho h)\<^sup>*\<^sup>* (s', xs @ [Serving a i w rs'] @ ys) (client_exchange z ho a i w rs' s', xs @ ys)"
      using "1.IH"[OF t[symmetric] _ refl] True by simp
    finally show ?thesis using t True by (simp add: client_exchange.simps[of z ho a i w rs s])
  next
    case False
    then have "(work_step z ho h)\<^sup>*\<^sup>* (s, xs @ Serving a i w rs # ys) (s', xs @ [Leaving a i] @ ys)"
      using t by (intro works_once thread_step.disconnected) simp
    also have "(work_step z ho h)\<^sup>*\<^sup>* (s', xs @ [Leaving a i] @ ys) (cleanup_client ho a i s', xs @ [] @ ys)"
      using works_once[OF thread_step.left] by simp
    finally show ?thesis using t False by (simp add: client_exchange.simps[of z ho a i w rs s])
  qed
qed

text \<open>An application connection, up to its exchange loop.\<close>

lemma handle_app_runs:
  assumes "handle_app_connection z ho k s = (Inr (AppExchange r w lid), s')"
  shows "(work_step z ho h)\<^sup>*\<^sup>* (s, xs @ Choosing k # ys) (s', xs @ Forwarding r w lid # ys)"
proof -
  obtain l c s1 where ch: "choose_client ho s = ((l, Some c), s1)"
    using assms by (cases "choose_client ho s"; cases "fst (choose_client ho s)")
      (auto simp: handle_app_connection_def split: option.splits)
  obtain q s2 where li: "link_app k l s1 = (q, s2)" by fastforce
  let ?s3 = "route_app l (cs_addr c) s2"
  let ?s4 = "send_open z (cs_writer c) l ?s3"
  have eq: "r = q" "w = cs_writer c" "lid = l" "s' = update_link q (set_state Waiting) ?s4"
    using assms ch li by (auto simp: handle_app_connection_def Let_def)
  have "(work_step z ho h)\<^sup>*\<^sup>* (s, xs @ Choosing k # ys) (s1, xs @ [Linking k l c] @ ys)"
    by (rule works_once[OF thread_step.chosen[OF ch]])
  also have "(work_step z ho h)\<^sup>*\<^sup>* \<dots> (s2, xs @ [Routing q l c] @ ys)"
    using works_once[OF thread_step.linked[OF li]] by simp
  also have "(work_step z ho h)\<^sup>*\<^sup>* \<dots> (?s3, xs @ [Opening q (cs_writer c) l] @ ys)"
    using works_once[OF thread_step.routed] by simp
  also have "(work_step z ho h)\<^sup>*\<^sup>* \<dots> (?s4, xs @ [Marking q (cs_writer c) l] @ ys)"
    using works_once[OF thread_step.opened] by simp
  also have "(work_step z ho h)\<^sup>*\<^sup>* \<dots> (s', xs @ [Forwarding r w lid] @ ys)"
    unfolding eq using works_once[OF thread_step.marked] by simp
  finally show ?thesis by simp
qed

lemma handle_app_refused_runs:
  assumes "handle_app_connection z ho k s = (Inl k', s')"
  shows "(work_step z ho h)\<^sup>*\<^sup>* (s, xs @ Choosing k # ys) (s', xs @ ys)"
proof -
  obtain l s1 where ch: "choose_client ho s = ((l, None), s1)"
    using assms by (cases "choose_client ho s"; cases "fst (choose_client ho s)")
      (auto simp: handle_app_connection_def Let_def case_prod_beta split: option.splits)
  then have "s' = s1" using assms by (simp add: handle_app_connection_def)
  then show ?thesis using works_once[OF thread_step.refused[OF ch]] by simp
qed

lemma work_run_system: "(work_step z ho h)\<^sup>*\<^sup>* x y \<Longrightarrow> (system_step z ho h)\<^sup>*\<^sup>* x y"
  by (induction rule: rtranclp_induct) (auto intro: rtranclp.rtrancl_into_rtrancl work_step_system)

text \<open>A gateway connection: authentication and registration, then the exchange loop.\<close>

lemma handle_gateway_runs:
  assumes "length nonce = NONCE_SIZE" and "\<not> has_session sid (sv_session_store s)"
    and "handle_gateway_connection h nonce sid timed_out peer k s = (task, s')"
  shows "(system_step z ho h)\<^sup>*\<^sup>* (s, ts)
    (s', ts @ (case task of Some (ClientExchange a i w rs) \<Rightarrow> [Serving a i w rs] | _ \<Rightarrow> []))"
proof -
  obtain a w s1 where acc: "accept_gateway peer k s = ((a, w), s1)" by (metis prod.collapse)
  obtain ok rs s2 where au: "authenticate_client h nonce timed_out w (gs_reader k) s1 = (ok, rs, s2)"
    by (metis prod.collapse)
  have arrive: "(system_step z ho h)\<^sup>*\<^sup>* (s, ts) (s1, ts @ [Authenticating a w (gs_reader k)])"
    by (rule r_into_rtranclp, rule system_step.client_arrives[OF acc])
  have store: "sv_session_store s2 = sv_session_store s"
    using only_removes_accept[OF acc] only_removes_authenticate[OF au] by (simp add: only_removes_def)
  note work = work_run_system[OF works_once[where xs = ts and ys = "[]"]]
  show ?thesis
  proof (cases ok)
    case False
    then have "task = None" "s' = s2" using assms(3) acc au by (simp_all add: handle_gateway_connection_def)
    then show ?thesis
      using rtranclp_trans[OF arrive work[OF thread_step.rejected[OF assms(1)]]] au False by simp
  next
    case True
    let ?s3 = "announce_client sid s2"
    have eq: "task = Some (ClientExchange a sid w rs)" "s' = insert_session a sid w ?s3"
      using assms(3) acc au True by (simp_all add: handle_gateway_connection_def Let_def)
    have "(system_step z ho h)\<^sup>*\<^sup>* (s1, ts @ [Authenticating a w (gs_reader k)]) (s2, ts @ [Announcing a w rs])"
      using work[OF thread_step.authenticated[OF assms(1)]] au True by simp
    moreover have "(system_step z ho h)\<^sup>*\<^sup>* (s2, ts @ [Announcing a w rs]) (?s3, ts @ [Registering a sid w rs])"
      using work[OF thread_step.announced] assms(2) store by simp
    moreover have "(system_step z ho h)\<^sup>*\<^sup>* (?s3, ts @ [Registering a sid w rs]) (s', ts @ [Serving a sid w rs])"
      using work[OF thread_step.registered] eq(2) by simp
    ultimately show ?thesis using arrive unfolding eq(1) by (auto intro: rtranclp_trans)
  qed
qed

text \<open>From the arrival of a connection to the end of its task.\<close>

lemma app_task_run:
  "case handle_app_connection z ho k s of
     (Inr (AppExchange r w lid), s') \<Rightarrow> (system_step z ho h)\<^sup>*\<^sup>* (s, ts) (app_exchange z r w lid s', ts)
   | (Inr _, s') \<Rightarrow> False
   | (Inl _, s') \<Rightarrow> (system_step z ho h)\<^sup>*\<^sup>* (s, ts) (s', ts)"
proof -
  have arrive: "system_step z ho h (s, ts) (s, ts @ Choosing k # [])" by (rule system_step.app_arrives)
  obtain x s' where x: "handle_app_connection z ho k s = (x, s')" by fastforce
  show ?thesis
  proof (cases x)
    case (Inl k')
    have "(system_step z ho h)\<^sup>*\<^sup>* (s, ts @ Choosing k # []) (s', ts @ [])"
      by (rule work_run_system[OF handle_app_refused_runs]) (use x Inl in simp)
    then show ?thesis using x Inl converse_rtranclp_into_rtranclp[of "system_step z ho h", OF arrive] by simp
  next
    case (Inr task)
    then obtain r w lid where t: "task = AppExchange r w lid"
      using x by (auto simp: handle_app_connection_def Let_def case_prod_beta split: option.splits)
    have "(system_step z ho h)\<^sup>*\<^sup>* (s, ts @ Choosing k # []) (s', ts @ Forwarding r w lid # [])"
      by (rule work_run_system[OF handle_app_runs]) (use x Inr t in simp)
    also have "(system_step z ho h)\<^sup>*\<^sup>* (s', ts @ Forwarding r w lid # []) (app_exchange z r w lid s', ts @ [])"
      by (rule work_run_system[OF app_exchange_runs])
    finally have "(system_step z ho h)\<^sup>*\<^sup>* (s, ts) (app_exchange z r w lid s', ts)"
      using converse_rtranclp_into_rtranclp[of "system_step z ho h", OF arrive] by simp
    then show ?thesis by (simp add: x Inr t)
  qed
qed

lemma gateway_task_run:
  assumes "length nonce = NONCE_SIZE" and "\<not> has_session sid (sv_session_store s)"
  shows "case handle_gateway_connection h nonce sid timed_out peer g s of
     (Some (ClientExchange a i w rs), s') \<Rightarrow>
       (system_step z ho h)\<^sup>*\<^sup>* (s, ts) (s', ts @ [Serving a i w rs]) \<and>
       (system_step z ho h)\<^sup>*\<^sup>* (s, ts) (client_exchange z ho a i w rs s', ts)
   | (Some _, s') \<Rightarrow> False
   | (None, s') \<Rightarrow> (system_step z ho h)\<^sup>*\<^sup>* (s, ts) (s', ts)"
proof -
  obtain x s' where x: "handle_gateway_connection h nonce sid timed_out peer g s = (x, s')" by fastforce
  note run = handle_gateway_runs[OF assms x, of z ho ts]
  show ?thesis
  proof (cases x)
    case None
    then show ?thesis using run x by simp
  next
    case (Some task)
    then obtain a i w rs where t: "task = ClientExchange a i w rs"
      using x by (auto simp: handle_gateway_connection_def Let_def case_prod_beta split: if_splits)
    have "(system_step z ho h)\<^sup>*\<^sup>* (s', ts @ Serving a i w rs # []) (client_exchange z ho a i w rs s', ts @ [])"
      by (rule work_run_system[OF client_exchange_runs])
    then show ?thesis using run x Some t by (auto intro: rtranclp_trans)
  qed
qed

end
