(* ===== verification/Concurrent_Theorems.thy ===== *)
theory Concurrent_Theorems
  imports Server_Runs
begin

text \<open>
  The properties of the server as a system of concurrent tasks that concern its connections:
  whole packets, the tunnel of one link among all others, and the handlers as runs of the system.
\<close>

section \<open>Every step puts whole packets on a connection\<close>

lemma thread_step_sends:
  assumes "thread_step z ho h t s us s'"
  shows "\<exists>ps. sends z w ps s s'"
proof -
  let ?lid = "0 :: u16"
  consider (speaks) "speaks ?lid w t" | (proves) a rs where "t = Authenticating a w rs"
    | (silent) "\<not> speaks ?lid w t" "\<And>a rs. t \<noteq> Authenticating a w rs" by blast
  then show ?thesis
  proof cases
    case speaks
    then show ?thesis using thread_step_says[OF assms] by blast
  next
    case proves
    obtain nonce timed_out ok rs' where "length nonce = 32"
        "authenticate_client h nonce timed_out w rs s = (ok, rs', s')"
      using assms unfolding proves by cases auto
    then show ?thesis using authenticate_sends by blast
  next
    case silent
    then show ?thesis using thread_step_silent[OF assms silent] unfolding silent_def by blast
  qed
qed

lemma system_step_sends:
  assumes "system_step z ho h x y" and "w < pr_next_writer (fst x)"
  shows "w < pr_next_writer (fst y) \<and> (\<exists>ps. all_sendable ps \<and>
    puts (pr_writers (fst x) w) (images (wire z) ps) (pr_writers (fst y) w))"
  using assms
proof cases
  case (client_arrives peer k s a v s' ts)
  then show ?thesis using accept_writers[OF client_arrives(3)] assms(2)
    by (auto intro!: exI[of _ "[]"])
next
  case (app_arrives s ts k)
  then show ?thesis using assms(2) by (auto intro!: exI[of _ "[]"])
next
  case (thread_runs t s us s' xs ys)
  then show ?thesis using thread_step_sends[OF thread_runs(3), of w] assms(2) by (auto simp: sends_def)
qed

lemma system_run_sends:
  assumes "(system_step z ho h)\<^sup>*\<^sup>* x y" and "w < pr_next_writer (fst x)"
  shows "w < pr_next_writer (fst y) \<and> (\<exists>ps. all_sendable ps \<and>
    puts (pr_writers (fst x) w) (images (wire z) ps) (pr_writers (fst y) w))"
  using assms(1)
proof induction
  case base
  show ?case using assms(2) by (auto intro!: exI[of _ "[]"])
next
  case (step y y')
  then obtain ps qs where "w < pr_next_writer (fst y')" "all_sendable (ps @ qs)"
      "puts (pr_writers (fst x) w) (images (wire z) ps) (pr_writers (fst y) w)"
      "puts (pr_writers (fst y) w) (images (wire z) qs) (pr_writers (fst y') w)"
    using system_step_sends[OF step(2), of w] by auto
  then show ?case using puts_trans[of _ "images (wire z) ps" _ "images (wire z) qs"]
    by (intro conjI exI[of _ "ps @ qs"]) auto
qed

section \<open>A run of the system with an application\<close>

lemma app_exchange_budget:
  "budget (pr_writers (app_exchange z r w lid s) w) = budget (pr_writers s w)"
proof (induction z r w lid s rule: app_exchange.induct)
  case (1 z r w lid s)
  obtain x rd where a: "app_read 16384 (link_reader (pr_links s r)) = (x, rd)" by fastforce
  obtain g s' where t: "app_turn z r w lid s = (g, s')" by fastforce
  have "budget (pr_writers s' w) = budget (pr_writers s w)"
  proof (cases "x = Inr [] \<or> isl x")
    case True
    then show ?thesis using app_turn_stop[OF a True, of z w lid] t by auto
  next
    case False
    then obtain d where d: "x = Inr d" "d \<noteq> []" by (cases x) auto
    show ?thesis using app_turn_chunk(2)[OF a[unfolded d(1)] d(2) refl t] by simp
  qed
  then show ?case using "1.IH"[OF t[symmetric]] t
    by (cases g) (simp_all add: app_exchange.simps[of z r w lid s] app_end_writers)
qed

definition sample_app :: tcp_stream where
  "sample_app = \<lparr>ts_reader = [Inr [1, 2, 3], Inr [4]], ts_writer = wsock_open 1000\<rparr>"

lemma sample_link_stream:
  fixes k :: tcp_stream
  obtains s r w where "sample_reachable (s, [Serving sample_peer 5 w bs, Forwarding r w 1])"
    and "link_reader (pr_links s r) = ts_reader k" and "w_room (pr_writers s w) = 99908"
    and "link_writer (pr_links s r) = ts_writer k" and "gw_links s = fmupd 1 r fmempty"
    and "pr_next_link s = Suc r"
proof -
  obtain s w c where r: "sample_reachable (s, [Serving sample_peer 5 w bs])"
    and s: "sv_client_sessions s = fmupd sample_peer c fmempty" "cs_writer c = w" "w_room (pr_writers s w) = 99924"
      "gw_links s = fmempty" "gw_link_id_counter s = 1"
    by (rule sample_serving_stream)
  have pick: "pick_client sample_order t = Some c" if "sv_client_sessions t = sv_client_sessions s" for t
    unfolding pick_client_def that s(1) by (simp add: sample_order_def sorted_list_of_fset.rep_eq)
  obtain s1 where ch: "choose_client sample_order s = ((1, Some c), s1)"
      and s1: "pr_links s1 = pr_links s" "pr_next_link s1 = pr_next_link s" "pr_writers s1 = pr_writers s" "gw_links s1 = gw_links s"
    by (simp add: choose_client_def next_link_id_def Let_def pick s(5))
  obtain q s' where h: "handle_app_connection zeros_zstd sample_order k s = (Inr (AppExchange q w 1), s')"
      and s': "link_reader (pr_links s' q) = ts_reader k" "w_room (pr_writers s' w) = 99908"
        "link_writer (pr_links s' q) = ts_writer k" "gw_links s' = fmupd 1 q fmempty" "pr_next_link s' = Suc q"
    using ch s1 s(2-4)
    by (simp add: handle_app_connection_def link_app_def alloc_link_def add_link_eq route_app_def send_open_def
        next_packet_id_eq send_writer Let_def wire_def prepare_packet_def)
  have "(system_step zeros_zstd sample_order sample_hmac) (s, [Serving sample_peer 5 w bs])
      (s, [Serving sample_peer 5 w bs] @ [Choosing k])" by (rule system_step.app_arrives)
  then have "sample_reachable (s, [Serving sample_peer 5 w bs] @ Choosing k # [])"
    using reachable_step[OF r] by simp
  moreover have "(system_step zeros_zstd sample_order sample_hmac)\<^sup>*\<^sup>*
      (s, [Serving sample_peer 5 w bs] @ Choosing k # []) (s', [Serving sample_peer 5 w bs] @ Forwarding q w 1 # [])"
    by (rule work_run_system[OF handle_app_runs[OF h]])
  ultimately have "sample_reachable (s', [Serving sample_peer 5 w bs, Forwarding q w 1])"
    unfolding reachable_def by (simp add: rtranclp_trans)
  then show thesis using that s' by blast
qed

lemma sample_link:
  fixes k :: tcp_stream
  obtains s r w lid where "sample_reachable (s, [Serving sample_peer 5 w [], Forwarding r w lid])"
    and "link_reader (pr_links s r) = ts_reader k" and "w_room (pr_writers s w) = 99908"
    and "link_writer (pr_links s r) = ts_writer k" and "fmlookup (gw_links s) lid = Some r"
proof -
  obtain s r w where link: "sample_reachable (s, [Serving sample_peer 5 w [], Forwarding r w 1])"
    "link_reader (pr_links s r) = ts_reader k" "w_room (pr_writers s w) = 99908" "link_writer (pr_links s r) = ts_writer k"
    and reg: "gw_links s = fmupd 1 r fmempty" by (rule sample_link_stream)
  have "fmlookup (gw_links s) 1 = Some r" unfolding reg by simp
  then show thesis by (rule that[OF link])
qed

lemma sample_forwarding:
  obtains s r w lid where "sample_reachable (s, [Serving sample_peer 5 w [], Forwarding r w lid])"
    and "link_reader (pr_links s r) = [Inr [1, 2, 3], Inr [4]]" and "w_room (pr_writers s w) = 99908"
  by (rule sample_link[of sample_app]) (simp add: sample_app_def)

text \<open>A run of tasks among which none is choosing a client hands out no number.\<close>

fun chooses :: "server_thread \<Rightarrow> bool" where
  "chooses (Choosing k) \<longleftrightarrow> True"
| "chooses _ \<longleftrightarrow> False"

lemma work_run_numbered:
  assumes "(work_step z ho h)\<^sup>*\<^sup>* x y" and "list_all (\<lambda>t. \<not> chooses t \<and> \<not> awaits lid t) (snd x)"
  shows "(numbered_step z ho h lid)\<^sup>*\<^sup>* x y \<and> list_all (\<lambda>t. \<not> chooses t \<and> \<not> awaits lid t) (snd y)"
  using assms(1)
proof induction
  case (step y y')
  then obtain t s us s' xs ys where y: "y = (s, xs @ t # ys)" "y' = (s', xs @ us @ ys)" and t: "thread_step z ho h t s us s'"
    by (auto elim: work_stepE)
  have "\<not> chooses t" "\<not> awaits lid t" using step.IH y(1) by simp_all
  then have "list_all (\<lambda>t. \<not> chooses t \<and> \<not> awaits lid t) us" using t by (auto elim!: thread_stepE)
  then have all: "list_all (\<lambda>t. \<not> chooses t \<and> \<not> awaits lid t) (snd y')" using step.IH y by simp
  then have "number_idle lid (snd y')" by (auto simp: number_idle_def list_all_iff)
  then have "numbered_step z ho h lid y y'" using work_step_system[OF step.hyps(2)] by (simp add: numbered_step_def)
  then show ?case using step.IH all by (auto intro: rtranclp.rtrancl_into_rtrancl)
qed (use assms(2) in simp)

definition client_linked :: "u16 \<Rightarrow> client" where
  "client_linked lid = with_link (set_state Connected (Link_new \<lparr>ts_reader = [], ts_writer = wsock_open 1000\<rparr> lid)) sample_client"

lemma client_linked_live [simp]: "link_live lid 0 (client_linked lid)"
  by (auto simp: client_linked_def scenario_defs link_live_def set_state_def Link_new_def split: if_splits)

lemma client_linked_writer [simp]:
  "w_out (link_writer (pr_links (client_linked lid) 0)) = []"
  "w_room (link_writer (pr_links (client_linked lid) 0)) = 1000"
  by (simp_all add: client_linked_def scenario_defs w_room_def)

lemma sample_app_run:
  obtains s r w lid s' sent where
    "sample_reachable (s, [Serving sample_peer 5 w [], Forwarding r w lid])"
    and "(work_step zeros_zstd sample_order sample_hmac)\<^sup>*\<^sup>* (s, [Serving sample_peer 5 w [], Forwarding r w lid]) (s', [Serving sample_peer 5 w []])"
    and "w_out (pr_writers s' w) = w_out (pr_writers s w) @ sent" and "0 < w_room (pr_writers s' w)"
    and "app_bytes (link_reader (pr_links s r)) = [1, 2, 3, 4]" and "length sent = 52"
proof -
  obtain s r w lid where r: "sample_reachable (s, [Serving sample_peer 5 w [], Forwarding r w lid])"
    and s: "link_reader (pr_links s r) = [Inr [1, 2, 3], Inr [4]]" "w_room (pr_writers s w) = 99908"
    by (rule sample_forwarding)
  let ?s = "app_exchange zeros_zstd r w lid s"
  have run: "(work_step zeros_zstd sample_order sample_hmac)\<^sup>*\<^sup>*
      (s, [Serving sample_peer 5 w [], Forwarding r w lid]) (?s, [Serving sample_peer 5 w []])"
    using app_exchange_runs[of zeros_zstd sample_order sample_hmac s "[Serving sample_peer 5 w []]" r w lid "[]"] by simp
  let ?sent = "images (wire zeros_zstd) (app_stream lid (gw_packet_id_counter s) [[1, 2, 3], [4]])"
  have len: "length ?sent = 52" by (simp add: wire_def prepare_packet_def)
  have ch: "chunks 16384 (link_reader (pr_links s r)) = [[1, 2, 3], [4]]"
    by (simp add: s(1) chunks.simps[of _ "_ # _"] chunks.simps[of _ "[]"])
  have out: "w_out (pr_writers ?s w) = w_out (pr_writers s w) @ ?sent"
    unfolding server_app_stream ch s(2) using len by simp
  have "budget (pr_writers ?s w) = budget (pr_writers s w)" by (rule app_exchange_budget)
  then have "w_room (pr_writers ?s w) > 0" unfolding budget_def out s(2) length_append len by simp
  then show thesis using that[OF r run out] len by (simp add: s(1))
qed

section \<open>Properties\<close>

text \<open>
  The tunnel in any interleaving. The server runs on from any reachable state in which the task
  of the link \<open>lid\<close> forwards its user's data on the connection \<open>w\<close>, with any number of other
  users, clients and tasks, as long as the number is not handed out again. What is sent on \<open>w\<close>
  meanwhile, with the packets of all links mixed, is read by the exchange loop of a client that has
  connected the link. Then its application gets a first part of what the user wrote; and when the
  task has ended, nothing broke, and the application accepts it, it gets everything and is closed.
\<close>

theorem concurrent_tunnel_to_client:
  assumes "zstd_lawful z" and "reachable z ho h config p (s, ts)"
    and "speakers lid w ts = [Forwarding r w lid]" and "number_idle lid ts"
    and "(numbered_step z ho h lid)\<^sup>*\<^sup>* (s, ts) (s', ts')"
    and "w_out (pr_writers s' w) = w_out (pr_writers s w) @ sent"
    and "link_live lid q cl" and "gateway_exchange z v sent cl = (rs, cl')"
  shows "\<exists>got. w_out (link_writer (pr_links cl' q)) = w_out (link_writer (pr_links cl q)) @ got \<and>
    prefix got (app_bytes (link_reader (pr_links s r))) \<and>
    (speakers lid w ts' = [] \<and> w_room (pr_writers s' w) > 0 \<and>
      length (app_bytes (link_reader (pr_links s r))) \<le> w_room (link_writer (pr_links cl q)) \<longrightarrow>
      got = app_bytes (link_reader (pr_links s r)) \<and> link_state (pr_links cl' q) = Disconnected)"
proof -
  have start: "conversing lid w (s, ts)" using reachable_conversing[OF assms(2,4,3)] .
  obtain ps where ps: "all_sendable ps" "puts (pr_writers s w) (images (wire z) ps) (pr_writers s' w)"
      "said lid ps (server_says lid w (s, ts)) (server_says lid w (s', ts')) (pr_writers s' w)"
    using server_talk.run_says[OF assms(5) start] by auto
  let ?ds = "chunks 16384 (link_reader (pr_links s r))"
  have says: "server_says lid w (s, ts) = data_events ?ds @ [(Close, None)]"
    by (simp add: server_says_def assms(3))
  have bytes: "concat ?ds = app_bytes (link_reader (pr_links s r))" by (simp add: concat_chunks)
  have cl: "cl' = snd (gateway_exchange z v sent cl)" using assms(8) by simp
  show ?thesis
    by (rule client_end.conversation_delivered[OF assms(1,7) ps(1,2) assms(6) ps(3)[unfolded says] cl, unfolded bytes])
      (auto simp: server_says_def)
qed

theorem concurrent_tunnel_to_client_witness:
  "\<exists>s ts s' sent w lid cl'. sample_reachable (s, ts) \<and>
     (system_step zeros_zstd sample_order sample_hmac)\<^sup>*\<^sup>* (s, ts) (s', [Serving sample_peer 5 w []]) \<and>
     w_out (pr_writers s' w) = w_out (pr_writers s w) @ sent \<and>
     snd (gateway_exchange zeros_zstd 0 sent (client_linked lid)) = cl' \<and>
     w_out (link_writer (pr_links cl' 0)) = [1, 2, 3, 4] \<and> link_state (pr_links cl' 0) = Disconnected"
proof -
  obtain s r w lid s' sent where
    run: "sample_reachable (s, [Serving sample_peer 5 w [], Forwarding r w lid])"
      "(work_step zeros_zstd sample_order sample_hmac)\<^sup>*\<^sup>* (s, [Serving sample_peer 5 w [], Forwarding r w lid]) (s', [Serving sample_peer 5 w []])"
    and out: "w_out (pr_writers s' w) = w_out (pr_writers s w) @ sent"
    and s': "0 < w_room (pr_writers s' w)" "app_bytes (link_reader (pr_links s r)) = [1, 2, 3, 4]"
    by (rule sample_app_run)
  let ?ts = "[Serving sample_peer 5 w [], Forwarding r w lid]"
  have idle: "number_idle lid ?ts" "speakers lid w ?ts = [Forwarding r w lid]" by simp_all
  have numbered: "(numbered_step zeros_zstd sample_order sample_hmac lid)\<^sup>*\<^sup>* (s, ?ts) (s', [Serving sample_peer 5 w []])"
    by (rule conjunct1[OF work_run_numbered[OF run(2)]]) simp
  obtain rs cl' where ex: "gateway_exchange zeros_zstd 0 sent (client_linked lid) = (rs, cl')" by fastforce
  have "w_out (link_writer (pr_links cl' 0)) = [1, 2, 3, 4] \<and> link_state (pr_links cl' 0) = Disconnected"
    using concurrent_tunnel_to_client[OF zeros_zstd_lawful run(1) idle(2,1) numbered out client_linked_live ex] s'
    by simp
  then show ?thesis using run(1) work_run_system[OF run(2)] out ex by (metis snd_conv)
qed

text \<open>
  C12: the connections of the server stay readable in any interleaving of its tasks. Whatever runs,
  what goes out on a connection is a sequence of whole packets, each with a header that describes
  its payload; only when the connection breaks the last of them may be cut off, and nothing follows.
\<close>

theorem connections_carry_whole_packets:
  assumes "(system_step z ho h)\<^sup>*\<^sup>* (s, ts) (s', ts')" and "w < pr_next_writer s"
  shows "\<exists>ps. list_all (\<lambda>(p, d). sendable p d) ps \<and>
    (w_out (pr_writers s' w) = w_out (pr_writers s w) @ images (wire z) ps \<or>
     w_room (pr_writers s' w) = 0 \<and> (\<exists>n. w_out (pr_writers s' w) = w_out (pr_writers s w) @ take n (images (wire z) ps)))"
  using system_run_sends[OF assms(1)] assms(2) unfolding all_sendable_def puts_def by fastforce

theorem connections_carry_whole_packets_witness:
  "\<exists>s w s' ts ts' ps. (system_step zeros_zstd sample_order sample_hmac)\<^sup>*\<^sup>* (s, ts) (s', ts') \<and> ps \<noteq> [] \<and>
     list_all (\<lambda>(p, d). sendable p d) ps \<and>
     w_out (pr_writers s' w) = w_out (pr_writers s w) @ images (wire zeros_zstd) ps"
proof -
  obtain s r w lid s' sent where
    run: "sample_reachable (s, [Serving sample_peer 5 w [], Forwarding r w lid])"
      "(work_step zeros_zstd sample_order sample_hmac)\<^sup>*\<^sup>* (s, [Serving sample_peer 5 w [], Forwarding r w lid]) (s', [Serving sample_peer 5 w []])"
    and out: "w_out (pr_writers s' w) = w_out (pr_writers s w) @ sent" "0 < w_room (pr_writers s' w)" "length sent = 52"
    by (rule sample_app_run)
  have w: "w < pr_next_writer s" using reachable_tasks[OF run(1)] by (simp add: tasks_inv_def writers_inv_def)
  obtain ps where ps: "list_all (\<lambda>(p, d). sendable p d) ps"
      "w_out (pr_writers s' w) = w_out (pr_writers s w) @ images (wire zeros_zstd) ps"
    using connections_carry_whole_packets[OF work_run_system[OF run(2)] w] out(2) by auto
  moreover have "ps \<noteq> []" using ps(2) out(1,3) by auto
  ultimately show ?thesis using work_run_system[OF run(2)] by blast
qed

text \<open>
  C13: the references of the program are well typed in every reachable state. Every link that a task
  or the registry refers to, and every connection that a task writes to or a session holds, has been
  allocated; no link is read by two tasks, and a connection under authentication is known to the
  task that authenticates it and to nobody else.
\<close>

theorem references_are_well_typed:
  assumes "reachable z ho h config p (s, ts)"
  shows "distinct (of_all held ts) \<and> distinct (of_all proving ts) \<and>
    (\<forall>r \<in> set (of_all held ts) \<union> fset (fmran (gw_links s)). r < pr_next_link s) \<and>
    (\<forall>w \<in> set (of_all proving ts) \<union> set (of_all writing ts) \<union> session_writers s. w < pr_next_writer s) \<and>
    set (of_all proving ts) \<inter> (set (of_all writing ts) \<union> session_writers s) = {}"
proof -
  have "tasks_inv s ts" by (rule reachable_tasks[OF assms])
  moreover have "links_inv s ts" using reachable_inv[OF assms] by (simp add: system_inv_def)
  ultimately show ?thesis
    unfolding tasks_inv_def held_once_def writers_inv_def links_inv_def by (auto simp: fmlookup_ran_iff)
qed

theorem references_are_well_typed_witness:
  "\<exists>s ts. sample_reachable (s, ts) \<and> ts \<noteq> [] \<and> (\<forall>w \<in> session_writers s. w < pr_next_writer s)"
proof -
  obtain s r w lid where "sample_reachable (s, [Serving sample_peer 5 w [], Forwarding r w lid])"
    by (rule sample_forwarding)
  then show ?thesis using references_are_well_typed by blast
qed



end
