(* ===== verification/Half_Close.thy ===== *)
theory Half_Close
  imports Concurrent_Theorems
begin

text \<open>
  A user of the server that ends its sending side. The task of its link takes the end of the input for
  the end of the connection: the link leaves the registry, and nothing that the application behind
  the client still answers reaches the user, whatever the other tasks do.
\<close>

section \<open>A link of the server that is no longer registered\<close>

definition hears_nothing :: "lref \<Rightarrow> server \<Rightarrow> server \<Rightarrow> bool" where
  "hears_nothing q s s' \<longleftrightarrow> link_gone q s' \<and> w_out (link_writer (pr_links s' q)) = w_out (link_writer (pr_links s q))"

lemma hears_nothing_removes:
  assumes "only_removes s s'" and "link_gone q s"
    and "w_out (link_writer (pr_links s' q)) = w_out (link_writer (pr_links s q))"
  shows "hears_nothing q s s'"
  using assms unfolding hears_nothing_def only_removes_def link_gone_def by metis

lemma client_turn_deaf:
  assumes "client_turn z w rs s = (g, rs', s')" and "link_gone q s"
  shows "pr_links s' q = pr_links s q"
proof -
  obtain x rs2 t where r: "read_packet z rs s = (x, rs2, t)" by (metis prod.collapse)
  have t: "pr_links t = pr_links s" "gw_links t = gw_links s" "pr_next_link t = pr_next_link s"
    using read_frame[of z rs s x rs2 t] r by (simp_all add: read_packet_def)
  then have gone: "link_gone q t" using assms(2) by (simp add: link_gone_def)
  show ?thesis
  proof (cases x)
    case None
    then show ?thesis using assms r t by (simp add: client_turn_def)
  next
    case (Some y)
    then obtain p d where "x = Some (p, d)" by (cases y) simp
    then have "server_dispatch z w p d t = (g, s')" using assms(1) r by (simp add: client_turn_def split: prod.splits)
    then show ?thesis using server_dispatch_gone[OF gone] t(1) by simp
  qed
qed

lemma app_turn_hears: "app_turn z r w l s = (g, s') \<Longrightarrow> link_writer (pr_links s' q) = link_writer (pr_links s q)"
  by (auto simp: app_turn_def next_packet_id_eq Let_def case_prod_beta split: sum.splits if_splits)

lemma app_end_hears: "w_out (link_writer (pr_links (app_end z w lid s) q)) = w_out (link_writer (pr_links s q))"
  by (simp add: app_end_def remove_link_eq gw_remove_link_eq next_packet_id_eq Let_def case_prod_beta split: option.split)

lemma choose_links: "choose_client ho s = (x, s') \<Longrightarrow> pr_links s' = pr_links s"
  by (auto simp: choose_client_def next_link_id_def Let_def)

lemma thread_step_deaf:
  assumes "thread_step z ho h t s us s'" and "link_gone q s"
  shows "hears_nothing q s s'"
  using assms
proof cases
  case (authenticated nonce timed_out w rs rs' a)
  then show ?thesis
    using hears_nothing_removes[OF only_removes_authenticate[OF authenticated(4)] assms(2)] authenticate_links[OF authenticated(4)] by simp
next
  case (rejected nonce timed_out w rs rs' a)
  then show ?thesis
    using hears_nothing_removes[OF only_removes_authenticate[OF rejected(4)] assms(2)] authenticate_links[OF rejected(4)] by simp
next
  case (served w rs rs' a i)
  then show ?thesis
    using hears_nothing_removes[OF only_removes_client_turn[OF served(3)] assms(2)] client_turn_deaf[OF served(3) assms(2)] by simp
next
  case (disconnected w rs rs' a i)
  then show ?thesis
    using hears_nothing_removes[OF only_removes_client_turn[OF disconnected(3)] assms(2)] client_turn_deaf[OF disconnected(3) assms(2)] by simp
next
  case (left a i)
  then show ?thesis using assms(2) cleanup_eq(6)[OF refl refl refl, where s = s and addr = a and ho = ho and sid = i]
    by (auto simp: hears_nothing_def link_gone_def cleanup_registry split: if_splits)
next
  case (refused l k)
  then show ?thesis using hears_nothing_removes[OF only_removes_choose[OF refused(3)] assms(2)] choose_links[OF refused(3)] by simp
next
  case (chosen l c k)
  then show ?thesis using hears_nothing_removes[OF only_removes_choose[OF chosen(3)] assms(2)] choose_links[OF chosen(3)] by simp
next
  case (forwarded r w l)
  then show ?thesis using hears_nothing_removes[OF only_removes_app_turn[OF forwarded(3)] assms(2)] app_turn_hears[OF forwarded(3), of q] by simp
next
  case (exhausted r w l)
  then show ?thesis using hears_nothing_removes[OF only_removes_app_turn[OF exhausted(3)] assms(2)] app_turn_hears[OF exhausted(3), of q] by simp
next
  case (ended r w l)
  then show ?thesis using hears_nothing_removes[OF only_removes_app_end[of s z w l] assms(2)] app_end_hears[of z w l s q] by simp
next
  case (linked k l r c)
  then have "leaves_alone q s s'" using assms(2)
    by (auto simp: leaves_alone_def link_gone_def link_app_def alloc_link_def add_link_eq Let_def split: if_splits)
  then show ?thesis using leaves_gone[OF _ assms(2)] by (simp add: hears_nothing_def leaves_alone_def)
qed (use assms(2) in \<open>auto simp: hears_nothing_def link_gone_def announce_client_def insert_session_def route_app_def
    send_open_def next_packet_id_eq Let_def\<close>)

lemma system_step_deaf:
  assumes "system_step z ho h x y" and "link_gone q (fst x)"
  shows "hears_nothing q (fst x) (fst y)"
  using assms
proof cases
  case (client_arrives peer k s a w s' ts)
  then show ?thesis using hears_nothing_removes[OF only_removes_accept[OF client_arrives(3)]] accept_writers(4)[OF client_arrives(3)] assms(2)
    by simp
next
  case (app_arrives s ts k)
  then show ?thesis using assms(2) by (simp add: hears_nothing_def)
next
  case (thread_runs t s us s' xs ys)
  then show ?thesis using thread_step_deaf[OF thread_runs(3), of q] assms(2) by simp
qed

lemma system_run_deaf:
  assumes "(system_step z ho h)\<^sup>*\<^sup>* x y" and "link_gone q (fst x)"
  shows "hears_nothing q (fst x) (fst y)"
  using assms(1)
proof induction
  case base
  show ?case using assms(2) by (simp add: hears_nothing_def)
next
  case (step y y')
  then show ?case using system_step_deaf[OF step(2), of q] by (simp add: hears_nothing_def)
qed

text \<open>The task of the link takes exactly its own link out of the registry.\<close>

lemma ended_link_gone:
  assumes "reachable z ho h config p (s, xs @ Forwarding r w lid # ys)"
    and "only_removes s t" and "gw_links t = gw_links s"
  shows "link_gone r (app_end z w lid t)"
proof -
  have held: "held_once s (xs @ Forwarding r w lid # ys)" using reachable_tasks[OF assms(1)] by (simp add: tasks_inv_def)
  have links: "links_inv s (xs @ Forwarding r w lid # ys)" using reachable_inv[OF assms(1)] by (simp add: system_inv_def)
  have next_link: "pr_next_link (app_end z w lid t) = pr_next_link s"
    using assms(2) only_removes_app_end[of t z w lid] by (simp add: only_removes_def)
  have reg: "gw_links (app_end z w lid t) = fmdrop lid (gw_links s)"
    using assms(3) by (simp add: app_end_def remove_link_eq gw_remove_link_eq next_packet_id_eq Let_def case_prod_beta split: option.split)
  have "l = lid" if reg': "fmlookup (gw_links s) l = Some r" for l
  proof -
    obtain u where u: "u \<in> set (xs @ Forwarding r w lid # ys)" "holds_link u r l" using links[unfolded links_inv_def, rule_format, OF reg'] by blast
    have "r \<in> set (held u)" using u(2) by (cases u) simp_all
    moreover have "r \<notin> set (of_all held xs)" "r \<notin> set (of_all held ys)" using held by (auto simp: held_once_def)
    ultimately have "u = Forwarding r w lid" using u(1) by (auto simp: of_all_def)
    then show ?thesis using u(2) by simp
  qed
  moreover have "r < pr_next_link s" using held by (auto simp: held_once_def)
  moreover have "q < pr_next_link s" if "fmlookup (gw_links s) l = Some q" for l q using links[unfolded links_inv_def, rule_format, OF that] by blast
  ultimately show ?thesis unfolding link_gone_def next_link reg by (auto split: if_splits)
qed

section \<open>Property\<close>

text \<open>
  C5: the end of a user's input is the end of its output. A user has sent everything and closed its
  sending side only, as a request that is delimited by the end of the stream does. The task of
  the link reads no data, ends, takes the link out of the registry and closes it; in whatever way the
  server runs on, the user receives nothing more: what the application behind the client answers
  after it has seen the end of the request is lost.
\<close>

theorem half_close_loses_answer:
  assumes "reachable z ho h config p (s, xs @ Forwarding r w lid # ys)" and "link_reader (pr_links s r) = []"
    and "s1 = app_end z w lid (snd (app_turn z r w lid s))" and "(system_step z ho h)\<^sup>*\<^sup>* (s1, xs @ ys) (s', ts')"
  shows "(system_step z ho h)\<^sup>*\<^sup>* (s, xs @ Forwarding r w lid # ys) (s1, xs @ ys) \<and>
    fmlookup (gw_links s1) lid = None \<and>
    (fmlookup (gw_links s) lid = Some r \<longrightarrow> link_state (pr_links s1 r) = Disconnected) \<and>
    w_out (link_writer (pr_links s' r)) = w_out (link_writer (pr_links s r))"
proof -
  obtain t where turn: "app_turn z r w lid s = (False, t)" and t: "gw_links t = gw_links s"
    using assms(2) by (simp add: app_turn_def Let_def)
  have s1: "s1 = app_end z w lid t" using assms(3) turn by simp
  have first: "system_step z ho h (s, xs @ Forwarding r w lid # ys) (t, xs @ Ending r w lid # ys)"
    using system_step.thread_runs[OF thread_step.exhausted[OF turn], where xs = xs and ys = ys] by simp
  have "system_step z ho h (t, xs @ Ending r w lid # ys) (s1, xs @ ys)"
    using system_step.thread_runs[OF thread_step.ended[where r = r and w = w and lid = lid and s = t], where xs = xs and ys = ys] unfolding s1 by simp
  then have run: "(system_step z ho h)\<^sup>*\<^sup>* (s, xs @ Forwarding r w lid # ys) (s1, xs @ ys)" using first by simp
  have gone: "link_gone r s1" unfolding s1 by (rule ended_link_gone[OF assms(1) only_removes_app_turn[OF turn] t])
  have "w_out (link_writer (pr_links s' r)) = w_out (link_writer (pr_links s1 r))"
    using system_run_deaf[OF assms(4), of r] gone by (simp add: hears_nothing_def)
  moreover have "w_out (link_writer (pr_links s1 r)) = w_out (link_writer (pr_links s r))"
    unfolding s1 app_end_hears app_turn_hears[OF turn] ..
  moreover have "fmlookup (gw_links s1) lid = None" and "fmlookup (gw_links s) lid = Some r \<longrightarrow> link_state (pr_links s1 r) = Disconnected"
    unfolding s1 using t
    by (simp_all add: app_end_def remove_link_eq gw_remove_link_eq next_packet_id_eq Let_def case_prod_beta split: option.split)
  ultimately show ?thesis using run by simp
qed

theorem half_close_loses_answer_witness:
  "\<exists>s w r lid s1. sample_reachable (s, [Serving sample_peer 5 w [], Forwarding r w lid]) \<and>
     (system_step zeros_zstd sample_order sample_hmac)\<^sup>*\<^sup>* (s, [Serving sample_peer 5 w [], Forwarding r w lid]) (s1, [Serving sample_peer 5 w []]) \<and>
     link_state (pr_links s1 r) = Disconnected \<and> w_out (link_writer (pr_links s1 r)) = []"
proof -
  let ?k = "\<lparr>ts_reader = [], ts_writer = wsock_open 1000\<rparr>"
  obtain s r w lid where r: "sample_reachable (s, [Serving sample_peer 5 w [], Forwarding r w lid])"
    and s: "link_reader (pr_links s r) = []" "link_writer (pr_links s r) = wsock_open 1000" "fmlookup (gw_links s) lid = Some r"
    by (rule sample_link[of ?k]) simp
  define s1 where "s1 = app_end zeros_zstd w lid (snd (app_turn zeros_zstd r w lid s))"
  have r': "sample_reachable (s, [Serving sample_peer 5 w []] @ Forwarding r w lid # [])" using r by simp
  note lost = half_close_loses_answer[OF r' s(1) s1_def rtranclp.rtrancl_refl]
  have "w_out (link_writer (pr_links s1 r)) = []" using lost s(2) by (simp add: wsock_open_def)
  moreover have "link_state (pr_links s1 r) = Disconnected" using lost s(3) by blast
  moreover have "(system_step zeros_zstd sample_order sample_hmac)\<^sup>*\<^sup>* (s, [Serving sample_peer 5 w [], Forwarding r w lid]) (s1, [Serving sample_peer 5 w []])"
    using conjunct1[OF lost] by (simp only: append_Cons append_Nil append_Nil2)
  ultimately show ?thesis using r by blast
qed

end
