(* ===== verification/Server_Delivery.thy ===== *)
theory Server_Delivery
  imports Half_Close Delivery
begin

text \<open>
  The receiving end among the other tasks of the server. While the task of a client reads its packets,
  other clients and users come and go and the task of the link itself runs; the user of the link still
  gets the data of the packets in order, as long as no other task interferes with the link: the code
  does not stop other clients from doing so.
\<close>

section \<open>What the other tasks leave alone\<close>

text \<open>The link \<open>q\<close> may be written to, closed, or have its state set in the next step of the task.\<close>

fun touches :: "zstd \<Rightarrow> lref \<Rightarrow> server \<Rightarrow> server_thread \<Rightarrow> bool" where
  "touches z q s (Serving a i w rs) \<longleftrightarrow> (case fst (read_packet z rs s) of None \<Rightarrow> False | Some (p, d) \<Rightarrow>
     packet_type p \<in> {Regular, Opened, OpenFail, Close} \<and> fmlookup (gw_links s) (link_id p) = Some q)"
| "touches z q s (Leaving a i) \<longleftrightarrow> (\<exists>l. fmlookup (sv_link_clients s) l = Some a \<and> fmlookup (gw_links s) l = Some q)"
| "touches z q s (Marking r w l) \<longleftrightarrow> r = q"
| "touches z q s (Ending r w l) \<longleftrightarrow> fmlookup (gw_links s) l = Some q"
| "touches z q s _ \<longleftrightarrow> False"

lemma update_link_registry: "gw_links (update_link r f s) = gw_links s"
  by (simp add: update_link_def)

lemma close_owned_step:
  "close_owned (l # lids) s = close_owned lids (case fmlookup (gw_links s) l of
     None \<Rightarrow> snd (gw_remove_link l s) | Some r \<Rightarrow> update_link r close_connection (snd (gw_remove_link l s)))"
  by (simp add: case_prod_beta Let_def split: option.split)

lemma close_owned_elsewhere:
  "\<forall>l \<in> set lids. fmlookup (gw_links s) l \<noteq> Some q \<Longrightarrow> pr_links (close_owned lids s) q = pr_links s q"
proof (induction lids arbitrary: s)
  case (Cons l lids)
  let ?t = "snd (gw_remove_link l s)"
  have t: "\<forall>l \<in> set lids. fmlookup (gw_links ?t) l \<noteq> Some q" "pr_links ?t q = pr_links s q"
    using Cons.prems by (auto simp: gw_remove_link_eq)
  show ?case
  proof (cases "fmlookup (gw_links s) l")
    case None
    then show ?thesis using Cons.IH[OF t(1)] t(2) by (simp add: close_owned_step del: close_owned.simps)
  next
    case (Some r)
    let ?u = "update_link r close_connection ?t"
    have "\<forall>l \<in> set lids. fmlookup (gw_links ?u) l \<noteq> Some q" "pr_links ?u q = pr_links s q"
      using t Some Cons.prems by (auto simp: update_link_def)
    then show ?thesis using Cons.IH[of ?u] Some by (simp add: close_owned_step del: close_owned.simps)
  qed
qed simp

lemma close_owned_closes:
  assumes "lid \<in> set lids" and "fmlookup (gw_links s) lid = Some q"
    and "\<forall>l. fmlookup (gw_links s) l = Some q \<longrightarrow> l = lid"
  shows "pr_links (close_owned lids s) q = close_connection (pr_links s q)"
  using assms
proof (induction lids arbitrary: s)
  case Nil
  then show ?case using Nil.prems(1) by (metis empty_iff list.set(1))
next
  case (Cons l lids)
  let ?t = "snd (gw_remove_link l s)"
  show ?case
  proof (cases "l = lid")
    case True
    let ?u = "update_link q close_connection ?t"
    have "fmlookup (gw_links ?u) x \<noteq> Some q" for x
    proof
      assume "fmlookup (gw_links ?u) x = Some q"
      then have "x \<noteq> lid" "fmlookup (gw_links s) x = Some q"
        using True by (auto simp: gw_remove_link_eq update_link_registry split: if_splits)
      then show False using Cons.prems(3) by blast
    qed
    then have "pr_links (close_owned lids ?u) q = close_connection (pr_links s q)"
      using close_owned_elsewhere[of lids ?u q] by (simp add: gw_remove_link_eq update_link_def)
    then show ?thesis using True Cons.prems(2) by (simp add: close_owned_step del: close_owned.simps)
  next
    case False
    then have lid: "lid \<in> set lids" using Cons.prems(1) by simp
    have ne: "fmlookup (gw_links s) l \<noteq> Some q" using Cons.prems(3) False by blast
    have reg: "fmlookup (gw_links ?t) x = (if x = l then None else fmlookup (gw_links s) x)" for x
      by (auto simp: gw_remove_link_eq)
    have q1: "fmlookup (gw_links ?t) lid = Some q" unfolding reg using Cons.prems(2) False by simp
    have q2: "\<forall>x. fmlookup (gw_links ?t) x = Some q \<longrightarrow> x = lid"
    proof (intro allI impI)
      fix x assume "fmlookup (gw_links ?t) x = Some q"
      then have "fmlookup (gw_links s) x = Some q" unfolding reg by (simp split: if_splits)
      then show "x = lid" using Cons.prems(3) by blast
    qed
    show ?thesis
    proof (cases "fmlookup (gw_links s) l")
      case None
      have "pr_links (close_owned lids ?t) q = close_connection (pr_links ?t q)"
        by (rule Cons.IH[OF lid q1 q2])
      then show ?thesis using None by (simp add: close_owned_step gw_remove_link_eq del: close_owned.simps)
    next
      case (Some r)
      let ?u = "update_link r close_connection ?t"
      have "pr_links (close_owned lids ?u) q = close_connection (pr_links ?u q)"
        by (rule Cons.IH[OF lid]) (unfold update_link_registry, fact q1, fact q2)
      moreover have "pr_links ?u q = pr_links s q" using ne Some by (auto simp: gw_remove_link_eq update_link_def)
      ultimately show ?thesis using Some by (simp add: close_owned_step del: close_owned.simps)
    qed
  qed
qed

lemma cleanup_elsewhere:
  assumes "\<not> touches z q s (Leaving a i)"
  shows "pr_links (cleanup_client ho a i s) q = pr_links s q"
proof -
  let ?owned = "filter (\<lambda>l. fmlookup (sv_link_clients s) l = Some a) (ho_links ho (fmdom (sv_link_clients s)))"
  let ?t = "s\<lparr>sv_link_clients := drop_routes ?owned (sv_link_clients s)\<rparr>"
  have "pr_links (close_owned ?owned ?t) q = pr_links ?t q"
    by (rule close_owned_elsewhere) (use assms in auto)
  then show ?thesis by (simp add: cleanup_client_def Let_def case_prod_beta)
qed

lemma cleanup_closes:
  assumes "fmlookup (sv_link_clients s) lid = Some a" and "lid \<in> set (ho_links ho (fmdom (sv_link_clients s)))"
    and "link_live lid q s"
  shows "pr_links (cleanup_client ho a i s) q = close_connection (pr_links s q)"
proof -
  let ?owned = "filter (\<lambda>l. fmlookup (sv_link_clients s) l = Some a) (ho_links ho (fmdom (sv_link_clients s)))"
  let ?t = "s\<lparr>sv_link_clients := drop_routes ?owned (sv_link_clients s)\<rparr>"
  have "pr_links (close_owned ?owned ?t) q = close_connection (pr_links ?t q)"
  proof (rule close_owned_closes)
    show "lid \<in> set ?owned" using assms(1,2) by simp
    show "fmlookup (gw_links ?t) lid = Some q" using assms(3) unfolding link_live_def by simp
    show "\<forall>l. fmlookup (gw_links ?t) l = Some q \<longrightarrow> l = lid" using assms(3) unfolding link_live_def by simp
  qed
  then show ?thesis by (simp add: cleanup_client_def Let_def case_prod_beta)
qed

lemma client_turn_elsewhere:
  assumes "client_turn z w rs s = (g, rs', s')" and "\<not> touches z q s (Serving a i w rs)"
  shows "pr_links s' q = pr_links s q"
proof -
  obtain x rs2 t where r: "read_packet z rs s = (x, rs2, t)" by (metis prod.collapse)
  have t: "pr_links t = pr_links s" "gw_links t = gw_links s"
    using read_frame[of z rs s x rs2 t] r by (simp_all add: read_packet_def)
  show ?thesis
  proof (cases x)
    case None
    then show ?thesis using assms r t by (simp add: client_turn_def)
  next
    case (Some y)
    then obtain p d where x: "x = Some (p, d)" by (cases y) simp
    then have d: "server_dispatch z w p d t = (g, s')" using assms(1) r by (simp add: client_turn_def split: prod.splits)
    have "packet_type p \<in> {Regular, Opened, OpenFail, Close} \<longrightarrow> fmlookup (gw_links t) (link_id p) \<noteq> Some q"
      using assms(2) r x t(2) by auto
    then show ?thesis using server_dispatch_registry(4)[OF d] t(1) by simp
  qed
qed

lemma app_turn_state: "app_turn z r w l s = (g, s') \<Longrightarrow> link_state (pr_links s' q) = link_state (pr_links s q)"
  by (auto simp: app_turn_def next_packet_id_eq Let_def case_prod_beta split: sum.splits if_splits)

lemma holds_removes:
  fixes s s' :: server
  assumes "only_removes s s'" and "link_writer (pr_links s' q) = link_writer (pr_links s q)"
    and "link_state (pr_links s' q) = link_state (pr_links s q)"
  shows "holds q s s'"
  using assms unfolding only_removes_def holds_def by simp

lemma holds_alloc:
  assumes "link_app k l s = (r, s')" and "q < pr_next_link s"
  shows "holds q s s'"
  using assms by (auto simp: holds_def link_app_def alloc_link_def add_link_eq Let_def split: if_splits)

lemma untouched_step:
  assumes "thread_step z ho h t s us s'" and "\<not> touches z q s t" and "q < pr_next_link s"
  shows "holds q s s'"
  using assms
proof cases
  case (authenticated nonce timed_out w rs rs' a)
  then show ?thesis using holds_removes[OF only_removes_authenticate[OF authenticated(4)]] authenticate_links[OF authenticated(4)] by simp
next
  case (rejected nonce timed_out w rs rs' a)
  then show ?thesis using holds_removes[OF only_removes_authenticate[OF rejected(4)]] authenticate_links[OF rejected(4)] by simp
next
  case (served w rs rs' a i)
  have "\<not> touches z q s (Serving a i w rs)" using assms(2) served(1) by simp
  then show ?thesis using holds_removes[OF only_removes_client_turn[OF served(3)]] client_turn_elsewhere[OF served(3)] by simp
next
  case (disconnected w rs rs' a i)
  have "\<not> touches z q s (Serving a i w rs)" using assms(2) disconnected(1) by simp
  then show ?thesis using holds_removes[OF only_removes_client_turn[OF disconnected(3)]] client_turn_elsewhere[OF disconnected(3)] by simp
next
  case (left a i)
  have "pr_links s' q = pr_links s q" unfolding left by (rule cleanup_elsewhere) (use assms(2) left(1) in simp)
  then show ?thesis using left(3) cleanup_eq(6)[OF refl refl refl, where s = s and addr = a and ho = ho and sid = i]
    by (auto simp: holds_def cleanup_registry split: if_splits)
next
  case (refused l k)
  then show ?thesis using holds_removes[OF only_removes_choose[OF refused(3)]] choose_links[OF refused(3)] by simp
next
  case (chosen l c k)
  then show ?thesis using holds_removes[OF only_removes_choose[OF chosen(3)]] choose_links[OF chosen(3)] by simp
next
  case (linked k l r c)
  show ?thesis by (rule holds_alloc[OF linked(3) assms(3)])
next
  case (forwarded r w l)
  then show ?thesis using holds_removes[OF only_removes_app_turn[OF forwarded(3)]] app_turn_hears[OF forwarded(3)] app_turn_state[OF forwarded(3)] by simp
next
  case (exhausted r w l)
  then show ?thesis using holds_removes[OF only_removes_app_turn[OF exhausted(3)]] app_turn_hears[OF exhausted(3)] app_turn_state[OF exhausted(3)] by simp
next
  case (ended r w l)
  have "pr_links s' q = pr_links s q" using assms(2) ended
    by (auto simp: app_end_def remove_link_eq gw_remove_link_eq next_packet_id_eq Let_def case_prod_beta split: option.split)
  then show ?thesis using holds_removes[of s s' q] only_removes_app_end[of s z w l] ended by simp
qed (use assms(2) in \<open>auto simp: holds_def announce_client_def insert_session_def route_app_def
    send_open_def next_packet_id_eq Let_def\<close>)

section \<open>Tasks that mind their own business\<close>

text \<open>
  The next step of the task interferes with the link \<open>q\<close> of the number \<open>lid\<close>: a packet of another
  client names it, it is routed to a client that is cleaned up after, its number is handed out again,
  its state is still to be set, or an older link has the same number.
\<close>

fun meddles :: "zstd \<Rightarrow> u16 \<Rightarrow> lref \<Rightarrow> server \<Rightarrow> server_thread \<Rightarrow> bool" where
  "meddles z lid q s (Serving a i w rs) \<longleftrightarrow> (case fst (read_packet z rs s) of None \<Rightarrow> False | Some (p, d) \<Rightarrow>
     packet_type p \<in> {Regular, Opened, OpenFail, Close} \<and> link_id p = lid)"
| "meddles z lid q s (Leaving a i) \<longleftrightarrow> fmlookup (sv_link_clients s) lid = Some a"
| "meddles z lid q s (Linking k l c) \<longleftrightarrow> l = lid"
| "meddles z lid q s (Marking r w l) \<longleftrightarrow> r = q"
| "meddles z lid q s (Ending r w l) \<longleftrightarrow> l = lid \<and> r \<noteq> q"
| "meddles z lid q s _ \<longleftrightarrow> False"

text \<open>A step during which no task but those of the session \<open>i\<close> does, and \<open>i\<close> is not drawn again.\<close>

definition undisturbed ::
  "zstd \<Rightarrow> hash_order \<Rightarrow> hmac \<Rightarrow> u16 \<Rightarrow> lref \<Rightarrow> uuid \<Rightarrow> system \<Rightarrow> system \<Rightarrow> bool" where
  "undisturbed z ho h lid q i x y \<longleftrightarrow> system_step z ho h x y \<and>
     (\<forall>t \<in> set (snd x). session_of t = [i] \<or> \<not> meddles z lid q (fst x) t) \<and>
     (\<forall>a w rs. Registering a i w rs \<notin> set (snd y))"

lemma live_only: "link_live lid q s \<Longrightarrow> fmlookup (gw_links s) l = Some q \<Longrightarrow> l = lid"
  unfolding link_live_def by blast

lemma quiet_untouched:
  assumes "\<not> meddles z lid q s t" and "link_live lid q s" and "\<And>w. t \<noteq> Ending q w lid"
  shows "\<not> touches z q s t"
proof
  assume touched: "touches z q s t"
  show False
  proof (cases t)
    case (Serving a i w rs)
    obtain p d where p: "fst (read_packet z rs s) = Some (p, d)" "packet_type p \<in> {Regular, Opened, OpenFail, Close}"
        "fmlookup (gw_links s) (link_id p) = Some q"
      using touched unfolding Serving by (auto split: option.splits)
    then show False using assms(1) live_only[OF assms(2) p(3)] unfolding Serving by simp
  next
    case (Leaving a i)
    then obtain l where "fmlookup (sv_link_clients s) l = Some a" "fmlookup (gw_links s) l = Some q" using touched by auto
    then show False using assms(1) live_only[OF assms(2)] Leaving by auto
  next
    case (Ending r w l)
    then have "fmlookup (gw_links s) l = Some q" using touched by simp
    then have "l = lid" by (rule live_only[OF assms(2)])
    then show False using assms(1,3) Ending by auto
  qed (use touched assms(1) in simp_all)
qed

lemma gone_untouched:
  assumes "link_gone q s" and "\<And>w l. t \<noteq> Marking q w l"
  shows "\<not> touches z q s t"
proof -
  have "fmlookup (gw_links s) l \<noteq> Some q" for l using assms(1) unfolding link_gone_def by blast
  then show ?thesis using assms(2) by (cases t) (auto split: option.split)
qed

text \<open>The number of the link stays with it.\<close>

lemma authenticate_registry:
  fixes s :: "'a gateway_scheme"
  assumes "authenticate_client h nonce timed_out w rs s = (ok, rs', s')"
  shows "gw_links s' = gw_links s"
proof -
  have c: "gw_links (snd (send_challenge nonce w s)) = gw_links s" for nonce w and s :: "'a gateway_scheme"
    by (simp add: send_challenge_def next_packet_id_eq gw_write_eq Let_def)
  have v: "gw_links (snd (send_verdict a i w s)) = gw_links s" for a i w and s :: "'a gateway_scheme"
    by (simp add: send_verdict_def gw_write_eq Let_def)
  have "s' = snd (send_challenge nonce w s) \<or>
      (\<exists>a i. s' = snd (send_verdict a i w (snd (send_challenge nonce w s))))"
    using assms by (auto simp: authenticate_client_def Let_def split: prod.splits sum.splits if_splits)
      (metis snd_conv)+
  then show ?thesis using c v by auto
qed

lemma client_turn_number:
  assumes "client_turn z w rs s = (g, rs', s')" and "\<not> meddles z lid q s (Serving a i w rs)"
  shows "fmlookup (gw_links s') lid = fmlookup (gw_links s) lid"
proof -
  obtain x rs2 t where r: "read_packet z rs s = (x, rs2, t)" by (metis prod.collapse)
  have t: "gw_links t = gw_links s" using read_frame[of z rs s x rs2 t] r by (simp add: read_packet_def)
  show ?thesis
  proof (cases x)
    case None
    then show ?thesis using assms r t by (simp add: client_turn_def)
  next
    case (Some y)
    then obtain p d where x: "x = Some (p, d)" by (cases y) simp
    then have d: "server_dispatch z w p d t = (g, s')" using assms(1) r by (simp add: client_turn_def split: prod.splits)
    then show ?thesis using server_dispatch_registry(2)[OF d] t assms(2) r x by auto
  qed
qed

lemma quiet_number:
  assumes "thread_step z ho h t s us s'" and "\<not> meddles z lid q s t" and "\<And>w. t \<noteq> Ending q w lid"
  shows "fmlookup (gw_links s') lid = fmlookup (gw_links s) lid"
  using assms
proof cases
  case (authenticated nonce timed_out w rs rs' a)
  then show ?thesis using authenticate_registry[OF authenticated(4)] by simp
next
  case (rejected nonce timed_out w rs rs' a)
  then show ?thesis using authenticate_registry[OF rejected(4)] by simp
next
  case (served w rs rs' a i)
  show ?thesis by (rule client_turn_number[OF served(3), where a = a and i = i]) (use assms(2) served(1) in simp)
next
  case (disconnected w rs rs' a i)
  show ?thesis by (rule client_turn_number[OF disconnected(3), where a = a and i = i]) (use assms(2) disconnected(1) in simp)
next
  case (ended r w l)
  then have "l \<noteq> lid" using assms(2,3) by auto
  then show ?thesis using ended
    by (simp add: app_end_def remove_link_eq gw_remove_link_eq next_packet_id_eq update_link_registry Let_def case_prod_beta split: option.split)
qed (use assms(2) in \<open>auto simp: cleanup_registry choose_client_def next_link_id_def link_app_def alloc_link_def add_link_eq
    announce_client_def insert_session_def route_app_def send_open_def app_turn_def next_packet_id_eq update_link_registry
    Let_def case_prod_beta split: sum.splits if_splits\<close>)

section \<open>The delivery in any interleaving\<close>

text \<open>The task of the session has the packets \<open>ms\<close> and the rest of the stream still to read.\<close>

definition follows :: "zstd \<Rightarrow> packets \<Rightarrow> bytes \<Rightarrow> server_thread \<Rightarrow> bool" where
  "follows z ms rest t \<longleftrightarrow> (\<exists>a i w. t = Serving a i w (images (wire z) ms @ rest)) \<or> ms = [] \<and> (\<exists>a i. t = Leaving a i)"

definition user_served ::
  "zstd \<Rightarrow> u16 \<Rightarrow> lref \<Rightarrow> uuid \<Rightarrow> bytes \<Rightarrow> nat \<Rightarrow> (PacketType \<times> bytes option) list \<Rightarrow> bytes \<Rightarrow> system \<Rightarrow> bool" where
  "user_served z lid q i b k ev rest x \<longleftrightarrow> (let (s, ts) = x in
     \<exists>ms es. ev = data_events es @ link_events lid ms \<and> received b k es (pr_links s q) \<and> all_sendable ms \<and>
       link_live lid q s \<and> (\<forall>t \<in> set ts. session_of t = [i] \<longrightarrow> follows z ms rest t) \<and>
       (ms \<noteq> [] \<longrightarrow> (\<exists>t \<in> set ts. session_of t = [i])))"

definition user_done ::
  "lref \<Rightarrow> bytes \<Rightarrow> nat \<Rightarrow> (PacketType \<times> bytes option) list \<Rightarrow> system \<Rightarrow> bool" where
  "user_done q b k ev x \<longleftrightarrow> (let (s, ts) = x in
     \<exists>es tail. ev = data_events es @ tail \<and> w_out (link_writer (pr_links s q)) = b @ take k (concat es) \<and> link_gone q s \<and>
       ((tail = [] \<or> tail = [(Close, None)]) \<and> link_state (pr_links s q) = Disconnected \<or>
        (\<forall>w l. Forwarding q w l \<notin> set ts)))"

lemma user_servedI:
  "ev = data_events es @ link_events lid ms \<Longrightarrow> received b k es (pr_links s q) \<Longrightarrow> all_sendable ms \<Longrightarrow>
     link_live lid q s \<Longrightarrow> (\<And>t. t \<in> set ts \<Longrightarrow> session_of t = [i] \<Longrightarrow> follows z ms rest t) \<Longrightarrow>
     (ms \<noteq> [] \<Longrightarrow> \<exists>t \<in> set ts. session_of t = [i]) \<Longrightarrow>
     user_served z lid q i b k ev rest (s, ts)"
  unfolding user_served_def Let_def prod.case by blast

lemma user_doneI:
  "ev = data_events es @ tail \<Longrightarrow> w_out (link_writer (pr_links s q)) = b @ take k (concat es) \<Longrightarrow> link_gone q s \<Longrightarrow>
     (tail = [] \<or> tail = [(Close, None)]) \<and> link_state (pr_links s q) = Disconnected \<or> (\<forall>w l. Forwarding q w l \<notin> set ts) \<Longrightarrow>
     user_done q b k ev (s, ts)"
  unfolding user_done_def Let_def prod.case by blast

lemma received_cong:
  "link_writer l' = link_writer l \<Longrightarrow> link_state l' = link_state l \<Longrightarrow> received b k es l' = received b k es l"
  by (simp add: received_def)

text \<open>Nothing changes for the user once the link is out of the registry.\<close>

lemma new_forwarding:
  assumes "thread_step z ho h t s us s'" and "Forwarding q w l \<in> set us" and "\<And>w l. t \<noteq> Marking q w l"
  shows "\<exists>w l. t = Forwarding q w l"
  using assms by cases auto

lemma done_step:
  assumes "thread_step z ho h t s us s'" and "\<And>w l. t \<noteq> Marking q w l" and "user_done q b k ev (s, xs @ t # ys)"
  shows "user_done q b k ev (s', xs @ us @ ys)"
proof -
  obtain es tail where d: "ev = data_events es @ tail" "w_out (link_writer (pr_links s q)) = b @ take k (concat es)"
      "link_gone q s" "(tail = [] \<or> tail = [(Close, None)]) \<and> link_state (pr_links s q) = Disconnected \<or>
        (\<forall>w l. Forwarding q w l \<notin> set (xs @ t # ys))"
    using assms(3) by (auto simp: user_done_def)
  have "q < pr_next_link s" using d(3) by (simp add: link_gone_def)
  then have h: "holds q s s'" using untouched_step[OF assms(1)] gone_untouched[OF d(3), of t] assms(2) by blast
  have "(\<forall>w l. Forwarding q w l \<notin> set (xs @ us @ ys))" if "\<forall>w l. Forwarding q w l \<notin> set (xs @ t # ys)"
    using that new_forwarding[OF assms(1), of q] assms(2) by (metis Un_iff list.set_intros(1) set_append list.set_intros(2))
  then show ?thesis using d holds_gone[OF h d(3)] h by (intro user_doneI[of _ es tail]) (auto simp: holds_def)
qed

text \<open>Another task runs while the link is live.\<close>

lemma served_other:
  assumes step: "thread_step z ho h t s us s'" and other: "session_of t \<noteq> [i]" and quiet: "\<not> meddles z lid q s t"
    and fresh: "\<And>a w rs. Registering a i w rs \<notin> set us" and held: "held_once s (xs @ t # ys)"
    and d: "user_served z lid q i b k ev rest (s, xs @ t # ys)"
  shows "user_served z lid q i b k ev rest (s', xs @ us @ ys) \<or> user_done q b k ev (s', xs @ us @ ys)"
proof -
  obtain ms es where d: "ev = data_events es @ link_events lid ms" "received b k es (pr_links s q)" "all_sendable ms"
      "link_live lid q s" "\<And>t'. t' \<in> set (xs @ t # ys) \<Longrightarrow> session_of t' = [i] \<Longrightarrow> follows z ms rest t'"
      "ms \<noteq> [] \<Longrightarrow> \<exists>t' \<in> set (xs @ t # ys). session_of t' = [i]"
    using d unfolding user_served_def Let_def prod.case by blast
  have q: "q < pr_next_link s" "fmlookup (gw_links s) lid = Some q" using d(4) unfolding link_live_def by blast+
  show ?thesis
  proof (cases "\<exists>w. t = Ending q w lid")
    case True
    then obtain w where t: "t = Ending q w lid" by blast
    then have us: "us = []" "s' = app_end z w lid s" using step by (auto elim: thread_stepE)
    have reg: "fmlookup (gw_links s') l = (if l = lid then None else fmlookup (gw_links s) l)" for l
      unfolding us(2) using q(2)
      by (simp add: app_end_def remove_link_eq gw_remove_link_eq next_packet_id_eq update_link_registry Let_def case_prod_beta)
    have "pr_next_link s' = pr_next_link s" using only_removes_app_end[of s z w lid] us(2) by (simp add: only_removes_def)
    moreover have "r < pr_next_link s \<and> r \<noteq> q" if "fmlookup (gw_links s') l = Some r" for l r
      using that d(4) unfolding reg link_live_def by (metis option.distinct(1))
    ultimately have gone: "link_gone q s'" using q(1) unfolding link_gone_def by simp
    have "Forwarding q v l \<notin> set (xs @ us @ ys)" for v l
    proof
      assume "Forwarding q v l \<in> set (xs @ us @ ys)"
      then have "q \<in> set (of_all held xs) \<or> q \<in> set (of_all held ys)" using us(1) by (force simp: of_all_def)
      then show False using held t by (auto simp: held_once_def)
    qed
    moreover have "w_out (link_writer (pr_links s' q)) = b @ take k (concat es)"
      using app_end_hears[of z w lid s q] us(2) d(2) by (simp add: received_def)
    ultimately show ?thesis using user_doneI[OF d(1) _ gone] by blast
  next
    case False
    then have ne: "\<And>w. t \<noteq> Ending q w lid" by blast
    have h: "holds q s s'" by (rule untouched_step[OF step quiet_untouched[OF quiet d(4) ne] q(1)])
    have "fmlookup (gw_links s') lid = Some q" using quiet_number[OF step quiet ne] q(2) by simp
    then have live: "link_live lid q s'" using holds_live[OF h d(4)] by simp
    have got: "received b k es (pr_links s' q)" using h d(2) received_cong unfolding holds_def by blast
    have new: "session_of u \<noteq> [i]" if "u \<in> set us" for u
      using step that other fresh by cases auto
    have "user_served z lid q i b k ev rest (s', xs @ us @ ys)"
    proof (rule user_servedI[OF d(1) got d(3) live])
      fix t' assume "t' \<in> set (xs @ us @ ys)" "session_of t' = [i]"
      then show "follows z ms rest t'" using d(5) new by auto
    next
      assume "ms \<noteq> []"
      then show "\<exists>t' \<in> set (xs @ us @ ys). session_of t' = [i]" using d(6) other by auto
    qed
    then show ?thesis ..
  qed
qed

text \<open>The task of the session reads a packet of the stream, comes to its end, or cleans up.\<close>

lemma client_turn_reads:
  assumes "zstd_lawful z" and "sendable p d"
  obtains t where "client_turn z w (wire z p d @ rest) s =
      (let (g, u) = server_dispatch z w (sent_header z p d) d t in (g, rest, u))"
    and "pr_links t = pr_links s" and "gw_links t = gw_links s" and "pr_next_link t = pr_next_link s"
proof -
  obtain t where r: "read_gw_packet z (wire z p d @ rest) s = (Some (sent_header z p d, d), rest, t)"
    using read_wire[OF assms] .
  have "client_turn z w (wire z p d @ rest) s =
      (let (g, u) = server_dispatch z w (sent_header z p d) d t in (g, rest, u))"
    by (simp add: client_turn_def read_packet_def r)
  then show ?thesis by (rule that) (rule read_frame[OF r])+
qed

lemma client_turn_stops:
  assumes "zstd_lawful z" and "rest = [] \<or> cut_off z rest" and "client_turn z w rest s = (g, rs', t)"
  shows "\<not> g" and "pr_links t = pr_links s" and "gw_links t = gw_links s" and "pr_next_link t = pr_next_link s"
proof -
  have "fst (read_gw_packet z rest s) = None"
    using assms(2)
  proof
    assume "rest = []"
    then show ?thesis using gw.read_end[of "[]" z s] by (simp add: read_packet_def)
  next
    assume "cut_off z rest"
    then show ?thesis using read_wire_truncated[OF assms(1)] by (auto simp: cut_off_def)
  qed
  then obtain rs2 u where r: "read_gw_packet z rest s = (None, rs2, u)" by (cases "read_gw_packet z rest s") auto
  then have "t = u" "\<not> g" using assms(3) by (simp_all add: client_turn_def read_packet_def)
  then show "\<not> g" "pr_links t = pr_links s" "gw_links t = gw_links s" "pr_next_link t = pr_next_link s"
    using read_frame[OF r] by simp_all
qed

lemma served_cleanup:
  assumes ho: "hash_order_lawful ho" and s': "s' = cleanup_client ho a i s" and live: "link_live lid q s"
    and got: "received b k es (pr_links s q)"
  shows "link_live lid q s' \<and> received b k es (pr_links s' q) \<or>
    link_gone q s' \<and> w_out (link_writer (pr_links s' q)) = b @ take k (concat es) \<and> link_state (pr_links s' q) = Disconnected"
proof (cases "fmlookup (sv_link_clients s) lid = Some a")
  case True
  have reg: "fmlookup (gw_links s) lid = Some q" "q < pr_next_link s" using live unfolding link_live_def by blast+
  have "set (ho_links ho (fmdom (sv_link_clients s))) = fset (fmdom (sv_link_clients s))"
    using ho by (metis fset_of_list.rep_eq hash_order_lawful_def)
  then have order: "lid \<in> set (ho_links ho (fmdom (sv_link_clients s)))" using True by (simp add: fmdomI)
  have closed: "pr_links s' q = close_connection (pr_links s q)" unfolding s' by (rule cleanup_closes[OF True order live])
  have "pr_next_link s' = pr_next_link s" using s' cleanup_eq(6) by metis
  moreover have "r < pr_next_link s \<and> r \<noteq> q" if "fmlookup (gw_links s') l = Some r" for l r
  proof -
    have l: "fmlookup (gw_links s) l = Some r" "l \<noteq> lid" using that True order unfolding s' cleanup_registry by (auto split: if_splits)
    then show ?thesis using live unfolding link_live_def by blast
  qed
  ultimately have "link_gone q s'" using reg(2) unfolding link_gone_def by simp
  then show ?thesis using closed got by (simp add: received_def)
next
  case False
  have reg: "fmlookup (gw_links s) lid = Some q" "q < pr_next_link s" using live unfolding link_live_def by blast+
  have "\<not> touches z q s (Leaving a i)" for z using False live_only[OF live] by auto
  then have h: "holds q s s'" unfolding s' by (rule untouched_step[OF thread_step.left _ reg(2)])
  have "fmlookup (gw_links s') lid = Some q" unfolding s' cleanup_registry using False reg(1) by simp
  then have "link_live lid q s'" using holds_live[OF h live] by simp
  moreover have "received b k es (pr_links s' q)" using h got received_cong unfolding holds_def by blast
  ultimately show ?thesis by blast
qed

lemma others_elsewhere:
  assumes "distinct (session_ids (xs @ t # ys))" and "session_of t = [i]" and "u \<in> set xs \<union> set ys"
  shows "session_of u \<noteq> [i]"
proof
  assume "session_of u = [i]"
  then have "i \<in> set (session_ids xs) \<or> i \<in> set (session_ids ys)" using assms(3) by (force simp: session_ids_def)
  then show False using assms(1,2) by auto
qed

lemma served_packet:
  assumes z: "zstd_lawful z" and ok: "sendable p d" and turn: "client_turn z w (wire z p d @ bs) s = (g, rs', s')"
    and live: "link_live lid q s" and got: "received b k es (pr_links s q)"
    and ev: "prefix (data_events es @ link_events lid ((p, d) # ms)) (data_events ds @ [(Close, None)])"
  shows "g \<and> rs' = bs \<and>
    ((\<exists>fs. data_events es @ link_events lid ((p, d) # ms) = data_events fs @ link_events lid ms \<and> link_live lid q s' \<and>
        received b k fs (pr_links s' q)) \<or>
     link_events lid ((p, d) # ms) = [(Close, None)] \<and> link_gone q s' \<and> pr_links s' q = close_connection (pr_links s q))"
proof -
  obtain v where v: "client_turn z w (wire z p d @ bs) s =
      (let (g, u) = server_dispatch z w (sent_header z p d) d v in (g, bs, u))"
    and same: "pr_links v = pr_links s" "gw_links v = gw_links s" "pr_next_link v = pr_next_link s"
    using client_turn_reads[OF z ok] .
  have u: "server_dispatch z w (sent_header z p d) d v = (g, s')" and rs: "rs' = bs"
    using turn v by (simp_all split: prod.splits)
  show ?thesis
    using server_end.packet_at_link[OF link_live_cong[OF same live] _ ev u, of b k] got same(1) rs by simp
qed

lemma served_own:
  assumes z: "zstd_lawful z" and ho: "hash_order_lawful ho"
    and step: "thread_step z ho h t s us s'" and own: "session_of t = [i]" and once: "distinct (session_ids (xs @ t # ys))"
    and ev: "prefix ev (data_events ds @ [(Close, None)])" and rest: "rest = [] \<or> cut_off z rest"
    and d: "user_served z lid q i b k ev rest (s, xs @ t # ys)"
  shows "user_served z lid q i b k ev rest (s', xs @ us @ ys) \<or> user_done q b k ev (s', xs @ us @ ys)"
proof -
  obtain ms es where d: "ev = data_events es @ link_events lid ms" "received b k es (pr_links s q)" "all_sendable ms"
      "link_live lid q s" "\<And>t'. t' \<in> set (xs @ t # ys) \<Longrightarrow> session_of t' = [i] \<Longrightarrow> follows z ms rest t'"
    using d unfolding user_served_def Let_def prod.case by blast
  note others = others_elsewhere[OF once own]
  have served: "user_served z lid q i b k ev rest (s', xs @ us @ ys)"
    if "ev = data_events fs @ link_events lid ns" "received b k fs (pr_links s' q)" "all_sendable ns" "link_live lid q s'"
      "\<And>u. u \<in> set us \<Longrightarrow> session_of u = [i] \<Longrightarrow> follows z ns rest u" "ns \<noteq> [] \<Longrightarrow> \<exists>u \<in> set us. session_of u = [i]" for fs ns
    by (rule user_servedI[OF that(1-4)]) (use that(5,6) others in auto)
  have "follows z ms rest t" using d(5) own by simp
  then consider (leaving) a j where "t = Leaving a j" "ms = []"
    | (serving) a j w where "t = Serving a j w (images (wire z) ms @ rest)" unfolding follows_def by blast
  then show ?thesis
  proof cases
    case leaving
    then have us: "us = []" "s' = cleanup_client ho a j s" using step by (auto elim: thread_stepE)
    have ev0: "ev = data_events es @ []" using d(1) leaving(2) by simp
    from served_cleanup[OF ho us(2) d(4,2)] show ?thesis
    proof
      assume "link_live lid q s' \<and> received b k es (pr_links s' q)"
      then show ?thesis using served[of es "[]"] ev0 us(1) by simp
    next
      assume "link_gone q s' \<and> w_out (link_writer (pr_links s' q)) = b @ take k (concat es) \<and>
        link_state (pr_links s' q) = Disconnected"
      then show ?thesis using user_doneI[OF ev0] by blast
    qed
  next
    case (serving a j w)
    obtain g rs' where turn: "client_turn z w (images (wire z) ms @ rest) s = (g, rs', s')"
      and us: "us = [if g then Serving a j w rs' else Leaving a j]"
      using step unfolding serving by cases auto
    have j: "j = i" using own serving by simp
    show ?thesis
    proof (cases ms)
      case Nil
      have stop: "\<not> g" "pr_links s' = pr_links s" "gw_links s' = gw_links s" "pr_next_link s' = pr_next_link s"
        using client_turn_stops[OF z rest, of w s g rs' s'] turn Nil by simp_all
      have live: "link_live lid q s'" by (rule link_live_cong[OF stop(2-4) d(4)])
      have "user_served z lid q i b k ev rest (s', xs @ us @ ys)"
        by (rule served[of es "[]", OF _ _ _ live]) (use d(1,2) Nil stop us in \<open>simp_all add: follows_def\<close>)
      then show ?thesis ..
    next
      case (Cons x ms')
      obtain p e where x: "x = (p, e)" by fastforce
      have ok: "sendable p e" "all_sendable ms'" using d(3) Cons x by simp_all
      have turn': "client_turn z w (wire z p e @ (images (wire z) ms' @ rest)) s = (g, rs', s')" using turn Cons x by simp
      have ev': "prefix (data_events es @ link_events lid ((p, e) # ms')) (data_events ds @ [(Close, None)])"
        using ev d(1) Cons x by simp
      have gr: "g" "rs' = images (wire z) ms' @ rest"
        using served_packet[OF z ok(1) turn' d(4,2) ev'] by blast+
      consider (reads) fs where "ev = data_events fs @ link_events lid ms'" "link_live lid q s'" "received b k fs (pr_links s' q)"
        | (closed) "link_events lid ms = [(Close, None)]" "link_gone q s'" "pr_links s' q = close_connection (pr_links s q)"
        using served_packet[OF z ok(1) turn' d(4,2) ev'] d(1) Cons x by metis
      then show ?thesis
      proof cases
        case reads
        have "user_served z lid q i b k ev rest (s', xs @ us @ ys)"
          by (rule served[OF reads(1,3) ok(2) reads(2)]) (use us gr j in \<open>auto simp: follows_def\<close>)
        then show ?thesis ..
      next
        case closed
        have "ev = data_events es @ [(Close, None)]" using d(1) closed(1) by simp
        then have "user_done q b k ev (s', xs @ us @ ys)"
          by (rule user_doneI[OF _ _ closed(2)]) (use d(2) closed(3) in \<open>simp_all add: received_def\<close>)
        then show ?thesis ..
      qed
    qed
  qed
qed

section \<open>Whole runs\<close>

lemma user_frame:
  assumes "pr_links s' = pr_links s" and "gw_links s' = gw_links s" and "pr_next_link s' = pr_next_link s"
    and "session_of u = []" and "\<And>w l. u \<noteq> Forwarding q w l"
    and "user_served z lid q i b k ev rest (s, ts) \<or> user_done q b k ev (s, ts)"
  shows "user_served z lid q i b k ev rest (s', ts @ [u]) \<or> user_done q b k ev (s', ts @ [u])"
  using assms(6)
proof
  assume "user_served z lid q i b k ev rest (s, ts)"
  then obtain ms es where d: "ev = data_events es @ link_events lid ms" "received b k es (pr_links s q)" "all_sendable ms"
      "link_live lid q s" "\<And>t. t \<in> set ts \<Longrightarrow> session_of t = [i] \<Longrightarrow> follows z ms rest t"
      "ms \<noteq> [] \<Longrightarrow> \<exists>t \<in> set ts. session_of t = [i]"
    unfolding user_served_def Let_def prod.case by blast
  have "received b k es (pr_links s' q)" using d(2) assms(1) by simp
  then have "user_served z lid q i b k ev rest (s', ts @ [u])"
    by (rule user_servedI[OF d(1) _ d(3) link_live_cong[OF assms(1-3) d(4)]]) (use d(5,6) assms(4) in auto)
  then show ?thesis ..
next
  assume "user_done q b k ev (s, ts)"
  then obtain es tail where d: "ev = data_events es @ tail" "w_out (link_writer (pr_links s q)) = b @ take k (concat es)"
      "link_gone q s" "(tail = [] \<or> tail = [(Close, None)]) \<and> link_state (pr_links s q) = Disconnected \<or>
        (\<forall>w l. Forwarding q w l \<notin> set ts)"
    unfolding user_done_def Let_def prod.case by blast
  have "user_done q b k ev (s', ts @ [u])"
    by (rule user_doneI[OF d(1) _ link_gone_cong[OF assms(2,3) d(3)]]) (use d(2,4) assms(1,5) in auto)
  then show ?thesis ..
qed

lemma user_step:
  assumes "zstd_lawful z" and "hash_order_lawful ho" and "undisturbed z ho h lid q i x y"
    and "tasks_inv (fst x) (snd x)" and "system_inv (fst x) (snd x)"
    and "prefix ev (data_events ds @ [(Close, None)])" and "rest = [] \<or> cut_off z rest"
    and "user_served z lid q i b k ev rest x \<or> user_done q b k ev x"
  shows "user_served z lid q i b k ev rest y \<or> user_done q b k ev y"
proof -
  have step: "system_step z ho h x y" and quiet: "\<And>t. t \<in> set (snd x) \<Longrightarrow> session_of t = [i] \<or> \<not> meddles z lid q (fst x) t"
    and fresh: "\<And>a w rs. Registering a i w rs \<notin> set (snd y)"
    using assms(3) unfolding undisturbed_def by blast+
  from step show ?thesis
  proof cases
    case (client_arrives peer k' s a w s' ts)
    have same: "pr_links s' = pr_links s" "pr_next_link s' = pr_next_link s" by (rule accept_writers(4,5)[OF client_arrives(3)])+
    have "gw_links s' = gw_links s" using client_arrives(3)
      by (auto simp: accept_gateway_def alloc_writer_def replace_session_def gw_shutdown_writer_def Let_def split: option.splits)
    then show ?thesis using user_frame[OF same(1) _ same(2), of "Authenticating a w (gs_reader k')"] assms(8) client_arrives(1,2)
      by simp
  next
    case (app_arrives s ts k')
    then show ?thesis using user_frame[OF refl refl refl, of "Choosing k'"] assms(8) by simp
  next
    case (thread_runs t s us s' xs ys)
    have held: "held_once s (xs @ t # ys)" using assms(4) thread_runs(1) by (simp add: tasks_inv_def)
    have once: "distinct (session_ids (xs @ t # ys))" using assms(5) thread_runs(1) by (simp add: system_inv_def store_inv_def)
    have t: "session_of t = [i] \<or> \<not> meddles z lid q s t" using quiet[of t] thread_runs(1) by simp
    have fresh': "Registering a i w rs \<notin> set us" for a w rs using fresh[of a w rs] thread_runs(2) by simp
    show ?thesis
    proof (cases "user_done q b k ev x")
      case True
      have "t \<noteq> Marking q w l" for w l using t by auto
      then show ?thesis using done_step[OF thread_runs(3)] True thread_runs(1,2) by blast
    next
      case False
      then have d: "user_served z lid q i b k ev rest (s, xs @ t # ys)" using assms(8) thread_runs(1) by blast
      show ?thesis unfolding thread_runs(2)
      proof (cases "session_of t = [i]")
        case True
        show "user_served z lid q i b k ev rest (s', xs @ us @ ys) \<or> user_done q b k ev (s', xs @ us @ ys)"
          by (rule served_own[OF assms(1,2) thread_runs(3) True once assms(6,7) d])
      next
        case False
        have quiet: "\<not> meddles z lid q s t" using t False by blast
        show "user_served z lid q i b k ev rest (s', xs @ us @ ys) \<or> user_done q b k ev (s', xs @ us @ ys)"
          by (rule served_other[OF thread_runs(3) False quiet fresh' held d])
      qed
    qed
  qed
qed

lemma user_run:
  assumes "zstd_lawful z" and "hash_order_lawful ho" and "(undisturbed z ho h lid q i)\<^sup>*\<^sup>* x y"
    and "tasks_inv (fst x) (snd x)" and "system_inv (fst x) (snd x)"
    and "prefix ev (data_events ds @ [(Close, None)])" and "rest = [] \<or> cut_off z rest"
    and "user_served z lid q i b k ev rest x"
  shows "tasks_inv (fst y) (snd y) \<and> system_inv (fst y) (snd y) \<and>
    (user_served z lid q i b k ev rest y \<or> user_done q b k ev y)"
  using assms(3)
proof induction
  case base
  show ?case using assms(4,5,8) by simp
next
  case (step y y')
  have "system_step z ho h y y'" using step(2) by (simp add: undisturbed_def)
  then show ?case using step.IH system_step_tasks system_step_inv user_step[OF assms(1,2) step(2) _ _ assms(6,7)] by blast
qed

text \<open>
  What the user has at the end of a run: a first part of the data; everything, if the stream was whole
  and has been read and the user has not ended its own side.
\<close>

lemma user_receives:
  assumes z: "zstd_lawful z" and ho: "hash_order_lawful ho" and inv: "tasks_inv s ts" "system_inv s ts"
    and live: "link_live lid q s" and task: "Serving a i w (images (wire z) ms @ rest) \<in> set ts"
    and ok: "all_sendable ms" and rest: "rest = [] \<or> cut_off z rest"
    and ev: "prefix (link_events lid ms) (data_events ds @ [(Close, None)])"
    and run: "(undisturbed z ho h lid q i)\<^sup>*\<^sup>* (s, ts) (s', ts')"
  obtains got where "w_out (link_writer (pr_links s' q)) = w_out (link_writer (pr_links s q)) @ got"
    and "prefix got (concat ds)"
    and "rest = [] \<and> link_events lid ms = data_events ds @ [(Close, None)] \<and>
        length (concat ds) \<le> w_room (link_writer (pr_links s q)) \<and> (\<exists>u l. Forwarding q u l \<in> set ts') \<and>
        (\<forall>a w rs. Serving a i w rs \<in> set ts' \<longrightarrow> rs = []) \<longrightarrow>
      got = concat ds \<and> link_state (pr_links s' q) = Disconnected"
proof -
  let ?b = "w_out (link_writer (pr_links s q))" and ?k = "w_room (link_writer (pr_links s q))" and ?ev = "link_events lid ms"
  obtain xs ys where ts: "ts = xs @ Serving a i w (images (wire z) ms @ rest) # ys" using task by (meson split_list)
  have once: "distinct (session_ids ts)" using inv(2) by (simp add: system_inv_def store_inv_def)
  have "user_served z lid q i ?b ?k ?ev rest (s, ts)"
  proof (rule user_servedI[of _ "[]" lid ms])
    fix t assume "t \<in> set ts" "session_of t = [i]"
    then show "follows z ms rest t" using others_elsewhere[OF once[unfolded ts], of i t] ts by (auto simp: follows_def)
  qed (use task live ok in \<open>auto simp: received_def intro: bexI[OF _ task]\<close>)
  then have final: "user_served z lid q i ?b ?k ?ev rest (s', ts') \<or> user_done q ?b ?k ?ev (s', ts')"
    using user_run[OF z ho run _ _ ev rest] inv by simp
  note part = received_part[OF ev] and no_close = close_not_data[of ds]
  show thesis
  proof (cases "user_done q ?b ?k ?ev (s', ts')")
    case True
    then obtain es tail where d: "?ev = data_events es @ tail"
        "w_out (link_writer (pr_links s' q)) = ?b @ take ?k (concat es)"
        "(tail = [] \<or> tail = [(Close, None)]) \<and> link_state (pr_links s' q) = Disconnected \<or> (\<forall>w l. Forwarding q w l \<notin> set ts')"
      by (auto simp: user_done_def)
    show thesis
    proof (rule that[OF d(2) part[OF d(1)]], intro impI, elim conjE)
      assume fin: "?ev = data_events ds @ [(Close, None)]" "length (concat ds) \<le> ?k" "\<exists>u l. Forwarding q u l \<in> set ts'"
      then have "tail = [] \<or> tail = [(Close, None)]" "link_state (pr_links s' q) = Disconnected" using d(3) by blast+
      moreover have "es = ds" using received_all[of ds es tail] d(1) fin(1) calculation(1) by simp
      ultimately show "take ?k (concat es) = concat ds \<and> link_state (pr_links s' q) = Disconnected" using fin(2) by simp
    qed
  next
    case False
    then obtain ns es where d: "?ev = data_events es @ link_events lid ns" "received ?b ?k es (pr_links s' q)"
        "\<And>t. t \<in> set ts' \<Longrightarrow> session_of t = [i] \<Longrightarrow> follows z ns rest t"
        "ns \<noteq> [] \<Longrightarrow> \<exists>t \<in> set ts'. session_of t = [i]"
      using final unfolding user_served_def Let_def prod.case by blast
    have out: "w_out (link_writer (pr_links s' q)) = ?b @ take ?k (concat es)" using d(2) by (simp add: received_def)
    show thesis
    proof (rule that[OF out part[OF d(1)]], intro impI, elim conjE)
      assume fin: "?ev = data_events ds @ [(Close, None)]" "rest = []" "\<forall>a w rs. Serving a i w rs \<in> set ts' \<longrightarrow> rs = []"
      have "ns = []"
      proof (rule ccontr)
        assume ns: "ns \<noteq> []"
        then obtain t where t: "t \<in> set ts'" "session_of t = [i]" using d(4) by blast
        then obtain a' j w' where "t = Serving a' j w' (images (wire z) ns)" using d(3)[OF t] ns fin(2) by (auto simp: follows_def)
        then have "images (wire z) ns = []" using t fin(3) by auto
        then show False using ns wire_nonempty[of z] by (cases ns) auto
      qed
      then have False using d(1) fin(1) no_close[of es] by simp
      then show "take ?k (concat es) = concat ds \<and> link_state (pr_links s' q) = Disconnected" ..
    qed
  qed
qed

end
