(* ===== verification/Client_System_Theorems.thy ===== *)
theory Client_System_Theorems
  imports Client_System Handshake
begin

text \<open>
  What holds of the client in every reachable state of its task system, and what a task that an
  earlier connection has left behind can do to the next one.
\<close>

lemma distinct_fst_filter:
  "distinct (map fst xs) \<Longrightarrow> (r, w) \<in> set xs \<Longrightarrow> filter (\<lambda>(q, v). q = r) xs = [(r, w)]"
proof (induction xs)
  case (Cons x xs)
  show ?case
  proof (cases "x = (r, w)")
    case True
    then have "filter (\<lambda>(q, v). q = r) xs = []" using Cons.prems(1) by (force simp: filter_empty_conv)
    then show ?thesis using True by simp
  next
    case False
    then have "(r, w) \<in> set xs" using Cons.prems(2) by auto
    then have "r \<in> fst ` set xs" by force
    then have "fst x \<noteq> r" using Cons.prems(1) by auto
    then show ?thesis using Cons False by (cases x) simp
  qed
qed simp

section \<open>A run with two connections\<close>

text \<open>The server opens the link \<open>lid\<close>, and then come the bytes \<open>bs\<close>.\<close>

definition sample_open :: "u16 \<Rightarrow> bytes" where
  "sample_open lid = to_bytes (PacketGW_new Open 9 lid 0)"

definition sample_server_stream :: "u16 \<Rightarrow> bytes \<Rightarrow> gw_stream" where
  "sample_server_stream lid bs =
     \<lparr>gs_reader = challenge_image 1 sample_nonce @ verdict_image True 1 @ sample_open lid @ bs, gs_writer = wsock_open 100000\<rparr>"

definition quiet_app :: tcp_stream where
  "quiet_app = \<lparr>ts_reader = [], ts_writer = wsock_open 1000\<rparr>"

definition talking_app :: tcp_stream where
  "talking_app = \<lparr>ts_reader = [Inr [5, 6], Inr [7]], ts_writer = wsock_open 1000\<rparr>"

abbreviation sample_links :: "u16 fset \<Rightarrow> u16 list" where
  "sample_links \<equiv> sorted_list_of_fset"

lemma sample_links_lawful: "order_lawful sample_links"
  unfolding order_lawful_def
  by (rule conjunct1[OF sample_order_lawful[unfolded hash_order_lawful_def sample_order_def hash_order.simps]])

abbreviation sample_client_reachable :: "client_system \<Rightarrow> bool" where
  "sample_client_reachable \<equiv> client_reachable zeros_zstd sample_links sample_hmac sample_config sample_process
     [Some quiet_app, Some talking_app]"

lemma client_reachable_task:
  "client_reachable z order h config p connects (s, xs @ t # ys) \<Longrightarrow> client_thread_step z order h t s us s' \<Longrightarrow>
     client_reachable z order h config p connects (s', xs @ us @ ys)"
  unfolding client_reachable_def using client_step.task_runs by (metis rtranclp.rtrancl_into_rtrancl)

lemmas client_reachable_first = client_reachable_task[where xs = "[]", simplified]

text \<open>One connection: the handshake, and one link that the server opens.\<close>

lemma sample_session:
  assumes "sample_client_reachable (s, Dialling # ts)" and "cl_app_connects s = Some k # cs"
    and "gw_links s = fmempty"
  obtains s' w where "sample_client_reachable (s', Exchanging w bs # Reading (pr_next_link s) w # Pinging w # ts)"
    and "gw_links s' = fmupd lid (pr_next_link s) fmempty" and "pr_next_link s' = Suc (pr_next_link s)"
    and "\<And>q. q < pr_next_link s \<Longrightarrow> pr_links s' q = pr_links s q" and "cl_app_connects s' = cs"
    and "link_reader (pr_links s' (pr_next_link s)) = ts_reader k" and "connection_id (pr_links s' (pr_next_link s)) = lid"
    and "link_state (pr_links s' (pr_next_link s)) = Connected"
    and "w = pr_next_writer s" and "w_room (pr_writers s' w) = 99936"
    and "link_writer (pr_links s' (pr_next_link s)) = ts_writer k"
proof -
  let ?z = zeros_zstd and ?r = "pr_next_link s"
  obtain w s1 where b: "begin_connection (sample_server_stream lid bs) s = (w, s1)" by fastforce
  have s1: "w_room (pr_writers s1 w) = 100000" "pr_links s1 = pr_links s" "pr_next_link s1 = ?r" "gw_links s1 = fmempty"
      "cl_app_connects s1 = Some k # cs" "w = pr_next_writer s"
    using b assms(2,3) by (auto simp: begin_connection_def alloc_writer_def sample_server_stream_def wsock_open_def
        w_room_def Let_def)
  have reach1: "sample_client_reachable (s1, ProvingKey w (challenge_image 1 sample_nonce @ verdict_image True 1 @ sample_open lid @ bs) # ts)"
    using client_reachable_first[OF assms(1) client_thread_step.dialled[OF b]] by (simp add: sample_server_stream_def)
  let ?s2 = "snd (send_auth_response sample_hmac w sample_nonce s1)"
  have auth: "gw_authenticate sample_hmac w (challenge_image 1 sample_nonce @ verdict_image True 1 @ sample_open lid @ bs) s1 =
      (True, sample_open lid @ bs, ?s2)"
    using gw_authenticate_run(1)[OF sample_hmac_lawful, of sample_nonce s1 w 1 "verdict_image True 1 @ sample_open lid @ bs"] s1(1)
    by (simp add: receive_verdict_image)
  have s2: "pr_links ?s2 = pr_links s" "pr_next_link ?s2 = ?r" "gw_links ?s2 = fmempty" "cl_app_connects ?s2 = Some k # cs"
      "w_room (pr_writers ?s2 w) = 99952"
    using s1 sample_hmac_lawful by (simp_all add: send_auth_response_def next_packet_id_eq gw_write_eq Let_def)
  let ?s3 = "begin_exchange w ?s2"
  have s3: "pr_links ?s3 = pr_links s" "pr_next_link ?s3 = ?r" "gw_links ?s3 = fmempty" "cl_app_connects ?s3 = Some k # cs"
      "w_room (pr_writers ?s3 w) = 99952"
    and new3: "new_tasks ?s2 ?s3 = [Pinging w]"
    using s2 by (simp_all add: begin_exchange_def spawn_def new_tasks_def Let_def)
  have reach3: "sample_client_reachable (?s3, Exchanging w (sample_open lid @ bs) # Pinging w # ts)"
    using client_reachable_first[OF reach1 client_thread_step.proved[OF auth]] new3 by simp
  obtain t where rd: "read_gw_packet ?z (wire ?z (PacketGW_new Open 9 lid 0) None @ bs) ?s3 =
      (Some (sent_header ?z (PacketGW_new Open 9 lid 0) None, None), bs, t)"
    using read_wire[OF zeros_zstd_lawful, of "PacketGW_new Open 9 lid 0" None bs ?s3] by (auto simp: sendable_def)
  have t: "pr_links t = pr_links s" "pr_next_link t = ?r" "gw_links t = fmempty" "w_room (pr_writers t w) = 99952"
    using read_frame[OF rd] s3 by simp_all
  obtain a b c where "t = ?s3\<lparr>pr_pool := a, gw_statistics := b, pr_metrics := c\<rparr>"
    using read_gw_packet_shape[OF rd] by blast
  then have tc: "cl_app_connects t = Some k # cs" using s3(4) by simp
  let ?s4 = "connect_client ?z lid w t"
  have turn: "gateway_turn ?z w (sample_open lid @ bs) ?s3 = (True, bs, ?s4)"
    using rd by (simp add: gateway_turn_def read_packet_def client_dispatch_def sample_open_def wire_def prepare_packet_def)
  have s4: "gw_links ?s4 = fmupd lid ?r fmempty" "pr_next_link ?s4 = Suc ?r" "cl_app_connects ?s4 = cs"
      "pr_links ?s4 = (pr_links s)(?r := set_state Connected (Link_new k lid))"
      "cl_tasks ?s4 = cl_tasks t @ [ClientAppExchange ?r w]" "w_room (pr_writers ?s4 w) = 99936"
    using t tc by (simp_all add: connect_client_def connect_app_def alloc_link_def add_link_eq send_opened_def
        next_packet_id_eq spawn_def update_link_def send_writer wire_def prepare_packet_def Let_def)
  have "cl_tasks t = cl_tasks ?s3" using client_keeps_read[of ?z _ ?s3 _ _ t] rd
    by (simp add: read_packet_def client_keeps_def)
  then have "new_tasks ?s3 ?s4 = [Reading ?r w]" by (simp add: new_tasks_def s4(5))
  then have "sample_client_reachable (?s4, Exchanging w bs # Reading ?r w # Pinging w # ts)"
    using client_reachable_first[OF reach3 client_thread_step.exchanged[OF turn]] by simp
  then show thesis
    by (rule that) (use s4 s1(6) in simp_all)
qed

text \<open>The connection breaks, and the client dials again; the tasks of the link are still there.\<close>

lemma sample_reconnection:
  assumes "sample_client_reachable (s, Exchanging w [] # ts)"
  obtains s' where "sample_client_reachable (s', Dialling # ts)" and "gw_links s' = fmempty"
    and "pr_next_link s' = pr_next_link s" and "cl_app_connects s' = cl_app_connects s"
    and "\<And>q. link_reader (pr_links s' q) = link_reader (pr_links s q)"
    and "\<And>q. connection_id (pr_links s' q) = connection_id (pr_links s q)"
proof -
  have turn: "gateway_turn zeros_zstd w [] s = (False, [], s)" by (simp add: gateway_turn_def gw.read_end)
  have lost: "sample_client_reachable (s, LostServer # ts)"
    using client_reachable_first[OF assms client_thread_step.server_lost[OF turn]] by (simp add: new_tasks_def)
  let ?s = "client_on_disconnection (sample_links (fmdom (gw_links s))) s"
  have "sample_client_reachable (?s, Dialling # ts)"
    using client_reachable_first[OF lost client_thread_step.reset] by simp
  then show thesis
    by (rule that) (simp_all add: client_on_disconnection_def close_all_links_eq[OF order_drains[OF sample_links_lawful]] Let_def)
qed

lemma sample_stale_task:
  obtains s w v where "sample_client_reachable (s, Exchanging w [] # Reading 1 w # Pinging w # Finishing 0 v # [Pinging v])"
    and "fmlookup (gw_links s) 1 = Some 1" and "connection_id (pr_links s 0) = 1"
    and "link_state (pr_links s 1) = Connected" and "link_reader (pr_links s 1) = ts_reader talking_app" and "v \<noteq> w"
    and "w_room (pr_writers s w) = 99936"
proof -
  obtain s0 where start: "client_start sample_config sample_process [Some quiet_app, Some talking_app] = (s0, [Dialling])"
      and s0: "cl_app_connects s0 = [Some quiet_app, Some talking_app]" "gw_links s0 = fmempty" "pr_next_link s0 = 0"
    by (simp add: client_start_def GatewayClient_new_def Gateway_new_def gateway.defs process.defs sample_process_def)
  have r0: "sample_client_reachable (s0, Dialling # [])" unfolding client_reachable_def start by simp
  obtain s1 v where r1: "sample_client_reachable (s1, Exchanging v [] # Reading 0 v # Pinging v # [])"
      and s1: "pr_next_link s1 = 1" "cl_app_connects s1 = [Some talking_app]" "link_reader (pr_links s1 0) = []"
        "connection_id (pr_links s1 0) = 1"
    by (rule sample_session[OF r0 s0(1,2), where lid = 1 and bs = "[]"]) (simp add: s0(3) quiet_app_def)
  obtain s2 where r2: "sample_client_reachable (s2, Dialling # Reading 0 v # Pinging v # [])"
      and s2: "gw_links s2 = fmempty" "pr_next_link s2 = 1" "cl_app_connects s2 = [Some talking_app]"
        "link_reader (pr_links s2 0) = []" "connection_id (pr_links s2 0) = 1"
    by (rule sample_reconnection[OF r1]) (use s1 in simp)
  obtain s3 w where r3: "sample_client_reachable (s3, Exchanging w [] # Reading 1 w # Pinging w # Reading 0 v # Pinging v # [])"
      and s3: "gw_links s3 = fmupd 1 1 fmempty" "pr_links s3 0 = pr_links s2 0" "link_state (pr_links s3 1) = Connected"
        "link_reader (pr_links s3 1) = ts_reader talking_app" "w = pr_next_writer s2" "w_room (pr_writers s3 w) = 99936"
    by (rule sample_session[OF r2 s2(3,1), where lid = 1 and bs = "[]"]) (simp add: s2(2))
  have "v < pr_next_writer s2" using client_reachable_inv[OF sample_links_lawful r2]
    by (simp add: client_inv_def connections_inv_def)
  then have vw: "v \<noteq> w" using s3(5) by simp
  obtain s4 where turn: "client_app_turn zeros_zstd 0 v s3 = (False, s4)"
      and s4: "gw_links s4 = gw_links s3" "pr_links s4 = (pr_links s3)(0 := (pr_links s3 0)\<lparr>link_reader := []\<rparr>)"
        "pr_writers s4 = pr_writers s3"
    using s3(2) s2(4) by (simp add: client_app_turn_def Let_def)
  have "sample_client_reachable (s4, [Exchanging w [], Reading 1 w, Pinging w] @ [Finishing 0 v] @ [Pinging v])"
    by (rule client_reachable_task[OF _ client_thread_step.app_exhausted[OF turn]]) (use r3 in simp)
  then have r4: "sample_client_reachable (s4, Exchanging w [] # Reading 1 w # Pinging w # Finishing 0 v # [Pinging v])" by simp
  show thesis by (rule that[OF r4]) (use s3(3,4,6) vw in \<open>simp_all add: s4 s3(1,2) s2(5)\<close>)
qed

section \<open>Properties\<close>

text \<open>
  C9: the client is always in exactly one phase, and the shared state says which: \<open>WAITING\<close> without a
  connection and without links while it dials, \<open>PROCESSING\<close> with the connection that is being
  authenticated and still without links, \<open>CONNECTED\<close> with the connection it exchanges packets on.
\<close>

theorem client_phase:
  assumes "order_lawful order" and "client_reachable z order h config p connects (s, ts)"
  shows "\<exists>t. filter is_main ts = [t] \<and> (case t of
      Dialling \<Rightarrow> client_state s = GsWaiting \<and> gw_links s = fmempty \<and> cl_gw_writer s = None
    | ProvingKey w rs \<Rightarrow> client_state s = GsProcessing \<and> gw_links s = fmempty \<and> cl_gw_writer s = Some w
    | Exchanging w rs \<Rightarrow> client_state s = GsConnected \<and> cl_gw_writer s = Some w
    | _ \<Rightarrow> True)"
proof -
  have inv: "length (filter is_main ts) = 1" "list_all (phase_ok s) ts"
    using client_reachable_inv[OF assms] by (simp_all add: client_inv_def mains_inv_def)
  then obtain t where t: "filter is_main ts = [t]" by (auto simp: length_Suc_conv)
  then have "phase_ok s t" using inv(2) by (auto simp: list_all_iff filter_eq_Cons_iff)
  then show ?thesis using t by (cases t) (auto simp: client_state_def)
qed

theorem client_phase_witness:
  "\<exists>s w ts. sample_client_reachable (s, Exchanging w [] # ts) \<and> client_state s = GsConnected \<and> cl_gw_writer s = Some w"
proof -
  obtain s w v where r: "sample_client_reachable (s, Exchanging w [] # Reading 1 w # Pinging w # Finishing 0 v # [Pinging v])"
    by (rule sample_stale_task)
  show ?thesis using client_phase[OF sample_links_lawful r] r by auto
qed

text \<open>
  C10: the links of the client. A registered link carries its number, has exactly one task, and this
  task sends to the connection that packets are exchanged on: no link of an earlier connection to
  the server is left in the registry when the next one is used.
\<close>

theorem client_links_belong_to_connection:
  assumes "order_lawful order" and "client_reachable z order h config p connects (s, ts)"
    and "fmlookup (gw_links s) lid = Some r"
  shows "r < pr_next_link s \<and> connection_id (pr_links s r) = lid \<and>
    (\<exists>w. filter (\<lambda>(q, v). q = r) (of_all serves ts) = [(r, w)] \<and> (\<forall>v rs. Exchanging v rs \<in> set ts \<longrightarrow> v = w))"
proof -
  have inv: "registry_inv s ts" "distinct (map fst (of_all serves ts))"
    using client_reachable_inv[OF assms(1,2)] by (simp_all add: client_inv_def apps_inv_def)
  then obtain w where w: "r < pr_next_link s" "connection_id (pr_links s r) = lid"
      "(r, w) \<in> set (of_all serves ts)" "set (of_all exchanges ts) \<subseteq> {w}"
    using assms(3) unfolding registry_inv_def by metis
  have "filter (\<lambda>(q, v). q = r) (of_all serves ts) = [(r, w)]" using distinct_fst_filter[OF inv(2) w(3)] .
  moreover have "v = w" if "Exchanging v rs \<in> set ts" for v rs
  proof -
    have "v \<in> set (of_all exchanges ts)" using that by (force simp: of_all_def)
    then show ?thesis using w(4) by blast
  qed
  ultimately show ?thesis using w(1,2) by blast
qed

theorem client_links_belong_to_connection_witness:
  "\<exists>s w ts. sample_client_reachable (s, ts) \<and> fmlookup (gw_links s) 1 = Some 1 \<and>
     filter (\<lambda>(q, v). q = 1) (of_all serves ts) = [(1, w)]"
proof -
  obtain s w v where r: "sample_client_reachable (s, Exchanging w [] # Reading 1 w # Pinging w # Finishing 0 v # [Pinging v])"
      and l: "fmlookup (gw_links s) 1 = Some 1" by (rule sample_stale_task)
  show ?thesis using client_links_belong_to_connection[OF sample_links_lawful r l] r l by blast
qed

text \<open>
  C11: a task that an earlier connection has left behind takes a link of the present connection out
  of the registry. It removes whatever is registered under its number; if that is a link \<open>q\<close> of the
  next connection, the application of \<open>q\<close> stays connected and its task runs on, but no data of the
  server reaches it any more, and the server's \<open>Close\<close> cannot close it.
\<close>

theorem stale_task_cuts_off_link:
  assumes "client_reachable z order h config p connects (s, xs @ Finishing r v # ys)"
    and "connection_id (pr_links s r) = lid" and "fmlookup (gw_links s) lid = Some q" and "q \<noteq> r"
    and "s' = client_app_end z r v s"
  shows "client_reachable z order h config p connects (s', xs @ ys) \<and>
    pr_links s' q = pr_links s q \<and> fmlookup (gw_links s') lid = None \<and>
    forward_to_app lid d s' = s' \<and>
    pr_links (snd (client_dispatch z w (PacketGW_new Close i lid 0) None s')) = pr_links s'"
proof -
  have "client_reachable z order h config p connects (s', xs @ [] @ ys)"
    unfolding assms(5) by (rule client_reachable_task[OF assms(1) client_thread_step.app_finished])
  moreover have "pr_links s' = pr_links s" "fmlookup (gw_links s') lid = None"
    unfolding assms(5) using assms(2)
    by (simp_all add: client_app_end_def gw_remove_link_eq next_packet_id_eq Let_def case_prod_beta)
  ultimately show ?thesis by (simp add: forward_to_app_def client_dispatch_def gw_remove_link_eq)
qed

theorem stale_task_cuts_off_link_witness:
  "\<exists>s w ts. sample_client_reachable (s, Exchanging w [] # Reading 1 w # ts) \<and>
     link_state (pr_links s 1) = Connected \<and> connection_id (pr_links s 1) = 1 \<and> fmlookup (gw_links s) 1 = None"
proof -
  obtain s w v where r: "sample_client_reachable (s, Exchanging w [] # Reading 1 w # Pinging w # Finishing 0 v # [Pinging v])"
      and l: "fmlookup (gw_links s) 1 = Some 1" "connection_id (pr_links s 0) = 1" "link_state (pr_links s 1) = Connected"
    by (rule sample_stale_task)
  have r': "sample_client_reachable (s, [Exchanging w [], Reading 1 w, Pinging w] @ Finishing 0 v # [Pinging v])"
    using r by simp
  have "registry_inv s (Exchanging w [] # Reading 1 w # Pinging w # Finishing 0 v # [Pinging v])"
    using client_reachable_inv[OF sample_links_lawful r] by (simp add: client_inv_def)
  then have "connection_id (pr_links s 1) = 1" using l(1) by (simp add: registry_inv_def)
  then show ?thesis using stale_task_cuts_off_link[OF r' l(2,1) _ refl] l(3) by (intro exI) auto
qed

end
