(* ===== verification/Client_Streams.thy ===== *)
theory Client_Streams
  imports Client_System_Theorems Receiving
begin

text \<open>
  The connection of the client in any interleaving of its tasks, as \<open>Server_Streams\<close> has it for the
  server: whole packets, and for each link the conversation of its own task.
\<close>

section \<open>What the operations put on a connection\<close>

lemma packet_of_step:
  assumes "sendable p d" and "pr_writers t = pr_writers s" and "pr_next_writer t = pr_next_writer s"
    and "pr_writers s' = pr_writers (snd (send_gw_packet z w' p d t))"
    and "pr_next_writer s' = pr_next_writer t"
  shows "sends z w (on_writer w w' [(p, d)]) s s'"
proof -
  have "sends z w (on_writer w w' [(p, d)]) t (snd (send_gw_packet z w' p d t))" by (rule sends_packet[OF assms(1)])
  then show ?thesis using assms(2-5) by (simp add: sends_def)
qed

lemma silent_of_sends:
  "sends z w (on_writer w w' ps) s s' \<Longrightarrow> w \<noteq> w' \<or> link_events lid ps = [] \<Longrightarrow> silent z lid w s s'"
  unfolding silent_def by (intro exI[of _ "on_writer w w' ps"]) auto

lemma ping_sends:
  "ping_turn z w' s = (g, s') \<Longrightarrow>
     sends z w (on_writer w w' [(PacketGW_new Ping (gw_packet_id_counter s + 1) 0 0, None)]) s s'"
  by (rule packet_of_step[where t = "s\<lparr>gw_packet_id_counter := gw_packet_id_counter s + 1\<rparr>"])
    (auto simp: ping_turn_def next_packet_id_eq Let_def case_prod_beta update_keepalive_def split: if_splits)

lemma command_silent: "silent z lid w s (send_ping z s)"
proof (cases "cl_gw_writer s")
  case None
  then show ?thesis by (simp add: send_ping_def)
next
  case (Some w')
  have "sends z w (on_writer w w' [(PacketGW_new Ping (gw_packet_id_counter s + 1) 0 0, None)]) s (send_ping z s)"
    by (rule packet_of_step[where t = "s\<lparr>gw_packet_id_counter := gw_packet_id_counter s + 1\<rparr>"])
      (auto simp: send_ping_def next_packet_id_eq Let_def Some)
  then show ?thesis by (rule silent_of_sends) (simp add: concerns_def)
qed

lemma pong_silent: "silent z lid w s (send_pong z w' i s)"
proof -
  have "sends z w (on_writer w w' [(PacketGW_new Pong (gw_packet_id_counter s + 1) 0 0, None)]) s (send_pong z w' i s)"
    by (rule packet_of_step[where t = "s\<lparr>gw_packet_id_counter := gw_packet_id_counter s + 1\<rparr>"])
      (auto simp: send_pong_def next_packet_id_eq Let_def)
  then show ?thesis by (rule silent_of_sends) (simp add: concerns_def)
qed

text \<open>A connection attempt answers with \<open>Opened\<close> or \<open>OpenFail\<close> for its own number.\<close>

lemma connect_client_sends:
  "\<exists>p. sendable p None \<and> link_id p = l \<and> packet_type p \<in> {Opened, OpenFail} \<and>
    sends z w (on_writer w w' [(p, None)]) s (connect_client z l w' s)"
proof -
  let ?n = "gw_packet_id_counter s + 1"
  obtain c u where c: "connect_app (host_port (host_app (network (gw_config s))) (port_app (network (gw_config s)))) s = (c, u)"
    by fastforce
  have u: "pr_writers u = pr_writers s" "pr_next_writer u = pr_next_writer s" "gw_packet_id_counter u = gw_packet_id_counter s"
    using c by (auto simp: connect_app_def Let_def split: list.splits)
  show ?thesis
  proof (cases c)
    case None
    have "sends z w (on_writer w w' [(PacketGW_new OpenFail ?n l 0, None)]) s (connect_client z l w' s)"
      by (rule packet_of_step[where t = "u\<lparr>gw_packet_id_counter := ?n\<rparr>"])
        (simp_all add: connect_client_def c None u send_open_fail_def next_packet_id_eq)
    then show ?thesis by (intro exI[of _ "PacketGW_new OpenFail ?n l 0"]) simp
  next
    case (Some k)
    define t where "t = update_link (pr_next_link u) (set_state Connected)
      (add_link (pr_next_link u) (snd (alloc_link (Link_new k l) u)))"
    have t: "pr_writers t = pr_writers s" "pr_next_writer t = pr_next_writer s"
        "gw_packet_id_counter t = gw_packet_id_counter s"
      by (simp_all add: t_def update_link_def add_link_eq alloc_link_def u Let_def)
    have "connect_client z l w' s = spawn (ClientAppExchange (pr_next_link u) w') (send_opened z l w' t)"
      by (simp add: connect_client_def c Some alloc_link_def t_def Let_def)
    then have "sends z w (on_writer w w' [(PacketGW_new Opened ?n l 0, None)]) s (connect_client z l w' s)"
      by (intro packet_of_step[where t = "t\<lparr>gw_packet_id_counter := ?n\<rparr>"])
        (simp_all add: t spawn_def send_opened_def next_packet_id_eq)
    then show ?thesis by (intro exI[of _ "PacketGW_new Opened ?n l 0"]) simp
  qed
qed

lemma client_dispatch_silent:
  assumes "client_dispatch z w' p d s = (g, s')" and "\<not> (packet_type p = Open \<and> link_id p = lid)"
  shows "silent z lid w s s'"
proof (cases "packet_type p = Open")
  case True
  obtain a where a: "link_id a = link_id p" "packet_type a \<in> {Opened, OpenFail}"
      "sends z w (on_writer w w' [(a, None)]) s (connect_client z (link_id p) w' s)"
    using connect_client_sends by blast
  have "\<not> concerns lid a" using a(1,2) True assms(2) by (auto simp: concerns_def)
  then show ?thesis using silent_of_sends[OF a(3), of lid] True assms(1) by (auto simp: client_dispatch_def)
next
  case False
  have pong: "silent z lid w s (send_pong z w' (packet_id p) s\<lparr>cl_last_activity := i\<rparr>)" for i
    using pong_silent[of z lid w s w' "packet_id p"] by (simp add: silent_def sends_def)
  show ?thesis
  proof (cases "packet_type p = Ping")
    case True
    then show ?thesis using assms(1) pong by (auto simp: client_dispatch_def Let_def)
  next
    case no_ping: False
    show ?thesis
      by (rule silent_nothing) (use assms(1) False no_ping in \<open>cases "packet_type p";
        auto simp: client_dispatch_def update_keepalive_def forward_to_app_def gw_remove_link_eq update_link_def Let_def
        split: option.splits\<close>)+
  qed
qed

text \<open>The next packet of the stream is \<open>Open\<close> for the number.\<close>

fun offers :: "u16 \<Rightarrow> client_thread \<Rightarrow> bool" where
  "offers lid (Exchanging w rs) \<longleftrightarrow> (case from_bytes (take 16 rs) of
     Some p \<Rightarrow> packet_type p = Open \<and> link_id p = lid | None \<Rightarrow> False)"
| "offers lid _ \<longleftrightarrow> False"

lemma read_packet_header:
  "read_packet z rs s = (Some (p, d), rs', t) \<Longrightarrow> from_bytes (take 16 rs) = Some p"
  by (cases rule: read_gw_packet_cases[of rs z s]) (auto simp: read_packet_def split: option.splits)

lemma gateway_turn_silent:
  assumes "gateway_turn z w' rs s = (g, rs', s')" and "\<not> offers lid (Exchanging w' rs)"
  shows "silent z lid w s s'"
proof -
  obtain x rs2 t where r: "read_packet z rs s = (x, rs2, t)" by (metis prod.collapse)
  have st: "silent z lid w s t"
    using read_frame[of z rs s x rs2 t] r by (simp add: read_packet_def silent_nothing)
  show ?thesis
  proof (cases x)
    case None
    then show ?thesis using assms(1) r st by (simp add: gateway_turn_def)
  next
    case (Some y)
    obtain p d where y: "y = (p, d)" by fastforce
    have "client_dispatch z w' p d t = (g, s')" using assms(1) r Some y by (simp add: gateway_turn_def split: prod.splits)
    moreover have "\<not> (packet_type p = Open \<and> link_id p = lid)"
      using assms(2) read_packet_header[of z rs s p d rs2 t] r Some y by auto
    ultimately show ?thesis using silent_trans[OF st] client_dispatch_silent by blast
  qed
qed

lemma client_app_turn_sends:
  assumes "app_read 16384 (link_reader (pr_links s r)) = (Inr d, rd)" and "d \<noteq> []"
    and "client_app_turn z r w' s = (g, s')"
  shows "sends z w (on_writer w w' [(PacketGW_new Regular (gw_packet_id_counter s + 1)
    (connection_id (pr_links s r)) (of_nat (length d)), Some d)]) s s'"
proof -
  let ?p = "PacketGW_new Regular (gw_packet_id_counter s + 1) (connection_id (pr_links s r)) (of_nat (length d))"
  have "length d \<le> 16384" using app_read_length[OF assms(1)] .
  then show ?thesis using assms
    by (intro packet_of_step[where t = "(update_link r (\<lambda>l. l\<lparr>link_reader := rd\<rparr>) s)\<lparr>gw_packet_id_counter := gw_packet_id_counter s + 1\<rparr>"])
      (auto simp: client_app_turn_def next_packet_id_eq update_link_def Let_def case_prod_beta split: if_splits)
qed

lemma client_app_end_sends:
  "sends z w (on_writer w w' [(PacketGW_new Close (gw_packet_id_counter s + 1) (connection_id (pr_links s r)) 0, None)])
    s (client_app_end z r w' s)"
  by (rule packet_of_step[where t = "s\<lparr>gw_packet_id_counter := gw_packet_id_counter s + 1\<rparr>"])
    (simp_all add: client_app_end_def next_packet_id_eq gw_remove_link_eq Let_def case_prod_beta)

text \<open>A turn with a chunk is its packet; one at the end of the stream is silent.\<close>

lemma client_app_turn_says:
  assumes "client_app_turn z r w s = (g, s')" and "connection_id (pr_links s r) = lid"
  shows "\<exists>ps. sends z w ps s s' \<and> said lid ps (data_events (chunks 16384 (link_reader (pr_links s r))) @ [(Close, None)])
    ((if g then data_events (chunks 16384 (link_reader (pr_links s' r))) else []) @ [(Close, None)]) (pr_writers s' w)"
proof -
  obtain x rd where a: "app_read 16384 (link_reader (pr_links s r)) = (x, rd)" by fastforce
  have ch: "chunks 16384 (link_reader (pr_links s r)) =
      (case x of Inl e \<Rightarrow> [] | Inr d \<Rightarrow> if d = [] then [] else d # chunks 16384 rd)"
    using a by (simp add: chunks.simps[of _ "link_reader (pr_links s r)"])
  show ?thesis
  proof (cases "x = Inr [] \<or> isl x")
    case True
    then have "\<not> g" "sends z w [] s s'" "chunks 16384 (link_reader (pr_links s r)) = []"
      using client_app_turn_stop[OF a True, of z w] assms(1) ch by (auto simp: update_link_def intro: sends_nothing split: sum.splits)
    then show ?thesis by (intro exI[of _ "[]"]) (simp add: said_def)
  next
    case False
    then obtain d where d: "x = Inr d" "d \<noteq> []" by (cases x) auto
    let ?p = "PacketGW_new Regular (gw_packet_id_counter s + 1) lid (of_nat (length d))"
    note turn = client_app_turn_chunk[OF a[unfolded d(1)] d(2) refl assms(1)]
    have sends: "sends z w [(?p, Some d)] s s'"
      using client_app_turn_sends[OF a[unfolded d(1)] d(2) assms(1), of w] assms(2) by simp
    have "w_room (pr_writers s' w) = 0" if "\<not> g" using turn(1,2) that by simp
    then show ?thesis using sends turn(3) ch d
      by (intro exI[of _ "[(?p, Some d)]"]) (auto simp: said_def concerns_def)
  qed
qed

lemma client_app_turn_silent:
  assumes "client_app_turn z r w' s = (g, s')" and "connection_id (pr_links s r) \<noteq> lid \<or> w' \<noteq> w"
  shows "silent z lid w s s'"
proof -
  obtain x rd where a: "app_read 16384 (link_reader (pr_links s r)) = (x, rd)" by fastforce
  show ?thesis
  proof (cases "x = Inr [] \<or> isl x")
    case True
    then show ?thesis using client_app_turn_stop[OF a True, of z w'] assms(1)
      by (auto simp: update_link_def intro: silent_nothing)
  next
    case False
    then obtain d where d: "x = Inr d" "d \<noteq> []" by (cases x) auto
    show ?thesis
      by (rule silent_of_sends[OF client_app_turn_sends[OF a[unfolded d(1)] d(2) assms(1)]])
        (use assms(2) in \<open>auto simp: concerns_def\<close>)
  qed
qed

section \<open>Only the task of a link reads its application\<close>

lemma begin_connection_fields:
  assumes "begin_connection k s = (v, s')"
  shows "v = pr_next_writer s" "pr_next_writer s' = Suc v" "pr_links s' = pr_links s"
    "w \<noteq> v \<Longrightarrow> pr_writers s' w = pr_writers s w"
  using assms by (auto simp: begin_connection_def alloc_writer_def Let_def)

lemma authenticate_client_links:
  assumes "gw_authenticate h w' rs s = (ok, rs', s')"
  shows "pr_links s' = pr_links s" and "w \<noteq> w' \<Longrightarrow> pr_writers s' w = pr_writers s w"
proof -
  have "pr_links (snd (send_auth_response h w' nonce s)) = pr_links s"
      "w \<noteq> w' \<Longrightarrow> pr_writers (snd (send_auth_response h w' nonce s)) w = pr_writers s w" for nonce
    by (simp_all add: send_auth_response_def next_packet_id_eq gw_write_eq Let_def)
  moreover have "s' = s \<or> (\<exists>nonce. s' = snd (send_auth_response h w' nonce s))"
    using assms by (auto simp: gw_authenticate_def Let_def case_prod_beta split: prod.splits option.splits if_splits)
  ultimately show "pr_links s' = pr_links s" "w \<noteq> w' \<Longrightarrow> pr_writers s' w = pr_writers s w" by auto
qed

lemma client_dispatch_readers:
  assumes "client_dispatch z w p d s = (g, s')" and "q < pr_next_link s"
  shows "link_reader (pr_links s' q) = link_reader (pr_links s q)"
proof (cases "packet_type p = Open")
  case True
  then show ?thesis using assms connect_client_leaves(1)[OF assms(2), of z "link_id p" w]
    by (auto simp: client_dispatch_def leaves_alone_def)
qed (use assms(1) in \<open>cases "packet_type p"; auto simp: client_dispatch_def update_keepalive_def forward_to_app_def
    gw_remove_link_eq Let_def split: option.splits\<close>)

lemma gateway_turn_readers:
  assumes "gateway_turn z w rs s = (g, rs', s')" and "q < pr_next_link s"
  shows "link_reader (pr_links s' q) = link_reader (pr_links s q)"
proof -
  obtain x rs2 t where r: "read_packet z rs s = (x, rs2, t)" by (metis prod.collapse)
  have t: "pr_links t = pr_links s" "pr_next_link t = pr_next_link s"
    using read_frame[of z rs s x rs2 t] r by (simp_all add: read_packet_def)
  show ?thesis
  proof (cases x)
    case None
    then show ?thesis using assms(1) r t by (simp add: gateway_turn_def)
  next
    case (Some y)
    obtain p d where "y = (p, d)" by fastforce
    then have "client_dispatch z w p d t = (g, s')" using assms(1) r Some by (simp add: gateway_turn_def split: prod.splits)
    then show ?thesis using client_dispatch_readers[of z w p d t g s' q] assms(2) t by simp
  qed
qed

lemma client_app_turn_readers:
  "client_app_turn z r w s = (g, s') \<Longrightarrow> q \<noteq> r \<Longrightarrow> pr_links s' q = pr_links s q"
  by (auto simp: client_app_turn_def next_packet_id_eq Let_def case_prod_beta split: sum.splits if_splits)

lemma client_thread_readers:
  assumes "order_lawful order" and "client_thread_step z order h t s us s'" and "q \<notin> fst ` set (serves t)"
    and "q < pr_next_link s"
  shows "link_reader (pr_links s' q) = link_reader (pr_links s q)"
  using assms(2)
proof cases
  case (dialled k w)
  then show ?thesis using begin_connection_fields(3)[of k s w s'] by simp
next
  case (proved w rs rs' s1)
  then show ?thesis using authenticate_client_links(1)[OF proved(4)]
    by (simp add: begin_exchange_def spawn_def Let_def)
next
  case (refused w rs rs' s1)
  then show ?thesis using authenticate_client_links(1)[OF refused(4)] by (simp add: abandon_connection_def Let_def)
next
  case (exchanged w rs rs')
  then show ?thesis using gateway_turn_readers[OF exchanged(3) assms(4)] by simp
next
  case (server_lost w rs rs')
  then show ?thesis using gateway_turn_readers[OF server_lost(3) assms(4)] by simp
next
  case reset
  then show ?thesis
    by (simp add: client_on_disconnection_def close_all_links_eq[OF order_drains[OF assms(1)]] Let_def)
next
  case (pinged w)
  then show ?thesis by (auto simp: ping_turn_def next_packet_id_eq update_keepalive_def Let_def case_prod_beta split: if_splits)
next
  case (ping_failed w)
  then show ?thesis by (auto simp: ping_turn_def next_packet_id_eq update_keepalive_def Let_def case_prod_beta split: if_splits)
next
  case (app_forwarded r w)
  then show ?thesis using client_app_turn_readers[OF app_forwarded(3), of q] assms(3) by simp
next
  case (app_exhausted r w)
  then show ?thesis using client_app_turn_readers[OF app_exhausted(3), of q] assms(3) by simp
next
  case (app_finished r w)
  then show ?thesis by (simp add: client_app_end_def next_packet_id_eq gw_remove_link_eq Let_def case_prod_beta)
qed simp

text \<open>The number of a link never changes.\<close>

lemma client_thread_numbers:
  assumes "order_lawful order" and "client_thread_step z order h t s us s'"
  shows "q < pr_next_link s \<Longrightarrow> connection_id (pr_links s' q) = connection_id (pr_links s q)"
    and "pr_next_link s \<le> pr_next_link s'" and "pr_next_writer s \<le> pr_next_writer s'"
proof -
  have "(q < pr_next_link s \<longrightarrow> connection_id (pr_links s' q) = connection_id (pr_links s q)) \<and> pr_next_link s \<le> pr_next_link s' \<and>
      pr_next_writer s \<le> pr_next_writer s'"
    using assms(2)
  proof cases
    case (dialled k w)
    then show ?thesis by (auto simp: begin_connection_def alloc_writer_def Let_def)
  next
    case (proved w rs rs' s1)
    then show ?thesis using client_keeps_authenticate[OF proved(4)]
      by (simp add: begin_exchange_def spawn_def client_keeps_def Let_def)
  next
    case (refused w rs rs' s1)
    then show ?thesis using client_keeps_authenticate[OF refused(4)] by (simp add: abandon_connection_def client_keeps_def Let_def)
  next
    case (exchanged w rs rs')
    then show ?thesis using gateway_turn_effect[OF exchanged(3)] by (auto simp: client_keeps_def adds_link_def)
  next
    case (server_lost w rs rs')
    then show ?thesis using gateway_turn_effect[OF server_lost(3)] by (auto simp: client_keeps_def adds_link_def)
  next
    case reset
    then show ?thesis
      by (simp add: client_on_disconnection_def close_all_links_eq[OF order_drains[OF assms(1)]] Let_def)
  next
    case (pinged w)
    then show ?thesis using client_keeps_ping[OF pinged(3)] by (simp add: client_keeps_def)
  next
    case (ping_failed w)
    then show ?thesis using client_keeps_ping[OF ping_failed(3)] by (simp add: client_keeps_def)
  next
    case (app_forwarded r w)
    then show ?thesis using client_keeps_app_turn[OF app_forwarded(3)] by (simp add: client_keeps_def)
  next
    case (app_exhausted r w)
    then show ?thesis using client_keeps_app_turn[OF app_exhausted(3)] by (simp add: client_keeps_def)
  next
    case (app_finished r w)
    then show ?thesis using client_keeps_app_end[of s z r w] by (simp add: client_keeps_def)
  qed simp
  then show "q < pr_next_link s \<Longrightarrow> connection_id (pr_links s' q) = connection_id (pr_links s q)" "pr_next_link s \<le> pr_next_link s'"
    "pr_next_writer s \<le> pr_next_writer s'" by simp_all
qed

section \<open>The conversation of a link in any interleaving\<close>

fun client_thread_says :: "client \<Rightarrow> client_thread \<Rightarrow> (PacketType \<times> bytes option) list" where
  "client_thread_says s (Reading r w) = data_events (chunks 16384 (link_reader (pr_links s r))) @ [(Close, None)]"
| "client_thread_says s (Finishing r w) = [(Close, None)]"
| "client_thread_says s _ = []"

text \<open>The tasks that speak for a number on a connection.\<close>

definition client_speaks :: "client \<Rightarrow> u16 \<Rightarrow> wref \<Rightarrow> client_thread \<Rightarrow> bool" where
  "client_speaks s lid w t \<longleftrightarrow> list_ex (\<lambda>(r, v). v = w \<and> connection_id (pr_links s r) = lid) (serves t)"

definition client_speakers :: "u16 \<Rightarrow> wref \<Rightarrow> client_system \<Rightarrow> client_thread list" where
  "client_speakers lid w x = filter (client_speaks (fst x) lid w) (snd x)"

definition client_says :: "u16 \<Rightarrow> wref \<Rightarrow> client_system \<Rightarrow> (PacketType \<times> bytes option) list" where
  "client_says lid w x = of_all (client_thread_says (fst x)) (client_speakers lid w x)"

text \<open>Steps during which the server does not open the number again.\<close>

definition not_offered :: "u16 \<Rightarrow> client_thread list \<Rightarrow> bool" where
  "not_offered lid ts \<longleftrightarrow> list_all (\<lambda>t. \<not> offers lid t) ts"

definition client_numbered_step ::
  "zstd \<Rightarrow> (u16 fset \<Rightarrow> u16 list) \<Rightarrow> hmac \<Rightarrow> u16 \<Rightarrow> client_system \<Rightarrow> client_system \<Rightarrow> bool" where
  "client_numbered_step z order h lid x y \<longleftrightarrow> client_step z order h x y \<and> not_offered lid (snd y)"

definition client_conversing :: "u16 \<Rightarrow> wref \<Rightarrow> client_system \<Rightarrow> bool" where
  "client_conversing lid w x \<longleftrightarrow> client_inv (fst x) (snd x) \<and> not_offered lid (snd x) \<and>
     length (client_speakers lid w x) \<le> 1 \<and> w < pr_next_writer (fst x) \<and> w \<notin> set (of_all proves (snd x))"

lemma not_offered_simps [simp]:
  "not_offered lid []" "not_offered lid (t # ts) \<longleftrightarrow> \<not> offers lid t \<and> not_offered lid ts"
  "not_offered lid (xs @ ys) \<longleftrightarrow> not_offered lid xs \<and> not_offered lid ys"
  by (simp_all add: not_offered_def)

text \<open>A new link is opened under another number.\<close>

lemma gateway_turn_adds:
  assumes "gateway_turn z w rs s = (g, rs', s')" and "adds_link l v s s'"
  shows "offers l (Exchanging w rs)"
proof -
  obtain x rs2 t where r: "read_packet z rs s = (x, rs2, t)" by (metis prod.collapse)
  note st = client_keeps_read[OF r]
  show ?thesis
  proof (cases x)
    case None
    then show ?thesis using assms r st by (simp add: gateway_turn_def client_keeps_def adds_link_def)
  next
    case (Some y)
    obtain p d where y: "y = (p, d)" by fastforce
    have d: "client_dispatch z w p d t = (g, s')" using assms(1) r Some y by (simp add: gateway_turn_def split: prod.splits)
    have no: "\<not> client_keeps t s'" using assms(2) st by (auto simp: client_keeps_def adds_link_def)
    then have o: "packet_type p = Open" using client_keeps_dispatch d by blast
    then have "adds_link (link_id p) w t s'" using d connect_client_adds[of t z "link_id p" w] no by (auto simp: client_dispatch_def)
    then have "connection_id (pr_links s' (pr_next_link t)) = link_id p" "pr_next_link t = pr_next_link s"
      using st by (simp_all add: adds_link_def client_keeps_def)
    then have "link_id p = l" using assms(2) by (simp add: adds_link_def)
    then show ?thesis using o read_packet_header[of z rs s p d rs2 t] r Some y by simp
  qed
qed

text \<open>One step of one task: its number, its duties and its connections.\<close>

lemma speaks_same:
  assumes "\<And>r v. (r, v) \<in> set (serves t) \<Longrightarrow> connection_id (pr_links s' r) = connection_id (pr_links s r)"
  shows "client_speaks s' lid w t = client_speaks s lid w t"
  using assms by (cases t) (simp_all add: client_speaks_def)

lemma client_thread_speakers:
  assumes "order_lawful order" and "client_thread_step z order h t s us s'" and "\<not> offers lid t"
    and "\<And>r v. (r, v) \<in> set (serves t) \<Longrightarrow> r < pr_next_link s"
  shows "filter (client_speaks s' lid w) us = (if client_speaks s lid w t then us else [])"
  using assms(2)
proof cases
  case (exchanged v rs rs')
  have "client_keeps s s' \<or> (\<exists>l. adds_link l v s s' \<and> l \<noteq> lid)"
    using gateway_turn_effect[OF exchanged(3)] gateway_turn_adds[OF exchanged(3)] assms(3) exchanged(1) by blast
  then show ?thesis using exchanged client_keeps_new_tasks[of s s']
    by (auto simp: client_speaks_def adds_link_def new_tasks_def)
next
  case (server_lost v rs rs')
  have "client_keeps s s' \<or> (\<exists>l. adds_link l v s s' \<and> l \<noteq> lid)"
    using gateway_turn_effect[OF server_lost(3)] gateway_turn_adds[OF server_lost(3)] assms(3) server_lost(1) by blast
  then show ?thesis using server_lost client_keeps_new_tasks[of s s']
    by (auto simp: client_speaks_def adds_link_def new_tasks_def)
next
  case (proved v rs rs' s1)
  then show ?thesis by (simp add: client_speaks_def begin_exchange_def spawn_def new_tasks_def Let_def)
next
  case (app_forwarded r v)
  then have "connection_id (pr_links s' r) = connection_id (pr_links s r)"
    using client_thread_numbers(1)[OF assms(1,2)] assms(4) by simp
  then show ?thesis using app_forwarded by (simp add: client_speaks_def)
next
  case (app_exhausted r v)
  then have "connection_id (pr_links s' r) = connection_id (pr_links s r)"
    using client_thread_numbers(1)[OF assms(1,2)] assms(4) by simp
  then show ?thesis using app_exhausted by (simp add: client_speaks_def)
qed (simp_all add: client_speaks_def)

lemma client_thread_proves:
  assumes "client_thread_step z order h t s us s'"
  shows "set (of_all proves us) \<subseteq> set (proves t) \<union> {pr_next_writer s}"
  using assms
proof cases
  case (dialled k w)
  then show ?thesis using begin_connection_fields(1)[of k s w s'] by simp
next
  case (proved w rs rs' s1)
  then show ?thesis by (simp add: begin_exchange_def spawn_def new_tasks_def Let_def)
next
  case (exchanged w rs rs')
  then show ?thesis using gateway_turn_effect[OF exchanged(3)] client_keeps_new_tasks[of s s']
    by (auto simp: adds_link_def new_tasks_def)
next
  case (server_lost w rs rs')
  then show ?thesis using gateway_turn_effect[OF server_lost(3)] client_keeps_new_tasks[of s s']
    by (auto simp: adds_link_def new_tasks_def)
qed simp_all

lemma client_thread_single:
  assumes "client_thread_step z order h t s us s'" and "client_speaks s lid w t"
  shows "length us \<le> 1"
  using assms by (auto elim!: client_thread_stepE simp: client_speaks_def)

lemma client_thread_silent:
  assumes "client_thread_step z order h t s us s'" and "\<not> client_speaks s lid w t" and "\<not> offers lid t"
    and "w \<notin> set (proves t)" and "w < pr_next_writer s"
  shows "\<exists>ps. all_sendable ps \<and> puts (pr_writers s w) (images (wire z) ps) (pr_writers s' w) \<and> link_events lid ps = []"
proof -
  have from_silent: ?thesis if "silent z lid w s s'" using that by (auto simp: silent_def sends_def)
  have from_same: ?thesis if "pr_writers s' w = pr_writers s w" using that by (intro exI[of _ "[]"]) simp
  show ?thesis using assms(1)
  proof cases
    case (dialled k v)
    then show ?thesis using begin_connection_fields(1)[of k s v s'] begin_connection_fields(4)[of k s v s' w] assms(5) by (intro from_same) simp
  next
    case (proved v rs rs' s1)
    then show ?thesis using authenticate_client_links(2)[OF proved(4), of w] assms(4)
      by (intro from_same) (simp add: begin_exchange_def spawn_def Let_def)
  next
    case (refused v rs rs' s1)
    then show ?thesis using authenticate_client_links(2)[OF refused(4), of w] assms(4)
      by (intro from_same) (simp add: abandon_connection_def Let_def)
  next
    case (exchanged v rs rs')
    then show ?thesis using gateway_turn_silent[OF exchanged(3)] assms(3) by (intro from_silent) simp
  next
    case (server_lost v rs rs')
    then show ?thesis using gateway_turn_silent[OF server_lost(3)] assms(3) by (intro from_silent) simp
  next
    case (pinged v)
    show ?thesis by (intro from_silent silent_of_sends[OF ping_sends[OF pinged(3)]]) (simp add: concerns_def)
  next
    case (ping_failed v)
    show ?thesis by (intro from_silent silent_of_sends[OF ping_sends[OF ping_failed(3)]]) (simp add: concerns_def)
  next
    case (app_forwarded r v)
    then show ?thesis using client_app_turn_silent[OF app_forwarded(3)] assms(2)
      by (intro from_silent) (auto simp: client_speaks_def)
  next
    case (app_exhausted r v)
    then show ?thesis using client_app_turn_silent[OF app_exhausted(3)] assms(2)
      by (intro from_silent) (auto simp: client_speaks_def)
  next
    case (app_finished r v)
    show ?thesis unfolding app_finished(3)
      by (intro from_silent[unfolded app_finished(3)] silent_of_sends[OF client_app_end_sends])
        (use assms(2) app_finished(1) in \<open>auto simp: client_speaks_def concerns_def\<close>)
  next
    case dial_failed
    then show ?thesis by (intro from_same) simp
  next
    case reset
    then show ?thesis
      by (intro from_same) (simp add: client_on_disconnection_def close_all_links_def close_drained_eq update_metric_eq Let_def)
  qed
qed

lemma client_thread_step_says:
  assumes "client_thread_step z order h t s us s'" and "client_speaks s lid w t"
  shows "\<exists>ps. sends z w ps s s' \<and> said lid ps (client_thread_says s t) (of_all (client_thread_says s') us) (pr_writers s' w)"
  using assms
proof cases
  case (app_forwarded r v)
  then show ?thesis using client_app_turn_says[of z r w s True s' lid] assms(2) by (auto simp: client_speaks_def)
next
  case (app_exhausted r v)
  then show ?thesis using client_app_turn_says[of z r w s False s' lid] assms(2) by (auto simp: client_speaks_def)
next
  case (app_finished r v)
  then show ?thesis using client_app_end_sends[of z w w s r] assms(2)
    by (intro exI[of _ "[(PacketGW_new Close (gw_packet_id_counter s + 1) lid 0, None)]"])
      (auto simp: client_speaks_def said_def concerns_def)
qed (use assms(2) in \<open>auto simp: client_speaks_def\<close>)

text \<open>The other tasks keep what they have to say.\<close>

lemma client_others_say:
  assumes "order_lawful order" and "client_thread_step z order h t s us s'" and "apps_inv s (xs @ t # ys)"
    and "u \<in> set xs \<union> set ys"
  shows "client_thread_says s' u = client_thread_says s u" and "client_speaks s' lid w u = client_speaks s lid w u"
proof -
  have inv: "distinct (map fst (of_all serves (xs @ t # ys)))" "\<forall>(r, w) \<in> set (of_all serves (xs @ t # ys)). r < pr_next_link s"
    using assms(3) by (simp_all add: apps_inv_def)
  have r: "r < pr_next_link s \<and> r \<notin> fst ` set (serves t)" if "(r, v) \<in> set (serves u)" for r v
  proof -
    have mem: "(r, v) \<in> set (of_all serves xs) \<union> set (of_all serves ys)" using that assms(4) by (auto simp: of_all_def)
    then have "r \<in> fst ` set (of_all serves xs) \<union> fst ` set (of_all serves ys)" by force
    then show ?thesis using inv mem by auto
  qed
  show "client_thread_says s' u = client_thread_says s u"
    using client_thread_readers[OF assms(1,2)] r by (cases u) auto
  show "client_speaks s' lid w u = client_speaks s lid w u"
    by (rule speaks_same) (use client_thread_numbers(1)[OF assms(1,2)] r in blast)
qed

lemma client_numbered_good:
  assumes "order_lawful order" and "client_conversing lid w x" and "client_numbered_step z order h lid x y"
  shows "client_conversing lid w y"
proof -
  have step: "client_step z order h x y" and idle: "not_offered lid (snd y)"
    using assms(3) by (simp_all add: client_numbered_step_def)
  have inv: "client_inv (fst y) (snd y)" using client_step_inv[OF assms(1) step] assms(2) by (simp add: client_conversing_def)
  have "length (client_speakers lid w y) \<le> 1 \<and> w < pr_next_writer (fst y) \<and> w \<notin> set (of_all proves (snd y))"
    using step
  proof cases
    case (ping_command s ts)
    have keep: "client_keeps s (send_ping z s)" by (rule client_keeps_command)
    have "client_speaks (send_ping z s) lid w = client_speaks s lid w"
      by (rule ext, rule speaks_same) (use keep in \<open>simp add: client_keeps_def\<close>)
    then show ?thesis using assms(2) keep ping_command
      by (simp add: client_conversing_def client_speakers_def client_keeps_def)
  next
    case (task_runs t s us s' xs ys)
    have apps: "apps_inv s (xs @ t # ys)" and no: "\<not> offers lid t" and w: "w < pr_next_writer s" "w \<notin> set (of_all proves (xs @ t # ys))"
      and one: "length (client_speakers lid w (s, xs @ t # ys)) \<le> 1"
      using assms(2) task_runs(1) by (simp_all add: client_conversing_def client_inv_def)
    have bound: "r < pr_next_link s" if "(r, v) \<in> set (serves t)" for r v using that apps by (auto simp: apps_inv_def)
    note us = client_thread_speakers[OF assms(1) task_runs(3) no bound, where w = w]
    have same: "filter (client_speaks s' lid w) vs = filter (client_speaks s lid w) vs" if "set vs \<subseteq> set xs \<union> set ys" for vs
      by (rule filter_cong[OF refl]) (use client_others_say(2)[OF assms(1) task_runs(3) apps] that in blast)
    have "length (client_speakers lid w y) \<le> length (client_speakers lid w (s, xs @ t # ys))"
      using us client_thread_single[OF task_runs(3), of lid w] same[of xs] same[of ys] task_runs(2)
      by (simp add: client_speakers_def)
    then show ?thesis using one w client_thread_proves[OF task_runs(3)] task_runs(2)
        client_thread_numbers(3)[OF assms(1) task_runs(3)]
      by auto
  qed
  then show ?thesis using inv idle by (simp add: client_conversing_def)
qed

lemma client_numbered_says:
  assumes "order_lawful order" and "client_conversing lid w x" and "client_numbered_step z order h lid x y"
  shows "\<exists>ps. all_sendable ps \<and> puts (pr_writers (fst x) w) (images (wire z) ps) (pr_writers (fst y) w) \<and>
    said lid ps (client_says lid w x) (client_says lid w y) (pr_writers (fst y) w)"
proof -
  have "client_step z order h x y" using assms(3) by (simp add: client_numbered_step_def)
  then show ?thesis
  proof cases
    case (ping_command s ts)
    have keep: "client_keeps s (send_ping z s)" by (rule client_keeps_command)
    have "pr_links (send_ping z s) = pr_links s" by (simp add: send_ping_def next_packet_id_eq Let_def split: option.split)
    then have "client_thread_says (send_ping z s) t = client_thread_says s t"
        "client_speaks (send_ping z s) lid w t = client_speaks s lid w t" for t
      by (cases t; simp add: client_speaks_def)+
    then have "client_thread_says (send_ping z s) = client_thread_says s"
        "client_speaks (send_ping z s) lid w = client_speaks s lid w" by (blast intro: ext)+
    then have "client_says lid w y = client_says lid w x"
      using ping_command by (simp add: client_says_def client_speakers_def of_all_def)
    then show ?thesis using command_silent[of z lid w s] ping_command unfolding silent_def sends_def said_def by auto
  next
    case (task_runs t s us s' xs ys)
    have apps: "apps_inv s (xs @ t # ys)" and no: "\<not> offers lid t"
      and w: "w < pr_next_writer s" "w \<notin> set (proves t)"
      and one: "length (client_speakers lid w (s, xs @ t # ys)) \<le> 1"
      using assms(2) task_runs(1) by (simp_all add: client_conversing_def client_inv_def)
    have bound: "r < pr_next_link s" if "(r, v) \<in> set (serves t)" for r v using that apps by (auto simp: apps_inv_def)
    note us = client_thread_speakers[OF assms(1) task_runs(3) no bound, where w = w]
    note others = client_others_say[OF assms(1) task_runs(3) apps]
    have speak: "filter (client_speaks s' lid w) vs = filter (client_speaks s lid w) vs" if "set vs \<subseteq> set xs \<union> set ys" for vs
      by (rule filter_cong[OF refl]) (use others(2) that in blast)
    have says: "of_all (client_thread_says s') vs = of_all (client_thread_says s) vs" if "set vs \<subseteq> set xs \<union> set ys" for vs
    proof -
      have "map (client_thread_says s') vs = map (client_thread_says s) vs" using others(1) that by auto
      then show ?thesis unfolding of_all_def by (simp only:)
    qed
    let ?xs = "filter (client_speaks s lid w) xs" and ?ys = "filter (client_speaks s lid w) ys"
    have part: "set ?xs \<subseteq> set xs \<union> set ys" "set ?ys \<subseteq> set xs \<union> set ys" by auto
    show ?thesis
    proof (cases "client_speaks s lid w t")
      case True
      then have alone: "?xs = []" "?ys = []" using one by (simp_all add: client_speakers_def)
      obtain ps where "sends z w ps s s'"
          "said lid ps (client_thread_says s t) (of_all (client_thread_says s') us) (pr_writers s' w)"
        using client_thread_step_says[OF task_runs(3) True] by blast
      then show ?thesis using task_runs(1,2) True alone us speak[of xs] speak[of ys]
        by (intro exI[of _ ps]) (simp add: client_says_def client_speakers_def sends_def)
    next
      case False
      have "client_says lid w y = client_says lid w x"
        using task_runs(1,2) False us speak[of xs] speak[of ys] says[OF part(1)] says[OF part(2)]
        by (simp add: client_says_def client_speakers_def)
      then show ?thesis using client_thread_silent[OF task_runs(3) False no w(2,1)] task_runs(1,2)
        by (auto simp: said_def)
    qed
  qed
qed

interpretation client_talk: conversation "client_numbered_step z order h lid"
  "\<lambda>x. order_lawful order \<and> client_conversing lid w x" "\<lambda>x. pr_writers (fst x) w" "client_says lid w" z lid
  for z order h lid w
proof
  fix x y
  assume "order_lawful order \<and> client_conversing lid w x" "client_numbered_step z order h lid x y"
  then show "order_lawful order \<and> client_conversing lid w y" using client_numbered_good by blast
next
  fix x y
  assume "order_lawful order \<and> client_conversing lid w x" "client_numbered_step z order h lid x y"
  then show "\<exists>ps. all_sendable ps \<and> puts (pr_writers (fst x) w) (images (wire z) ps) (pr_writers (fst y) w) \<and>
      said lid ps (client_says lid w x) (client_says lid w y) (pr_writers (fst y) w)"
    using client_numbered_says by blast
qed

end
