(* ===== verification/Client_Concurrent.thy ===== *)
theory Client_Concurrent
  imports Client_Streams Server_Theorems
begin

text \<open>
  The tunnel from the client to the server in any interleaving of the client's tasks, and the
  client's exchange loop as a run of the task system.
\<close>

section \<open>The loop of an application as a run\<close>

lemma client_task_once:
  "client_thread_step z order h t s us s' \<Longrightarrow> (client_step z order h)\<^sup>*\<^sup>* (s, xs @ t # ys) (s', xs @ us @ ys)"
  by (rule r_into_rtranclp, rule client_step.task_runs)

lemma numbered_once:
  "client_thread_step z order h t s us s' \<Longrightarrow> not_offered lid (xs @ us @ ys) \<Longrightarrow>
     client_numbered_step z order h lid (s, xs @ t # ys) (s', xs @ us @ ys)"
  unfolding client_numbered_step_def using client_step.task_runs by auto

lemma client_app_exchange_runs:
  assumes "not_offered lid (xs @ ys)"
  shows "(client_numbered_step z order h lid)\<^sup>*\<^sup>* (s, xs @ Reading r w # ys) (client_app_exchange z r w s, xs @ ys)"
proof (induction z r w s rule: client_app_exchange.induct)
  case (1 z r w s)
  obtain g s' where t: "client_app_turn z r w s = (g, s')" by fastforce
  show ?case
  proof (cases g)
    case True
    then have "client_numbered_step z order h lid (s, xs @ Reading r w # ys) (s', xs @ [Reading r w] @ ys)"
      using t assms by (intro numbered_once client_thread_step.app_forwarded) simp_all
    moreover have "(client_numbered_step z order h lid)\<^sup>*\<^sup>* (s', xs @ [Reading r w] @ ys) (client_app_exchange z r w s', xs @ ys)"
      using "1.IH"[OF t[symmetric]] True by simp
    ultimately show ?thesis using t True
      by (simp add: client_app_exchange.simps[of z r w s] converse_rtranclp_into_rtranclp)
  next
    case False
    then have "client_numbered_step z order h lid (s, xs @ Reading r w # ys) (s', xs @ [Finishing r w] @ ys)"
      using t assms by (intro numbered_once client_thread_step.app_exhausted) simp_all
    moreover have "client_numbered_step z order h lid (s', xs @ Finishing r w # ys) (client_app_end z r w s', xs @ [] @ ys)"
      using assms by (intro numbered_once client_thread_step.app_finished) simp
    ultimately show ?thesis using t False
      by (simp add: client_app_exchange.simps[of z r w s] converse_rtranclp_into_rtranclp r_into_rtranclp)
  qed
qed

lemma client_app_exchange_budget:
  "budget (pr_writers (client_app_exchange z r w s) w) = budget (pr_writers s w)"
proof (induction z r w s rule: client_app_exchange.induct)
  case (1 z r w s)
  obtain x rd where a: "app_read 16384 (link_reader (pr_links s r)) = (x, rd)" by fastforce
  obtain g s' where t: "client_app_turn z r w s = (g, s')" by fastforce
  have "budget (pr_writers s' w) = budget (pr_writers s w)"
  proof (cases "x = Inr [] \<or> isl x")
    case True
    then show ?thesis using client_app_turn_stop[OF a True, of z w] t by auto
  next
    case False
    then obtain d where d: "x = Inr d" "d \<noteq> []" by (cases x) auto
    show ?thesis using client_app_turn_chunk(2)[OF a[unfolded d(1)] d(2) refl t] by simp
  qed
  then show ?case using "1.IH"[OF t[symmetric]] t
    by (cases g) (simp_all add: client_app_exchange.simps[of z r w s] client_app_end_writers)
qed

definition server_linked :: "u16 \<Rightarrow> server" where
  "server_linked lid = with_link (set_state Connected (Link_new \<lparr>ts_reader = [], ts_writer = wsock_open 1000\<rparr> lid)) sample_server"

lemma server_linked_live [simp]: "link_live lid 0 (server_linked lid)"
  by (auto simp: server_linked_def scenario_defs link_live_def set_state_def Link_new_def split: if_splits)

lemma server_linked_writer [simp]:
  "w_out (link_writer (pr_links (server_linked lid) 0)) = []"
  "w_room (link_writer (pr_links (server_linked lid) 0)) = 1000"
  by (simp_all add: server_linked_def scenario_defs w_room_def)

lemma sample_client_run:
  obtains s ts w s' ts' sent where "sample_client_reachable (s, ts)" and "client_speakers 1 w (s, ts) = [Reading 1 w]"
    and "not_offered 1 ts" and "(client_numbered_step zeros_zstd sample_links sample_hmac 1)\<^sup>*\<^sup>* (s, ts) (s', ts')"
    and "w_out (pr_writers s' w) = w_out (pr_writers s w) @ sent" and "client_speakers 1 w (s', ts') = []"
    and "0 < w_room (pr_writers s' w)" and "app_bytes (link_reader (pr_links s 1)) = [5, 6, 7]"
proof -
  obtain s w v where r: "sample_client_reachable (s, Exchanging w [] # Reading 1 w # Pinging w # Finishing 0 v # [Pinging v])"
    and s: "fmlookup (gw_links s) 1 = Some 1" "connection_id (pr_links s 0) = 1"
      "link_reader (pr_links s 1) = ts_reader talking_app" "v \<noteq> w" "w_room (pr_writers s w) = 99936"
    by (rule sample_stale_task)
  let ?ts = "Exchanging w [] # Reading 1 w # Pinging w # Finishing 0 v # [Pinging v]"
  let ?us = "[Exchanging w []] @ Pinging w # Finishing 0 v # [Pinging v]"
  let ?s = "client_app_exchange zeros_zstd 1 w s"
  have "registry_inv s ?ts" using client_reachable_inv[OF sample_links_lawful r] by (simp add: client_inv_def)
  then have number: "connection_id (pr_links s 1) = 1" using s(1) by (simp add: registry_inv_def)
  have empty: "from_bytes [] = None" using from_bytes_None_iff[of "[]"] by simp
  have idle: "client_speakers 1 w (s, ?ts) = [Reading 1 w]" "not_offered 1 ?ts"
    using s(4) number by (simp_all add: client_speakers_def client_speaks_def not_offered_def empty)
  have run: "(client_numbered_step zeros_zstd sample_links sample_hmac 1)\<^sup>*\<^sup>* (s, ?ts) (?s, ?us)"
    using client_app_exchange_runs[of 1 "[Exchanging w []]" "Pinging w # Finishing 0 v # [Pinging v]" zeros_zstd sample_links sample_hmac s 1 w]
    by (simp add: empty)
  let ?sent = "images (wire zeros_zstd) (app_stream 1 (gw_packet_id_counter s) [[5, 6], [7]])"
  have len: "length ?sent = 51" by (simp add: wire_def prepare_packet_def)
  have ch: "chunks 16384 (link_reader (pr_links s 1)) = [[5, 6], [7]]"
    by (simp add: s(3) talking_app_def chunks.simps[of _ "_ # _"] chunks.simps[of _ "[]"] del: One_nat_def)
  have out: "w_out (pr_writers ?s w) = w_out (pr_writers s w) @ ?sent"
    unfolding client_app_stream ch s(5) number using len by simp
  have "budget (pr_writers ?s w) = budget (pr_writers s w)" by (rule client_app_exchange_budget)
  then have room: "0 < w_room (pr_writers ?s w)" unfolding budget_def out s(5) length_append len by simp
  have ended: "client_speakers 1 w (?s, ?us) = []" using s(4) by (simp add: client_speakers_def client_speaks_def)
  have bytes: "app_bytes (link_reader (pr_links s 1)) = [5, 6, 7]" by (simp add: s(3) talking_app_def del: One_nat_def)
  show thesis by (rule that[OF r idle run out ended room bytes])
qed

section \<open>Properties\<close>

text \<open>
  The way back in any interleaving. The client runs on from any reachable state in which the
  task of a link reads its application, with its pings, its other links and tasks of earlier
  connections, as long as the server does not open the number again. What it sends meanwhile on the
  connection \<open>w\<close>, with all packets mixed, is read by the exchange loop of the server. Then the
  user of the link gets a first part of what the application wrote; and when the task has ended,
  nothing broke, and the user accepts it, all of it, and the user's connection is closed.
\<close>

theorem concurrent_tunnel_to_server:
  assumes "zstd_lawful z" and "order_lawful order"
    and "client_reachable z order h config p connects (s, ts)"
    and "client_speakers lid w (s, ts) = [Reading r w]" and "not_offered lid ts"
    and "(client_numbered_step z order h lid)\<^sup>*\<^sup>* (s, ts) (s', ts')"
    and "w_out (pr_writers s' w) = w_out (pr_writers s w) @ sent"
    and "link_live lid q sv" and "sv' = client_exchange z ho a i v sent sv"
  shows "\<exists>got. w_out (link_writer (pr_links sv' q)) = w_out (link_writer (pr_links sv q)) @ got \<and>
    prefix got (app_bytes (link_reader (pr_links s r))) \<and>
    (client_speakers lid w (s', ts') = [] \<and> w_room (pr_writers s' w) > 0 \<and>
      length (app_bytes (link_reader (pr_links s r))) \<le> w_room (link_writer (pr_links sv q)) \<longrightarrow>
      got = app_bytes (link_reader (pr_links s r)) \<and> link_state (pr_links sv' q) = Disconnected)"
proof -
  have inv: "client_inv s ts" using client_reachable_inv[OF assms(2,3)] .
  have "Reading r w \<in> set ts" using assms(4) by (auto simp: client_speakers_def filter_eq_Cons_iff)
  then have "w \<in> set (of_all uses ts)" by (force simp: of_all_def)
  then have start: "order_lawful order \<and> client_conversing lid w (s, ts)"
    using inv assms(2,4,5) by (auto simp: client_conversing_def client_inv_def connections_inv_def)
  obtain ps where ps: "all_sendable ps" "puts (pr_writers s w) (images (wire z) ps) (pr_writers s' w)"
      "said lid ps (client_says lid w (s, ts)) (client_says lid w (s', ts')) (pr_writers s' w)"
    using client_talk.run_says[OF assms(6) start] by auto
  let ?ds = "chunks 16384 (link_reader (pr_links s r))"
  have says: "client_says lid w (s, ts) = data_events ?ds @ [(Close, None)]"
    by (simp add: client_says_def assms(4))
  have bytes: "concat ?ds = app_bytes (link_reader (pr_links s r))" by (simp add: concat_chunks)
  show ?thesis
    by (rule server_end.conversation_delivered[OF assms(1,8) ps(1,2) assms(7) ps(3)[unfolded says] assms(9), unfolded bytes])
      (auto simp: client_says_def)
qed

theorem concurrent_tunnel_to_server_witness:
  "\<exists>s ts s' ts' sent w sv'. sample_client_reachable (s, ts) \<and>
     (client_numbered_step zeros_zstd sample_links sample_hmac 1)\<^sup>*\<^sup>* (s, ts) (s', ts') \<and>
     w_out (pr_writers s' w) = w_out (pr_writers s w) @ sent \<and>
     client_exchange zeros_zstd sample_order sample_peer 5 0 sent (server_linked 1) = sv' \<and>
     w_out (link_writer (pr_links sv' 0)) = [5, 6, 7] \<and> link_state (pr_links sv' 0) = Disconnected"
proof -
  obtain s ts w s' ts' sent where run: "sample_client_reachable (s, ts)" "client_speakers 1 w (s, ts) = [Reading 1 w]"
      "not_offered 1 ts" "(client_numbered_step zeros_zstd sample_links sample_hmac 1)\<^sup>*\<^sup>* (s, ts) (s', ts')"
      "w_out (pr_writers s' w) = w_out (pr_writers s w) @ sent" "client_speakers 1 w (s', ts') = []"
      "0 < w_room (pr_writers s' w)" "app_bytes (link_reader (pr_links s 1)) = [5, 6, 7]"
    by (rule sample_client_run)
  have "w_out (link_writer (pr_links (client_exchange zeros_zstd sample_order sample_peer 5 0 sent (server_linked 1)) 0)) = [5, 6, 7] \<and>
      link_state (pr_links (client_exchange zeros_zstd sample_order sample_peer 5 0 sent (server_linked 1)) 0) = Disconnected"
    using concurrent_tunnel_to_server[OF zeros_zstd_lawful sample_links_lawful run(1-5) server_linked_live refl] run(6-8)
    by (simp del: One_nat_def)
  then show ?thesis using run(1,4,5) by blast
qed

end
