(* ===== verification/Lifecycle.thy ===== *)
theory Lifecycle
  imports Scenario
begin

text \<open>
  The trait \<open>GatewayTrait\<close> (\<^verbatim>\<open>src/src/gateway/mod.rs\<close>) as a locale: what its callers rely
  on when the connection between the gateways is lost (\<open>on_disconnection\<close>) and when the program
  ends (\<open>shutdown\<close>), and its two implementations.
\<close>

section \<open>The interface\<close>

locale gateway_trait =
  fixes state_of :: "'s \<Rightarrow> GatewayState"
    and links_of :: "'s \<Rightarrow> (u16, lref) fmap"
    and heap_of :: "'s \<Rightarrow> lref \<Rightarrow> link"
    and on_disconnection :: "'h \<Rightarrow> 's \<Rightarrow> 's"
    and shutdown_gateway :: "'h \<Rightarrow> 's \<Rightarrow> 's"
    and lawful :: "'h \<Rightarrow> 's \<Rightarrow> bool"
  assumes lost_state: "lawful h s \<Longrightarrow> state_of (on_disconnection h s) = GsWaiting"
    and lost_links: "lawful h s \<Longrightarrow> links_of (on_disconnection h s) = fmempty"
    and lost_heap: "lawful h s \<Longrightarrow> heap_of (on_disconnection h s) r =
      (if r |\<in>| fmran (links_of s) then close_connection (heap_of s r) else heap_of s r)"
    and shut_links: "lawful h s \<Longrightarrow> links_of (shutdown_gateway h s) = fmempty"
    and shut_heap: "lawful h s \<Longrightarrow> heap_of (shutdown_gateway h s) r =
      (if r |\<in>| fmran (links_of s) then close_connection (heap_of s r) else heap_of s r)"
begin

text \<open>Every application that was registered is cut off, and has lost nothing it had received.\<close>

lemma lost_released:
  assumes "lawful h s" and "fmlookup (links_of s) l = Some r"
  shows "link_state (heap_of (on_disconnection h s) r) = Disconnected \<and>
    w_shut (link_writer (heap_of (on_disconnection h s) r)) \<and>
    w_out (link_writer (heap_of (on_disconnection h s) r)) = w_out (link_writer (heap_of s r))"
  using assms fmranI[OF assms(2)] by (simp add: lost_heap shutdown_def)

lemma shut_released:
  assumes "lawful h s" and "fmlookup (links_of s) l = Some r"
  shows "link_state (heap_of (shutdown_gateway h s) r) = Disconnected \<and>
    w_shut (link_writer (heap_of (shutdown_gateway h s) r)) \<and>
    w_out (link_writer (heap_of (shutdown_gateway h s) r)) = w_out (link_writer (heap_of s r))"
  using assms fmranI[OF assms(2)] by (simp add: shut_heap shutdown_def)

text \<open>Connections that are no longer registered are not touched.\<close>

lemma lost_others: "lawful h s \<Longrightarrow> r |\<notin>| fmran (links_of s) \<Longrightarrow> heap_of (on_disconnection h s) r = heap_of s r"
  by (simp add: lost_heap)

end

section \<open>The client\<close>

interpretation client_trait: gateway_trait client_state gw_links pr_links client_on_disconnection
  client_shutdown "\<lambda>order (s :: client). drains order (gw_links s)"
  by unfold_locales (auto simp: client_on_disconnection_def client_shutdown_def client_state_def
      gw_shutdown_def gw_shutdown_writer_def close_all_links_eq Let_def split: option.split)

section \<open>The server\<close>

lemma hash_order_drains: "hash_order_lawful ho \<Longrightarrow> drains (ho_links ho (fmdom m)) m"
  by (simp add: hash_order_lawful_def drains_def)

lemma shutdown_writers_frame [simp]:
  "gw_links (shutdown_writers cs s) = gw_links s" "pr_links (shutdown_writers cs s) = pr_links s"
  "w_shut (pr_writers (shutdown_writers cs s) w) \<longleftrightarrow> w_shut (pr_writers s w) \<or> w \<in> cs_writer ` set cs"
  by (induction cs s rule: shutdown_writers.induct) (auto simp: gw_shutdown_writer_def shutdown_def)

lemma release_sessions_remove:
  "fmlookup (release_sessions remove_session cs st) i =
     (if i \<in> cs_session_id ` set cs then None else fmlookup st i)"
  by (induction cs arbitrary: st) (auto simp: remove_session_def)

lemma release_sessions_restore:
  "release_sessions (\<lambda>i st. snd (restore_session i st)) cs st = release_sessions remove_session cs st"
  by (induction cs arbitrary: st) (simp_all add: remove_session_def restore_session_def)

lemma drained_sessions_set:
  assumes "hash_order_lawful ho"
  shows "set (drained_sessions ho s) = fset (fmran (sv_client_sessions s))"
proof -
  have "set (ho_addrs ho S) = fset S" for S
    using assms unfolding hash_order_lawful_def by (metis fset_of_list.rep_eq)
  then show ?thesis
    by (auto simp: drained_sessions_def List.map_filter_def fmlookup_dom_iff fmran'_alt_def
        intro: fmranI fmdomI elim!: fmranE split: option.splits)
      (metis (no_types, lifting) fmdomI image_eqI option.sel)
qed

interpretation server_trait: gateway_trait server_state gw_links pr_links server_on_disconnection
  server_shutdown "\<lambda>ho (s :: server). hash_order_lawful ho"
  by unfold_locales (auto simp: server_on_disconnection_def server_shutdown_def server_state_def
      gw_shutdown_def close_all_links_eq[OF hash_order_drains] Let_def)

section \<open>What each side releases\<close>

text \<open>
  C32: a client that has lost its server is back at the start: it waits, holds no connection to a
  server and no registered link, and every application it was connected to has been cut off without
  losing a byte of what it had received.
\<close>

theorem client_releases_on_disconnection:
  assumes "drains order (gw_links s)"
  shows "client_state (client_on_disconnection order s) = GsWaiting \<and>
    cl_gw_writer (client_on_disconnection order s) = None \<and>
    cl_gw_reader (client_on_disconnection order s) = None \<and>
    gw_links (client_on_disconnection order s) = fmempty \<and>
    (\<forall>l r. fmlookup (gw_links s) l = Some r \<longrightarrow>
      link_state (pr_links (client_on_disconnection order s) r) = Disconnected \<and>
      w_shut (link_writer (pr_links (client_on_disconnection order s) r)) \<and>
      w_out (link_writer (pr_links (client_on_disconnection order s) r)) = w_out (link_writer (pr_links s r)))"
proof -
  have "cl_gw_writer (client_on_disconnection order s) = None"
    "cl_gw_reader (client_on_disconnection order s) = None"
    by (simp_all add: client_on_disconnection_def Let_def)
  then show ?thesis
    using client_trait.lost_state[OF assms] client_trait.lost_links[OF assms]
      client_trait.lost_released[OF assms] by blast
qed

theorem client_releases_on_disconnection_witness:
  "link_state (pr_links (client_on_disconnection [1] tunnel_client) 0) = Disconnected"
proof -
  have "drains [1] (gw_links tunnel_client)" by (simp add: drains_def tunnel_defs)
  from client_releases_on_disconnection[OF this] show ?thesis using tunnel_link(1) by blast
qed

text \<open>
  C31: the graceful shutdown of the server, in whatever order its hash maps are drained: every
  registered application connection is closed, every client session is gone from the registry, its
  connection is shut down and its identifier is removed from the session store; nothing else is
  removed from the store.
\<close>

theorem server_shutdown_releases:
  assumes "hash_order_lawful ho"
  shows "gw_links (server_shutdown ho s) = fmempty \<and> sv_client_sessions (server_shutdown ho s) = fmempty \<and>
    (\<forall>l r. fmlookup (gw_links s) l = Some r \<longrightarrow>
      link_state (pr_links (server_shutdown ho s) r) = Disconnected \<and>
      w_shut (link_writer (pr_links (server_shutdown ho s) r))) \<and>
    (\<forall>a c. fmlookup (sv_client_sessions s) a = Some c \<longrightarrow>
      w_shut (pr_writers (server_shutdown ho s) (cs_writer c)) \<and>
      \<not> has_session (cs_session_id c) (sv_session_store (server_shutdown ho s))) \<and>
    (\<forall>i. has_session i (sv_session_store s) \<longrightarrow>
      (\<forall>a c. fmlookup (sv_client_sessions s) a = Some c \<longrightarrow> cs_session_id c \<noteq> i) \<longrightarrow>
      has_session i (sv_session_store (server_shutdown ho s)))"
proof -
  let ?cs = "drained_sessions ho s"
  have cs: "set ?cs = fset (fmran (sv_client_sessions s))" using drained_sessions_set[OF assms] .
  have eq: "server_shutdown ho s = (let t = shutdown_writers ?cs ((close_all_links (ho_links ho (fmdom (gw_links s))) s)
      \<lparr>sv_client_sessions := fmempty\<rparr>) in t\<lparr>sv_session_store := release_sessions remove_session ?cs (sv_session_store t)\<rparr>)"
    by (simp add: server_shutdown_def gw_shutdown_def close_all_links_eq[OF hash_order_drains[OF assms]]
        drained_sessions_def Let_def)
  have store: "sv_session_store (shutdown_writers ks t) = sv_session_store t"
    "sv_client_sessions (shutdown_writers ks t) = sv_client_sessions t" for ks and t :: server
    by (induction ks t rule: shutdown_writers.induct) (simp_all add: gw_shutdown_writer_def)
  have parts: "sv_client_sessions (server_shutdown ho s) = fmempty"
    "sv_session_store (server_shutdown ho s) = release_sessions remove_session ?cs (sv_session_store s)"
    "w_shut (pr_writers (server_shutdown ho s) w) \<longleftrightarrow> w_shut (pr_writers s w) \<or> w \<in> cs_writer ` set ?cs" for w
    by (simp_all add: eq store Let_def close_all_links_eq[OF hash_order_drains[OF assms]])
  have has: "has_session i (sv_session_store (server_shutdown ho s)) \<longleftrightarrow>
      i \<notin> cs_session_id ` set ?cs \<and> has_session i (sv_session_store s)" for i
    by (auto simp: parts has_session_def fmlookup_dom_iff release_sessions_remove split: if_splits)
  have live: "c \<in> set ?cs \<longleftrightarrow> (\<exists>a. fmlookup (sv_client_sessions s) a = Some c)" for c
    by (auto simp: cs fmlookup_ran_iff)
  have gone: "w_shut (pr_writers (server_shutdown ho s) (cs_writer c)) \<and>
      \<not> has_session (cs_session_id c) (sv_session_store (server_shutdown ho s))"
    if "fmlookup (sv_client_sessions s) a = Some c" for a c
  proof -
    have "c \<in> set ?cs" using that live by blast
    then show ?thesis unfolding parts(3) has by blast
  qed
  have kept: "has_session i (sv_session_store (server_shutdown ho s))"
    if "has_session i (sv_session_store s)"
      and "\<forall>a c. fmlookup (sv_client_sessions s) a = Some c \<longrightarrow> cs_session_id c \<noteq> i" for i
    using that live unfolding has by blast
  show ?thesis
    using server_trait.shut_links[OF assms] server_trait.shut_released[OF assms] parts(1) gone kept
    by blast
qed

theorem server_shutdown_releases_witness:
  "link_state (pr_links (server_shutdown sample_order tunnel_server) 0) = Disconnected \<and>
   gw_links (server_shutdown sample_order tunnel_server) = fmempty"
  using server_shutdown_releases[OF sample_order_lawful, of tunnel_server] tunnel_link(2) by blast

end
