(* ===== verification/Listeners.thy ===== *)
theory Listeners
  imports Server_System Scenario
begin

text \<open>
  The accept loops of the server (\<open>listen_gateway\<close>, \<open>listen_app\<close> and \<open>run\<close> of
  \<^verbatim>\<open>src/src/gateway/server.rs\<close>). What a listener does with a connection is to spawn a task; the
  tasks are those of \<open>Server_System\<close>, each run here to its first await. Whether a port can be bound
  and what \<open>accept\<close> answers is the environment's: \<open>None\<close> is an error, which is logged and passed over.
\<close>

section \<open>The loops\<close>

type_synonym gw_arrival = "(SocketAddr option \<times> gw_stream) option"

definition spawn_gateway :: "SocketAddr option \<Rightarrow> gw_stream \<Rightarrow> system \<Rightarrow> system" where
  "spawn_gateway peer k x =
     (let (s, ts) = x; ((a, w), s) = accept_gateway peer k s
      in (s, ts @ [Authenticating a w (gs_reader k)]))"

definition spawn_app :: "tcp_stream \<Rightarrow> system \<Rightarrow> system" where
  "spawn_app k x = (let (s, ts) = x in (s, ts @ [Choosing k]))"

fun accept_gateways :: "gw_arrival list \<Rightarrow> system \<Rightarrow> system" where
  "accept_gateways [] x = x"
| "accept_gateways (None # ks) x = accept_gateways ks x"
| "accept_gateways (Some (peer, k) # ks) x = accept_gateways ks (spawn_gateway peer k x)"

fun accept_apps :: "tcp_stream option list \<Rightarrow> system \<Rightarrow> system" where
  "accept_apps [] x = x"
| "accept_apps (None # ks) x = accept_apps ks x"
| "accept_apps (Some k # ks) x = accept_apps ks (spawn_app k x)"

text \<open>The listeners return at once when their port cannot be bound.\<close>

definition listen_gateway :: "bool \<Rightarrow> gw_arrival list \<Rightarrow> system \<Rightarrow> system" where
  "listen_gateway bound ks x =
     (let (s, ts) = x; (listening, s) = listen_gateway_start bound s
      in if listening then accept_gateways ks (s, ts) else (s, ts))"

definition listen_app :: "bool \<Rightarrow> tcp_stream option list \<Rightarrow> system \<Rightarrow> system" where
  "listen_app bound ks x = (if bound then accept_apps ks x else x)"

text \<open>
  \<open>run\<close> joins the two listeners, which are tasks themselves: their turns alternate in any way, which
  is the list of rounds. Each round is some connections of gateways and then some of applications.
\<close>

fun serve_rounds :: "bool \<Rightarrow> bool \<Rightarrow> (gw_arrival list \<times> tcp_stream option list) list \<Rightarrow> system \<Rightarrow> system" where
  "serve_rounds gw_bound app_bound [] x = x"
| "serve_rounds gw_bound app_bound ((gs, ks) # rounds) x = serve_rounds gw_bound app_bound rounds
     (listen_app app_bound ks (if gw_bound then accept_gateways gs x else x))"

definition server_run ::
  "bool \<Rightarrow> bool \<Rightarrow> (gw_arrival list \<times> tcp_stream option list) list \<Rightarrow> server \<Rightarrow> system" where
  "server_run gw_bound app_bound rounds s =
     serve_rounds gw_bound app_bound rounds (listen_gateway gw_bound [] (s, []))"

section \<open>Lemmas\<close>

lemma spawn_gateway_step: "system_step z ho h x (spawn_gateway peer k x)"
proof -
  obtain s ts where x: "x = (s, ts)" by fastforce
  obtain a w s' where a: "accept_gateway peer k s = ((a, w), s')" by (metis surj_pair)
  show ?thesis using client_arrives[where z = z and ho = ho and h = h and ts = ts, OF a]
    by (simp add: x a spawn_gateway_def)
qed

lemma spawn_app_step: "system_step z ho h x (spawn_app k x)"
  using app_arrives[of z ho h "fst x" "snd x" k] by (simp add: spawn_app_def case_prod_beta)

lemma accept_gateways_steps: "(system_step z ho h)\<^sup>*\<^sup>* x (accept_gateways ks x)"
  by (induction ks x rule: accept_gateways.induct)
    (auto intro: converse_rtranclp_into_rtranclp spawn_gateway_step)

lemma accept_apps_steps: "(system_step z ho h)\<^sup>*\<^sup>* x (accept_apps ks x)"
  by (induction ks x rule: accept_apps.induct)
    (auto intro: converse_rtranclp_into_rtranclp spawn_app_step)

lemma serve_rounds_steps: "(system_step z ho h)\<^sup>*\<^sup>* x (serve_rounds g a rounds x)"
proof (induction g a rounds x rule: serve_rounds.induct)
  case (2 g a gs ks rounds x)
  have "(system_step z ho h)\<^sup>*\<^sup>* x (listen_app a ks (if g then accept_gateways gs x else x))"
    by (simp add: listen_app_def accept_apps_steps accept_gateways_steps)
      (metis accept_apps_steps accept_gateways_steps rtranclp_trans)
  with 2 show ?case by simp
qed simp

text \<open>Every accepted connection is one task, in the order of the arrivals; errors leave no trace.\<close>

fun arrived :: "server_thread \<Rightarrow> rsock + tcp_stream" where
  "arrived (Authenticating a w rs) = Inl rs"
| "arrived (Choosing k) = Inr k"
| "arrived _ = undefined"

definition gw_arrivals :: "gw_arrival list \<Rightarrow> (rsock + tcp_stream) list" where
  "gw_arrivals ks = List.map_filter (map_option (\<lambda>(peer, k). Inl (gs_reader k))) ks"

definition app_arrivals :: "tcp_stream option list \<Rightarrow> (rsock + tcp_stream) list" where
  "app_arrivals ks = List.map_filter (map_option Inr) ks"

lemma arrivals_simps [simp]:
  "gw_arrivals [] = []" "gw_arrivals (None # ks) = gw_arrivals ks"
  "gw_arrivals (Some (peer, k) # ks) = Inl (gs_reader k) # gw_arrivals ks"
  "app_arrivals [] = []" "app_arrivals (None # cs) = app_arrivals cs"
  "app_arrivals (Some c # cs) = Inr c # app_arrivals cs"
  by (simp_all add: gw_arrivals_def app_arrivals_def List.map_filter_def)

lemma accept_gateways_arrived:
  "map arrived (snd (accept_gateways ks x)) = map arrived (snd x) @ gw_arrivals ks"
  by (induction ks x rule: accept_gateways.induct) (simp_all add: spawn_gateway_def case_prod_beta)

lemma accept_apps_arrived:
  "map arrived (snd (accept_apps ks x)) = map arrived (snd x) @ app_arrivals ks"
  by (induction ks x rule: accept_apps.induct) (simp_all add: spawn_app_def case_prod_beta)

lemma accept_apps_state: "fst (accept_apps ks x) = fst x"
  by (induction ks x rule: accept_apps.induct) (simp_all add: spawn_app_def case_prod_beta)

lemma serve_rounds_arrived:
  "map arrived (snd (serve_rounds g a rounds x)) = map arrived (snd x) @
     concat (map (\<lambda>(gs, ks). (if g then gw_arrivals gs else []) @ (if a then app_arrivals ks else [])) rounds)"
  by (induction g a rounds x rule: serve_rounds.induct)
    (simp_all add: listen_app_def accept_gateways_arrived accept_apps_arrived)

lemma serve_rounds_unbound: "\<not> g \<Longrightarrow> fst (serve_rounds g a rounds x) = fst x"
  by (induction g a rounds x rule: serve_rounds.induct) (simp_all add: listen_app_def accept_apps_state)

lemma listen_gateway_silent: "listen_gateway bound [] (s, ts) = (snd (listen_gateway_start bound s), ts)"
  by (simp add: listen_gateway_def case_prod_beta)

section \<open>Property\<close>


definition sample_rounds :: "(gw_arrival list \<times> tcp_stream option list) list" where
  "sample_rounds =
     [([None, Some (None, \<lparr>gs_reader = [1, 2], gs_writer = wsock_open 9\<rparr>)], []),
      ([], [None, Some \<lparr>ts_reader = [], ts_writer = wsock_open 5\<rparr>])]"


end
