(* ===== verification/Main_App.thy ===== *)
theory Main_App
  imports Scenario Gw_Utils Lifecycle Listeners
begin

text \<open>
  The program around the gateways: the client's \<open>run\<close> loop with its reconnections
  (\<^verbatim>\<open>src/src/gateway/client.rs\<close>), the statistics that both modes print, the commands of standard
  input and the dispatch of \<open>main\<close> (\<^verbatim>\<open>src/src/main.rs\<close>). What the environment answers (dials,
  lines, the configuration file) is data.
\<close>

section \<open>The client's main loop\<close>

text \<open>The session identifier: loaded, or drawn anew, and saved in either case.\<close>

definition client_session_id ::
  "uuid_crate \<Rightarrow> (unit \<Rightarrow> uuid) \<Rightarrow> file_system \<Rightarrow> uuid \<times> file_system" where
  "client_session_id u new_v4 fs =
     (let session_id = (case load_session_id u None fs of
                          Some i \<Rightarrow> i | None \<Rightarrow> generate_session_id new_v4);
          (r, fs) = persist_session_id u session_id None fs
      in (session_id, fs))"

definition gateway_addr :: "'a gateway_scheme \<Rightarrow> string" where
  "gateway_addr s = host_port (host_gw (network (gw_config s))) (port_gw (network (gw_config s)))"

text \<open>
  \<open>connect_gateway\<close>: one answer of \<open>dials\<close> per \<open>TcpStream::connect\<close>. A failure waits 5 s and tries
  again; when the answers run out, the loop is still trying. The result has the answers left, the
  addresses dialled, and whether a connection was handled.
\<close>

fun connect_gateway ::
  "hmac \<Rightarrow> zstd \<Rightarrow> gw_stream option list \<Rightarrow> client
    \<Rightarrow> bool \<times> gw_stream option list \<times> string list \<times> client" where
  "connect_gateway h z [] s = (False, [], [], s)"
| "connect_gateway h z (Some socket # dials) s =
     (True, dials, [gateway_addr s], on_connection h z socket s)"
| "connect_gateway h z (None # dials) s =
     (let (done, rest, addrs, s') = connect_gateway h z dials s
      in (done, rest, gateway_addr s # addrs, s'))"

lemma connect_gateway_consumes:
  "connect_gateway h z dials s = (True, rest, addrs, s') \<Longrightarrow> length rest < length dials"
  by (induction h z dials s arbitrary: rest addrs s' rule: connect_gateway.induct)
    (fastforce split: prod.splits)+

function client_run ::
  "hmac \<Rightarrow> zstd \<Rightarrow> (u16 fset \<Rightarrow> u16 list) \<Rightarrow> gw_stream option list \<Rightarrow> client \<Rightarrow> client" where
  "client_run h z order dials s =
     (let s = s\<lparr>gw_state := GsWaiting\<rparr>
      in case connect_gateway h z dials s of
           (True, rest, addrs, s') \<Rightarrow>
             client_run h z order rest (client_on_disconnection (order (fmdom (gw_links s'))) s')
         | (False, rest, addrs, s') \<Rightarrow> s')"
  by pat_completeness auto
termination
  by (relation "measure (\<lambda>(h, z, order, dials, s). length dials)")
    (auto dest!: connect_gateway_consumes[OF sym])

declare client_run.simps [simp del]

section \<open>Statistics\<close>

definition dec_int :: "int \<Rightarrow> string" where
  "dec_int n = (if n < 0 then ''-'' @ dec_nat (nat (- n)) else dec_nat (nat n))"

definition dec_word :: "'a::len word \<Rightarrow> string" where
  "dec_word n = dec_nat (unat n)"

text \<open>\<open>{:?}\<close> of a link's state.\<close>

fun ConnectionState_debug :: "ConnectionState \<Rightarrow> string" where
  "ConnectionState_debug Disconnected = ''Disconnected''"
| "ConnectionState_debug Connected = ''Connected''"
| "ConnectionState_debug Waiting = ''Waiting''"

definition link_lines :: "(u16 \<Rightarrow> u64 \<times> u64 \<times> ConnectionState \<Rightarrow> string) \<Rightarrow> u16 list \<Rightarrow> 'a gateway_scheme \<Rightarrow> string list" where
  "link_lines render order s = List.map_filter
     (\<lambda>lid. map_option (\<lambda>r. render lid (get_stats (pr_links s r))) (fmlookup (gw_links s) lid)) order"

text \<open>The lines that the client prints; \<open>order\<close> is the order in which the map iterates.\<close>

definition client_print_stats :: "u16 list \<Rightarrow> client \<Rightarrow> string list" where
  "client_print_stats order s =
     (let stats = gw_statistics s in
      [''State: '' @ GatewayState_display (client_state s),
       ''Statistics:'',
       ''  Packets in: '' @ dec_word (packets_in stats),
       ''  Packets out: '' @ dec_word (packets_out stats),
       ''  Bytes in: '' @ dec_word (bytes_in stats) @ '' ('' @ format_bytes (bytes_in stats) @ '')'',
       ''  Bytes out: '' @ dec_word (bytes_out stats) @ '' ('' @ format_bytes (bytes_out stats) @ '')'',
       ''Active connections: '' @ dec_nat (fcard (fmdom (gw_links s)))] @
      link_lines (\<lambda>lid (bi, bo, st). ''  #'' @ dec_word lid @ ''['' @ ConnectionState_debug st @
        '']: in='' @ format_bytes bi) order s @
      [''Last activity: '' @ dec_int (cl_last_activity s) @ '' (keep-alive: '' @
        dec_int (gw_keep_alive_stamp s) @ '')''])"

text \<open>\<open>show_addr\<close> and \<open>show_uuid\<close> are the \<open>Display\<close> of the standard library and of the crate.\<close>

definition server_print_stats ::
  "(SocketAddr \<Rightarrow> string) \<Rightarrow> (uuid \<Rightarrow> string) \<Rightarrow> SocketAddr list \<Rightarrow> u16 list \<Rightarrow> server \<Rightarrow> string list" where
  "server_print_stats show_addr show_uuid addrs order s =
     (let stats = gw_statistics s in
      [''GW state: '' @ GatewayState_display (server_state s),
       '' Since: '' @ dec_int (connection_time stats),
       '' Packets out/in: '' @ dec_word (packets_out stats) @ ''/'' @ dec_word (packets_in stats),
       '' Data in/out: '' @ dec_word (bytes_in stats) @ ''/'' @ dec_word (bytes_out stats),
       '' Gateway clients: '' @ dec_nat (fcard (fmdom (sv_client_sessions s))) @ '' (sessions: '' @
         dec_nat (session_count (sv_session_store s)) @ '')''] @
      List.map_filter (\<lambda>a. map_option (\<lambda>c. ''  '' @ show_addr (cs_addr c) @ '': connected at '' @
        dec_int (cs_connected_at c) @ '' (session '' @ show_uuid (cs_session_id c) @ '')'')
        (fmlookup (sv_client_sessions s) a)) addrs @
      ['' App connections: '' @ dec_nat (fcard (fmdom (gw_links s)))] @
      link_lines (\<lambda>lid (bi, bo, st). '' #'' @ dec_word lid @ ''['' @ ConnectionState_display st @
        '']: '' @ dec_word bi @ ''/'' @ dec_word bo) order s)"

section \<open>Standard input\<close>

text \<open>The outcomes of \<open>next_line\<close>: a line, or an error; the end of the list is the end of input.\<close>

datatype stdin_event = Line ustring | ReadFailed

text \<open>Lines printed or logged, in order, and the client after the commands.\<close>

datatype console = Printed "string list" | Unknown ustring | InputError

fun stdin_loop_client ::
  "zstd \<Rightarrow> (u16 fset \<Rightarrow> u16 list) \<Rightarrow> stdin_event list \<Rightarrow> client \<Rightarrow> console list \<times> client" where
  "stdin_loop_client z order [] s = ([], s)"
| "stdin_loop_client z order (ReadFailed # es) s = ([InputError], s)"
| "stdin_loop_client z order (Line l # es) s =
     (let t = trim l in
      if t = [] then
        (let (out, s') = stdin_loop_client z order es s
         in (Printed (client_print_stats (order (fmdom (gw_links s))) s) # out, s'))
      else if t = [112] \<or> t = [80] then stdin_loop_client z order es (send_ping z s)
      else (let (out, s') = stdin_loop_client z order es s in (Unknown t # out, s')))"

fun stdin_loop_server :: "(server \<Rightarrow> string list) \<Rightarrow> stdin_event list \<Rightarrow> server \<Rightarrow> console list" where
  "stdin_loop_server print_stats [] s = []"
| "stdin_loop_server print_stats (ReadFailed # es) s = [InputError]"
| "stdin_loop_server print_stats (Line l # es) s =
     (let t = trim l in
      (if t = [] then Printed (print_stats s) else Unknown t) # stdin_loop_server print_stats es s)"

section \<open>\<open>main\<close>\<close>

text \<open>How far \<open>main\<close> gets: it exits with a code, or it starts the metrics server and a gateway.\<close>

datatype startup =
    Exited nat
  | Started AppMode u16 configuration

definition main_start :: "(string \<Rightarrow> config_error + raw_configuration) \<Rightarrow> string \<Rightarrow> startup" where
  "main_start read path =
     (case Configuration_load read path of
        Inl e \<Rightarrow> Exited 1
      | Inr config \<Rightarrow>
         (case validate config of
            Inl e \<Rightarrow> Exited 1
          | Inr u \<Rightarrow>
             (let mode = app_mode config;
                  port = (case metrics_port config of Some p \<Rightarrow> p | None \<Rightarrow> DEFAULT_METRICS_PORT)
              in case mode of
                   Client \<Rightarrow> Started Client port config
                 | Server \<Rightarrow> Started Server port config
                 | Undefined \<Rightarrow> Exited 1)))"

text \<open>
  The task of the metrics is spawned before the gateway is built; a panic in it or a port that is
  taken ends that task only. The gateway, by mode:
\<close>

datatype gateway_task = ClientTask client | ServerTask server

definition main_gateway ::
  "AppMode \<Rightarrow> configuration \<Rightarrow> process \<Rightarrow> tcp_stream option list \<Rightarrow> gateway_task option" where
  "main_gateway m config p connects =
     (case m of
        Client \<Rightarrow> Some (ClientTask (GatewayClient_new config p connects))
      | Server \<Rightarrow> Some (ServerTask (GatewayServer_new config p))
      | Undefined \<Rightarrow> None)"

definition main_program ::
  "(string \<Rightarrow> config_error + raw_configuration) \<Rightarrow> string \<Rightarrow> (string \<Rightarrow> bool) \<Rightarrow> (u16 \<Rightarrow> bool) \<Rightarrow> process
    \<Rightarrow> tcp_stream option list \<Rightarrow> nat + gateway_task" where
  "main_program read path register bindable p connects =
     (case main_start read path of
        Exited code \<Rightarrow> Inl code
      | Started m port config \<Rightarrow>
         (let p = (case start_metrics_server register bindable port (pr_metrics p) of
                     Some (served, mt) \<Rightarrow> p\<lparr>pr_metrics := mt\<rparr>
                   | None \<Rightarrow> p)
          in case main_gateway m config p connects of
               Some g \<Rightarrow> Inr g
             | None \<Rightarrow> Inl 1))"

text \<open>
  \<open>shutdown_signal\<close>: which of the signals that arrive ends the wait, if any. Outside Unix there is no
  handler for \<open>SIGTERM\<close>. A handler that cannot be installed panics: None.
\<close>

datatype os_signal = CtrlC | Terminate | OtherSignal

definition shutdown_signal ::
  "bool \<Rightarrow> (os_signal \<Rightarrow> bool) \<Rightarrow> os_signal list \<Rightarrow> os_signal option option" where
  "shutdown_signal unix install signals =
     (if \<not> install CtrlC \<or> unix \<and> \<not> install Terminate then None
      else Some (List.find (\<lambda>g. g = CtrlC \<or> unix \<and> g = Terminate) signals))"

text \<open>The \<open>select!\<close>: a signal shuts the gateway down, the end of its task does not.\<close>

definition main_end_client :: "bool \<Rightarrow> u16 list \<Rightarrow> client \<Rightarrow> client" where
  "main_end_client signalled order s = (if signalled then client_shutdown order s else s)"

definition main_end_server :: "bool \<Rightarrow> hash_order \<Rightarrow> server \<Rightarrow> server" where
  "main_end_server signalled ho s = (if signalled then server_shutdown ho s else s)"

section \<open>Properties\<close>

text \<open>What \<open>main\<close> does with its configuration file.\<close>

lemma main_starts_validated_only:
  "case main_start read path of
     Exited code \<Rightarrow> code = 1 \<and> (\<forall>c. Configuration_load read path = Inr c \<longrightarrow> validate c \<noteq> Inr ())
   | Started m port c \<Rightarrow> Configuration_load read path = Inr c \<and> validate c = Inr () \<and>
       m = app_mode c \<and> m \<noteq> Undefined \<and> port \<noteq> 0 \<and>
       port = (if port_metrics (network c) = 0 then 9090 else port_metrics (network c))"
proof (cases "Configuration_load read path")
  case (Inl e)
  then show ?thesis by (simp add: main_start_def)
next
  case (Inr c)
  show ?thesis
  proof (cases "validate c")
    case (Inl e)
    then show ?thesis using Inr by (simp add: main_start_def)
  next
    case (Inr u)
    then have "app_mode c \<noteq> Undefined" using validate_not_undefined by simp
    then show ?thesis using \<open>Configuration_load read path = Inr c\<close> Inr
      by (cases "app_mode c") (simp_all add: main_start_def metrics_port_def Let_def word_greater_zero_iff)
  qed
qed

definition sample_raw :: raw_configuration where
  "sample_raw = \<lparr>raw_mode = Some ''SERVER'', raw_key = Some ''k'', raw_port_gw = None,
     raw_port_app = Some 8000, raw_host_app = None, raw_host_gw = None, raw_port_metrics = Some 0\<rparr>"

lemma sample_main_start:
  "\<exists>c. main_start (\<lambda>p. Inr sample_raw) ''iog.toml'' = Started Server 9090 c"
proof -
  have l: "Configuration_load (\<lambda>p. Inr sample_raw) ''iog.toml'' = Inr
      \<lparr>general = \<lparr>mode = ''SERVER'', key = ''k''\<rparr>, network = \<lparr>port_gw = 0, port_app = 8000,
        host_app = [], host_gw = [], port_metrics = 0\<rparr>\<rparr>" (is "_ = Inr ?c")
    by (simp add: Configuration_load_def general_from_raw_def network_from_raw_def sample_raw_def or_default_def)
  have m: "app_mode ?c = Server" using AppMode_from_display[of Server] by (simp add: app_mode_def)
  then have v: "validate ?c = Inr ()" by (simp add: validate_ok_iff)
  show ?thesis using main_starts_validated_only[of "\<lambda>p. Inr sample_raw" "''iog.toml''"] l m v
    by (cases "main_start (\<lambda>p. Inr sample_raw) ''iog.toml''") auto
qed

text \<open>
  C36: what \<open>main\<close> starts. A gateway runs only with a configuration that was loaded and validated,
  in the mode that the file names; it is then \<open>WAITING\<close>, with no link and no client. In every other
  case the program exits with code 1. Metrics that cannot be registered, or whose port is taken, do not
  keep the gateway from running.
\<close>

theorem main_launches_valid_gateway:
  "case main_program read path register bindable p connects of
     Inl code \<Rightarrow> code = 1 \<and> (\<forall>c. Configuration_load read path = Inr c \<longrightarrow> validate c \<noteq> Inr ())
   | Inr (ClientTask s) \<Rightarrow> Configuration_load read path = Inr (gw_config s) \<and>
       validate (gw_config s) = Inr () \<and> app_mode (gw_config s) = Client \<and>
       client_state s = GsWaiting \<and> gw_links s = fmempty \<and> cl_gw_writer s = None \<and> cl_tasks s = []
   | Inr (ServerTask s) \<Rightarrow> Configuration_load read path = Inr (gw_config s) \<and>
       validate (gw_config s) = Inr () \<and> app_mode (gw_config s) = Server \<and>
       server_state s = GsWaiting \<and> gw_links s = fmempty \<and> sv_client_sessions s = fmempty \<and>
       sv_link_clients s = fmempty \<and> session_count (sv_session_store s) = 0"
proof (cases "main_start read path")
  case (Exited n)
  then show ?thesis using main_starts_validated_only[of read path] by (simp add: main_program_def)
next
  case (Started m port c)
  then have c: "Configuration_load read path = Inr c" "validate c = Inr ()" "m = app_mode c" "m \<noteq> Undefined"
    using main_starts_validated_only[of read path, unfolded Started startup.case] by blast+
  show ?thesis
    using c Started by (cases m) (simp_all add: main_program_def main_gateway_def client_state_def
      server_state_def session_count_def SessionStore_new_def GatewayClient_new_def GatewayServer_new_def Gateway_new_def gateway.defs
      process.defs Let_def)
qed

theorem main_launches_valid_gateway_witness:
  "\<exists>s. main_program (\<lambda>p. Inr sample_raw) ''iog.toml'' (\<lambda>m. False) (\<lambda>p. False) sample_process [] =
      Inr (ServerTask s) \<and> app_mode (gw_config s) = Server \<and> validate (gw_config s) = Inr ()"
proof -
  obtain c where "main_start (\<lambda>p. Inr sample_raw) ''iog.toml'' = Started Server 9090 c"
    using sample_main_start by blast
  then obtain s where s: "main_program (\<lambda>p. Inr sample_raw) ''iog.toml'' (\<lambda>m. False) (\<lambda>p. False) sample_process [] =
      Inr (ServerTask s)"
    by (simp add: main_program_def main_gateway_def Let_def)
  then show ?thesis
    using main_launches_valid_gateway[of "\<lambda>p. Inr sample_raw" "''iog.toml''" "\<lambda>m. False" "\<lambda>p. False" sample_process "[]"]
    by simp
qed

text \<open>
  The client tries until it gets through: failed attempts are repeated with the same address,
  nothing else happens to the client meanwhile, and the first connection that succeeds is handled.
\<close>

theorem connect_gateway_retries:
  "connect_gateway h z (replicate n None @ Some socket # dials) s =
     (True, dials, replicate (Suc n) (gateway_addr s), on_connection h z socket s)"
  by (induction n) simp_all

lemma connect_gateway_failed:
  "connect_gateway h z dials s = (False, rest, addrs, s') \<Longrightarrow> s' = s"
  by (induction h z dials s arbitrary: rest addrs s' rule: connect_gateway.induct)
    (fastforce split: prod.splits)+



end
