(* ===== verification/Client_Runs.thy ===== *)
theory Client_Runs
  imports Client_System Main_App "HOL-Library.Multiset"
begin

text \<open>
  The client's \<open>run\<close>, written as one function, is a run of the task system: the one in which the
  tasks it spawns have not got a turn yet. A whole run is followed with the tasks that it spawned,
  in any order.
\<close>

section \<open>The main task alone\<close>

definition spawned :: "client \<Rightarrow> client_thread list \<Rightarrow> bool" where
  "spawned s ts \<longleftrightarrow> mset ts = image_mset started (mset (cl_tasks s))"

text \<open>The main task gets from one state and point to another, the others waiting.\<close>

definition main_runs ::
  "zstd \<Rightarrow> (u16 fset \<Rightarrow> u16 list) \<Rightarrow> hmac \<Rightarrow> client \<Rightarrow> client_thread \<Rightarrow> client \<Rightarrow> client_thread \<Rightarrow> bool" where
  "main_runs z order h s t s' t' \<longleftrightarrow> (\<forall>ts. spawned s ts \<longrightarrow>
     (\<exists>us. spawned s' us \<and> (client_step z order h)\<^sup>*\<^sup>* (s, t # ts) (s', t' # us)))"

lemma main_runs_refl: "main_runs z order h s t s t"
  by (auto simp: main_runs_def)

lemma main_runs_trans [trans]:
  "main_runs z order h s t s' t' \<Longrightarrow> main_runs z order h s' t' s'' t'' \<Longrightarrow> main_runs z order h s t s'' t''"
  unfolding main_runs_def by (meson rtranclp_trans)

lemma main_runs_step:
  assumes "client_thread_step z order h t s (t' # new_tasks s s') s'" and "prefix (cl_tasks s) (cl_tasks s')"
  shows "main_runs z order h s t s' t'"
  unfolding main_runs_def
proof (intro allI impI)
  fix ts assume ts: "spawned s ts"
  have "client_step z order h (s, [] @ t # ts) (s', [] @ (t' # new_tasks s s') @ ts)"
    by (rule client_step.task_runs[OF assms(1)])
  moreover have "spawned s' (new_tasks s s' @ ts)"
    using ts assms(2) by (auto simp: spawned_def new_tasks_def prefix_def)
  ultimately show "\<exists>us. spawned s' us \<and> (client_step z order h)\<^sup>*\<^sup>* (s, t # ts) (s', t' # us)"
    by (intro exI[of _ "new_tasks s s' @ ts"]) simp
qed

lemma main_runs_quiet:
  assumes "client_thread_step z order h t s [t'] s'" and "cl_tasks s' = cl_tasks s"
  shows "main_runs z order h s t s' t'"
  using main_runs_step[of z order h t s t' s'] assms by (simp add: new_tasks_def)

lemma turn_spawns: "gateway_turn z w rs s = (g, rs', s') \<Longrightarrow> prefix (cl_tasks s) (cl_tasks s')"
  by (drule gateway_turn_effect) (auto simp: client_keeps_def adds_link_def)

lemma gateway_exchange_runs:
  "main_runs z order h s (Exchanging w rs) (snd (gateway_exchange z w rs s)) LostServer"
proof (induction z w rs s rule: gateway_exchange.induct)
  case (1 z w rs s)
  obtain g rs' s' where t: "gateway_turn z w rs s = (g, rs', s')" by (metis prod.collapse)
  show ?case
  proof (cases g)
    case True
    have "main_runs z order h s (Exchanging w rs) s' (Exchanging w rs')"
      using t True by (intro main_runs_step[OF client_thread_step.exchanged]) (simp_all add: turn_spawns)
    also have "main_runs z order h s' (Exchanging w rs') (snd (gateway_exchange z w rs' s')) LostServer"
      using "1.IH"[OF t[symmetric] _ refl] True by simp
    finally show ?thesis using t True by (simp add: gateway_exchange.simps[of z w rs s])
  next
    case False
    have "main_runs z order h s (Exchanging w rs) s' LostServer"
      using t False by (intro main_runs_step[OF client_thread_step.server_lost]) (simp_all add: turn_spawns)
    then show ?thesis using t False by (simp add: gateway_exchange.simps[of z w rs s])
  qed
qed

lemma disconnection_tasks: "cl_tasks (client_on_disconnection order s) = cl_tasks s"
proof -
  have "cl_tasks (close_drained order s) = cl_tasks s" for s
    by (induction order s rule: close_drained.induct) (simp_all add: update_link_def split: option.split)
  then show ?thesis
    by (simp add: client_on_disconnection_def close_all_links_def update_connections_metric_def
        with_metrics_def Let_def)
qed

lemma on_connection_runs: "main_runs z order h s Dialling (on_connection h z k s) LostServer"
proof -
  obtain w s1 where b: "begin_connection k s = (w, s1)" by fastforce
  obtain ok rs s2 where au: "gw_authenticate h w (gs_reader k) s1 = (ok, rs, s2)" by (metis prod.collapse)
  have keep: "cl_tasks s2 = cl_tasks s1" using client_keeps_authenticate[OF au] by (simp add: client_keeps_def)
  have "main_runs z order h s Dialling s1 (ProvingKey w (gs_reader k))"
    by (rule main_runs_quiet[OF client_thread_step.dialled[OF b]])
      (use b in \<open>auto simp: begin_connection_def alloc_writer_def Let_def\<close>)
  also have "main_runs z order h s1 (ProvingKey w (gs_reader k)) (on_connection h z k s) LostServer"
  proof (cases ok)
    case False
    have "main_runs z order h s1 (ProvingKey w (gs_reader k)) (abandon_connection s2) LostServer"
      using au False keep by (intro main_runs_quiet[OF client_thread_step.refused])
        (simp_all add: abandon_connection_def)
    then show ?thesis using au b False by (simp add: on_connection_def)
  next
    case True
    let ?s3 = "begin_exchange w s2"
    have same: "new_tasks s1 ?s3 = new_tasks s2 ?s3" by (simp add: new_tasks_def keep)
    have "main_runs z order h s1 (ProvingKey w (gs_reader k)) ?s3 (Exchanging w rs)"
      using client_thread_step.proved[of h w "gs_reader k" s1 rs s2 z order] au True keep
      by (intro main_runs_step) (simp add: same, simp add: begin_exchange_def spawn_def)
    also have "main_runs z order h ?s3 (Exchanging w rs) (snd (gateway_exchange z w rs ?s3)) LostServer"
      by (rule gateway_exchange_runs)
    finally show ?thesis using au b True by (simp add: on_connection_def Let_def)
  qed
  finally show ?thesis .
qed

lemma connect_gateway_runs:
  "connect_gateway h z dials s = (ok, rest, addrs, s') \<Longrightarrow>
     main_runs z order h s Dialling s' (if ok then LostServer else Dialling)"
proof (induction h z dials s arbitrary: ok rest addrs rule: connect_gateway.induct)
  case (3 h z dials s)
  then show ?case by (auto split: prod.splits)
qed (auto simp: main_runs_refl on_connection_runs)

lemma client_run_runs:
  assumes "gw_state s = GsWaiting"
  shows "main_runs z order h s Dialling (client_run h z order dials s) Dialling"
  using assms
proof (induction h z order dials s rule: client_run.induct)
  case (1 h z order dials s)
  have w: "s\<lparr>gw_state := GsWaiting\<rparr> = s" using "1.prems" by simp
  obtain ok rest addrs s' where c': "connect_gateway h z dials (s\<lparr>gw_state := GsWaiting\<rparr>) = (ok, rest, addrs, s')"
    by (metis prod.collapse)
  then have c: "connect_gateway h z dials s = (ok, rest, addrs, s')" by (simp add: w)
  note run = connect_gateway_runs[OF c, of order]
  show ?case
  proof (cases ok)
    case False
    then show ?thesis using run c by (simp add: client_run.simps[of h z order dials s] w)
  next
    case True
    let ?t = "client_on_disconnection (order (fmdom (gw_links s'))) s'"
    have "main_runs z order h s Dialling s' LostServer" using run True by simp
    also have "main_runs z order h s' LostServer ?t Dialling"
      by (rule main_runs_quiet[OF client_thread_step.reset disconnection_tasks])
    also have "main_runs z order h ?t Dialling (client_run h z order rest ?t) Dialling"
      using "1.IH"[OF refl c'[symmetric] _ refl refl] True
      by (simp add: w client_on_disconnection_def)
    finally show ?thesis using c True by (simp add: client_run.simps[of h z order dials s] w)
  qed
qed

section \<open>Property\<close>


end
