(* ===== verification/End_To_End.thy ===== *)
theory End_To_End
  imports Client_Delivery Server_Delivery Client_Concurrent Client_Runs
begin

text \<open>
  Both ends together: the tasks of the server, in any interleaving, put bytes on a connection, and the
  tasks of the client, in any interleaving, read them. What the user of one link wrote is what
  its application receives.
\<close>

section \<open>The bytes that a run has sent\<close>

lemma server_run_sent:
  assumes "reachable z ho h config p (s, ts)"
    and "speakers lid w ts = [Forwarding r w lid]" and "number_idle lid ts"
    and "(numbered_step z ho h lid)\<^sup>*\<^sup>* (s, ts) (s', ts')"
    and "w_out (pr_writers s' w) = w_out (pr_writers s w) @ sent"
  obtains qs rest where "sent = images (wire z) qs @ rest" and "all_sendable qs" and "rest = [] \<or> cut_off z rest"
    and "prefix (link_events lid qs) (data_events (chunks 16384 (link_reader (pr_links s r))) @ [(Close, None)])"
    and "speakers lid w ts' = [] \<and> w_room (pr_writers s' w) > 0 \<longrightarrow> rest = [] \<and>
      link_events lid qs = data_events (chunks 16384 (link_reader (pr_links s r))) @ [(Close, None)]"
proof -
  let ?ev = "data_events (chunks 16384 (link_reader (pr_links s r))) @ [(Close, None)]"
  have start: "conversing lid w (s, ts)" using reachable_conversing[OF assms(1,3,2)] .
  obtain ps where ps: "all_sendable ps" "puts (pr_writers s w) (images (wire z) ps) (pr_writers s' w)"
      "said lid ps (server_says lid w (s, ts)) (server_says lid w (s', ts')) (pr_writers s' w)"
    using server_talk.run_says[OF assms(4) start] by auto
  have says: "server_says lid w (s, ts) = ?ev" by (simp add: server_says_def assms(2))
  show thesis
    by (rule sent_stream[OF ps(1,2) assms(5) ps(3)[unfolded says]], rule that) (auto simp: server_says_def)
qed

lemma client_run_sent:
  assumes "order_lawful order" and "client_reachable z order h config p connects (s, ts)"
    and "client_speakers lid w (s, ts) = [Reading r w]" and "not_offered lid ts"
    and "(client_numbered_step z order h lid)\<^sup>*\<^sup>* (s, ts) (s', ts')"
    and "w_out (pr_writers s' w) = w_out (pr_writers s w) @ sent"
  obtains qs rest where "sent = images (wire z) qs @ rest" and "all_sendable qs" and "rest = [] \<or> cut_off z rest"
    and "prefix (link_events lid qs) (data_events (chunks 16384 (link_reader (pr_links s r))) @ [(Close, None)])"
    and "client_speakers lid w (s', ts') = [] \<and> w_room (pr_writers s' w) > 0 \<longrightarrow> rest = [] \<and>
      link_events lid qs = data_events (chunks 16384 (link_reader (pr_links s r))) @ [(Close, None)]"
proof -
  let ?ev = "data_events (chunks 16384 (link_reader (pr_links s r))) @ [(Close, None)]"
  have "Reading r w \<in> set ts" using assms(3) by (auto simp: client_speakers_def filter_eq_Cons_iff)
  then have "w \<in> set (of_all uses ts)" by (force simp: of_all_def)
  then have start: "order_lawful order \<and> client_conversing lid w (s, ts)"
    using client_reachable_inv[OF assms(1,2)] assms(1,3,4)
    by (auto simp: client_conversing_def client_inv_def connections_inv_def)
  obtain ps where ps: "all_sendable ps" "puts (pr_writers s w) (images (wire z) ps) (pr_writers s' w)"
      "said lid ps (client_says lid w (s, ts)) (client_says lid w (s', ts')) (pr_writers s' w)"
    using client_talk.run_says[OF assms(5) start] by auto
  have says: "client_says lid w (s, ts) = ?ev" by (simp add: client_says_def assms(3))
  show thesis
    by (rule sent_stream[OF ps(1,2) assms(6) ps(3)[unfolded says]], rule that) (auto simp: client_says_def)
qed

section \<open>A run of the client that reads a stream to its end\<close>

lemma new_tasks_serve: "list_all (\<lambda>t. \<not> is_main t) (new_tasks s s')"
proof -
  have "\<not> is_main (started t)" for t by (cases t) simp_all
  then show ?thesis by (simp add: new_tasks_def list_all_iff)
qed

lemma exchange_steps:
  "\<exists>zs. (client_step z order h)\<^sup>*\<^sup>* (s, Exchanging w rs # ts) (snd (gateway_exchange z w rs s), LostServer # zs @ ts) \<and>
     list_all (\<lambda>t. \<not> is_main t) zs"
proof (induction z w rs s arbitrary: ts rule: gateway_exchange.induct)
  case (1 z w rs s)
  obtain g rs' s' where t: "gateway_turn z w rs s = (g, rs', s')" by (metis prod.collapse)
  have first: "client_step z order h (s, Exchanging w rs # ts) (s', u # new_tasks s s' @ ts)"
    if "client_thread_step z order h (Exchanging w rs) s (u # new_tasks s s') s'" for u
    using client_step.task_runs[OF that, of "[]" ts] by simp
  show ?case
  proof (cases g)
    case True
    obtain zs where zs: "(client_step z order h)\<^sup>*\<^sup>* (s', Exchanging w rs' # new_tasks s s' @ ts)
        (snd (gateway_exchange z w rs' s'), LostServer # zs @ new_tasks s s' @ ts)" "list_all (\<lambda>t. \<not> is_main t) zs"
      using "1.IH"[OF t[symmetric] _ refl] True by blast
    have "client_step z order h (s, Exchanging w rs # ts) (s', Exchanging w rs' # new_tasks s s' @ ts)"
      by (rule first[OF client_thread_step.exchanged]) (use t True in simp)
    then have "(client_step z order h)\<^sup>*\<^sup>* (s, Exchanging w rs # ts)
        (snd (gateway_exchange z w rs' s'), LostServer # (zs @ new_tasks s s') @ ts)"
      using zs(1) by (simp add: converse_rtranclp_into_rtranclp)
    then show ?thesis using t True zs(2) new_tasks_serve[of s s']
      by (intro exI[of _ "zs @ new_tasks s s'"]) (simp add: gateway_exchange.simps[of z w rs s])
  next
    case False
    have "client_step z order h (s, Exchanging w rs # ts) (s', LostServer # new_tasks s s' @ ts)"
      by (rule first[OF client_thread_step.server_lost]) (use t False in simp)
    then show ?thesis using t False new_tasks_serve[of s s']
      by (intro exI[of _ "new_tasks s s'"]) (simp add: gateway_exchange.simps[of z w rs s] r_into_rtranclp)
  qed
qed

section \<open>A run of the server that reads a stream to its end\<close>

lemma serving_steps:
  assumes "\<forall>t \<in> set ts. \<forall>s. \<not> meddles z lid q s t" and "\<forall>a w rs. Registering a i w rs \<notin> set ts"
  shows "\<exists>s'. (undisturbed z ho h lid q i)\<^sup>*\<^sup>* (s, Serving a i w rs # ts) (s', Leaving a i # ts)"
proof (induction "length rs" arbitrary: rs s rule: less_induct)
  case less
  obtain g rs' s1 where t: "client_turn z w rs s = (g, rs', s1)" by (metis prod.collapse)
  have once: "undisturbed z ho h lid q i (s, Serving a i w rs # ts) (s1, u # ts)"
    if "thread_step z ho h (Serving a i w rs) s [u] s1" "\<And>a w rs. Registering a i w rs \<noteq> u" for u
    using system_step.thread_runs[OF that(1), of "[]" ts] that(2) assms unfolding undisturbed_def by simp
  show ?case
  proof (cases g)
    case True
    have "length rs' < length rs" using client_turn_consumes[of z w rs s rs' s1] t True by simp
    then obtain s' where "(undisturbed z ho h lid q i)\<^sup>*\<^sup>* (s1, Serving a i w rs' # ts) (s', Leaving a i # ts)"
      using less by blast
    moreover have "undisturbed z ho h lid q i (s, Serving a i w rs # ts) (s1, Serving a i w rs' # ts)"
      by (rule once[OF thread_step.served]) (use t True in simp_all)
    ultimately show ?thesis by (meson converse_rtranclp_into_rtranclp)
  next
    case False
    have "undisturbed z ho h lid q i (s, Serving a i w rs # ts) (s1, Leaving a i # ts)"
      by (rule once[OF thread_step.disconnected]) (use t False in simp_all)
    then show ?thesis by blast
  qed
qed

text \<open>A link that the client has confirmed, with the bytes \<open>bs\<close> still to be read from it.\<close>

lemma sample_confirmed:
  obtains s r w where "sample_reachable (s, [Serving sample_peer 5 w bs, Forwarding r w 1])" and "link_live 1 r s"
    and "link_writer (pr_links s r) = wsock_open 1000"
proof -
  let ?k = "\<lparr>ts_reader = [], ts_writer = wsock_open 1000\<rparr>" and ?p = "PacketGW_new Opened 1 1 0"
  obtain s r w where r: "sample_reachable (s, [Serving sample_peer 5 w (wire zeros_zstd ?p None @ bs), Forwarding r w 1])"
    and s: "link_writer (pr_links s r) = wsock_open 1000" "gw_links s = fmupd 1 r fmempty" "pr_next_link s = Suc r"
    by (rule sample_link_stream[of "wire zeros_zstd ?p None @ bs" ?k]) simp
  obtain t where t: "client_turn zeros_zstd w (wire zeros_zstd ?p None @ bs) s =
      (let (g, u) = server_dispatch zeros_zstd w (sent_header zeros_zstd ?p None) None t in (g, bs, u))"
    and same: "pr_links t = pr_links s" "gw_links t = gw_links s" "pr_next_link t = pr_next_link s"
    using client_turn_reads[OF zeros_zstd_lawful, of ?p None w bs s] by (auto simp: sendable_def)
  let ?u = "update_link r (set_state Connected) t"
  have "fmlookup (gw_links t) 1 = Some r" unfolding same(2) s(2) by simp
  then have turn: "client_turn zeros_zstd w (wire zeros_zstd ?p None @ bs) s = (True, bs, ?u)"
    using t by (simp add: server_dispatch_def)
  have "sample_reachable (?u, [] @ [Serving sample_peer 5 w bs] @ [Forwarding r w 1])"
    by (rule reachable_thread[OF _ thread_step.served[OF turn]]) (use r in simp)
  then have reach: "sample_reachable (?u, [Serving sample_peer 5 w bs, Forwarding r w 1])" by simp
  have u: "gw_links ?u = fmupd 1 r fmempty" "pr_next_link ?u = Suc r" "pr_links ?u r = set_state Connected (pr_links s r)"
    using same s by (simp_all add: update_link_def)
  have "link_live 1 r ?u" unfolding link_live_def u by (auto simp: set_state_def Let_def split: if_splits option.splits)
  moreover have "link_writer (pr_links ?u r) = wsock_open 1000" unfolding u(3) using s(1)
    by (simp add: set_state_def Let_def split: option.split)
  ultimately show thesis using that reach by blast
qed

section \<open>Properties\<close>

text \<open>
  C1: the tunnel, end to end, with all tasks of both gateways in any interleaving. The server runs on
  from any reachable state in which the task of the link \<open>lid\<close> forwards its user's data on a
  connection; the bytes it sends are those that the main task of the client has still to read, in a
  reachable state in which it has connected the link and no task of an earlier connection has its
  number. However the client runs on, with its pings, its other links and lost connections, the
  application has received a first part of what the user wrote. If the task of the user's connection has
  ended and nothing broke, and the application takes the data, then it has received everything and its
  connection is closed, at the latest when the client has read the stream, unless the application
  itself has ended its side before.
\<close>

theorem end_to_end_to_client:
  assumes "zstd_lawful z" and "reachable z ho h config p (s, ts)"
    and "speakers lid w ts = [Forwarding r w lid]" and "number_idle lid ts"
    and "(numbered_step z ho h lid)\<^sup>*\<^sup>* (s, ts) (s', ts')"
    and "w_out (pr_writers s' w) = w_out (pr_writers s w) @ sent"
    and "order_lawful order" and "client_reachable z order h' config' p' connects (cl, us)"
    and "Exchanging v sent \<in> set us" and "link_live lid q cl" and "sole lid q cl us"
    and "(client_step z order h')\<^sup>*\<^sup>* (cl, us) (cl', us')"
  shows "\<exists>got. w_out (link_writer (pr_links cl' q)) = w_out (link_writer (pr_links cl q)) @ got \<and>
    prefix got (app_bytes (link_reader (pr_links s r))) \<and>
    (speakers lid w ts' = [] \<and> w_room (pr_writers s' w) > 0 \<and>
      length (app_bytes (link_reader (pr_links s r))) \<le> w_room (link_writer (pr_links cl q)) \<and>
      (link_state (pr_links cl' q) = Disconnected \<or>
        q \<in> fst ` set (of_all serves us') \<and> (\<forall>rs. Exchanging v rs \<in> set us' \<longrightarrow> rs = [])) \<longrightarrow>
      got = app_bytes (link_reader (pr_links s r)) \<and> link_state (pr_links cl' q) = Disconnected)"
proof -
  let ?ds = "chunks 16384 (link_reader (pr_links s r))"
  obtain qs rest where sent: "sent = images (wire z) qs @ rest" "all_sendable qs" "rest = [] \<or> cut_off z rest"
      "prefix (link_events lid qs) (data_events ?ds @ [(Close, None)])"
      "speakers lid w ts' = [] \<and> w_room (pr_writers s' w) > 0 \<longrightarrow>
        rest = [] \<and> link_events lid qs = data_events ?ds @ [(Close, None)]"
    by (rule server_run_sent[OF assms(2-6)])
  have inv: "client_inv cl us" using client_reachable_inv[OF assms(7,8)] .
  obtain got where "w_out (link_writer (pr_links cl' q)) = w_out (link_writer (pr_links cl q)) @ got"
    "prefix got (concat ?ds)"
    "\<lbrakk>rest = []; link_events lid qs = data_events ?ds @ [(Close, None)];
        length (concat ?ds) \<le> w_room (link_writer (pr_links cl q));
        link_state (pr_links cl' q) = Disconnected \<or>
          q \<in> fst ` set (of_all serves us') \<and> (\<forall>rs. Exchanging v rs \<in> set us' \<longrightarrow> rs = [])\<rbrakk> \<Longrightarrow>
      got = concat ?ds \<and> link_state (pr_links cl' q) = Disconnected"
    using client_receives[OF assms(1,7) inv assms(10,11) assms(9)[unfolded sent(1)] sent(2-4) assms(12)] by blast
  then show ?thesis using sent(5) by (intro exI[of _ got]) (auto simp: concat_chunks)
qed

theorem end_to_end_to_client_witness:
  "\<exists>s ts s' lid w sent cl us v cl' us'. sample_reachable (s, ts) \<and>
     (system_step zeros_zstd sample_order sample_hmac)\<^sup>*\<^sup>* (s, ts) (s', [Serving sample_peer 5 w []]) \<and>
     w_out (pr_writers s' w) = w_out (pr_writers s w) @ sent \<and>
     sample_client_reachable (cl, Exchanging v sent # us) \<and>
     (client_step zeros_zstd sample_links sample_hmac)\<^sup>*\<^sup>* (cl, Exchanging v sent # us) (cl', us') \<and>
     fmlookup (gw_links cl) lid = Some 0 \<and> w_out (link_writer (pr_links cl 0)) = [] \<and>
     w_out (link_writer (pr_links cl' 0)) = [1, 2, 3, 4] \<and> link_state (pr_links cl' 0) = Disconnected"
proof -
  obtain s r w lid s' sent where
    run: "sample_reachable (s, [Serving sample_peer 5 w [], Forwarding r w lid])"
      "(work_step zeros_zstd sample_order sample_hmac)\<^sup>*\<^sup>* (s, [Serving sample_peer 5 w [], Forwarding r w lid]) (s', [Serving sample_peer 5 w []])"
    and out: "w_out (pr_writers s' w) = w_out (pr_writers s w) @ sent"
    and s': "0 < w_room (pr_writers s' w)" "app_bytes (link_reader (pr_links s r)) = [1, 2, 3, 4]"
    by (rule sample_app_run)
  let ?ts = "[Serving sample_peer 5 w [], Forwarding r w lid]"
  have idle: "number_idle lid ?ts" "speakers lid w ?ts = [Forwarding r w lid]" by simp_all
  have numbered: "(numbered_step zeros_zstd sample_order sample_hmac lid)\<^sup>*\<^sup>* (s, ?ts) (s', [Serving sample_peer 5 w []])"
    by (rule conjunct1[OF work_run_numbered[OF run(2)]]) simp
  obtain s0 where start: "client_start sample_config sample_process [Some quiet_app, Some talking_app] = (s0, [Dialling])"
      and s0: "cl_app_connects s0 = [Some quiet_app, Some talking_app]" "gw_links s0 = fmempty" "pr_next_link s0 = 0"
    by (simp add: client_start_def GatewayClient_new_def Gateway_new_def gateway.defs process.defs sample_process_def)
  have r0: "sample_client_reachable (s0, Dialling # [])" unfolding client_reachable_def start by simp
  obtain cl v where cl: "sample_client_reachable (cl, Exchanging v sent # [Reading 0 v, Pinging v])"
      "gw_links cl = fmupd lid 0 fmempty" "pr_next_link cl = 1" "link_state (pr_links cl 0) = Connected"
      "link_writer (pr_links cl 0) = wsock_open 1000"
    by (rule sample_session[OF r0 s0(1,2), where lid = lid and bs = sent]) (simp add: s0(3) quiet_app_def)
  have live: "link_live lid 0 cl" using cl(2-4) by (simp add: link_live_def)
  let ?us = "Exchanging v sent # [Reading 0 v, Pinging v]"
  have sole: "sole lid 0 cl ?us" by (simp add: sole_def of_all_def)
  have mem: "Exchanging v sent \<in> set ?us" by simp
  obtain cl' zs where client: "(client_step zeros_zstd sample_links sample_hmac)\<^sup>*\<^sup>* (cl, ?us) (cl', LostServer # zs @ [Reading 0 v, Pinging v])"
      "list_all (\<lambda>t. \<not> is_main t) zs"
    using exchange_steps by blast
  have read: "(0 :: lref) \<in> fst ` set (of_all serves (LostServer # zs @ [Reading 0 v, Pinging v]))"
      "\<forall>rs. Exchanging v rs \<in> set (LostServer # zs @ [Reading 0 v, Pinging v]) \<longrightarrow> rs = []"
    using client(2) by (force simp: of_all_def list_all_iff)+
  have start': "w_out (link_writer (pr_links cl 0)) = []" "w_room (link_writer (pr_links cl 0)) = 1000"
    using cl(5) by (simp_all add: wsock_open_def w_room_def)
  have "w_out (link_writer (pr_links cl' 0)) = [1, 2, 3, 4] \<and> link_state (pr_links cl' 0) = Disconnected"
    using end_to_end_to_client[OF zeros_zstd_lawful run(1) idle(2,1) numbered out sample_links_lawful cl(1) mem live sole client(1)]
      s' read start' by simp
  then show ?thesis using run(1) work_run_system[OF run(2)] out cl(1,2) client(1) start'(1)
    by (intro exI conjI) (assumption | simp)+
qed

text \<open>
  C2: the way back, end to end, with all tasks of both gateways in any interleaving. The client runs on
  from any reachable state in which the task of the link \<open>lid\<close> reads its application; the bytes it sends
  are those that the task of a session of the server has still to read, in a reachable state in which
  the link is connected. However the server runs on, with other users, clients that come and go and the
  task of the link itself, as long as no other client interferes with the link, its user has received a
  first part of what the application wrote. If the task of the application has ended and nothing
  broke, and the user takes the data and has not ended its own side, then it has received everything
  and its connection is closed when the task of the session has read the stream.
\<close>

theorem end_to_end_to_server:
  assumes "zstd_lawful z" and "order_lawful order" and "client_reachable z order h config p connects (cl, us)"
    and "client_speakers lid w (cl, us) = [Reading r w]" and "not_offered lid us"
    and "(client_numbered_step z order h lid)\<^sup>*\<^sup>* (cl, us) (cl', us')"
    and "w_out (pr_writers cl' w) = w_out (pr_writers cl w) @ sent"
    and "hash_order_lawful ho" and "reachable z ho h' config' p' (s, ts)"
    and "Serving a i v sent \<in> set ts" and "link_live lid q s"
    and "(undisturbed z ho h' lid q i)\<^sup>*\<^sup>* (s, ts) (s', ts')"
  shows "\<exists>got. w_out (link_writer (pr_links s' q)) = w_out (link_writer (pr_links s q)) @ got \<and>
    prefix got (app_bytes (link_reader (pr_links cl r))) \<and>
    (client_speakers lid w (cl', us') = [] \<and> w_room (pr_writers cl' w) > 0 \<and>
      length (app_bytes (link_reader (pr_links cl r))) \<le> w_room (link_writer (pr_links s q)) \<and>
      (\<exists>u l. Forwarding q u l \<in> set ts') \<and> (\<forall>a w rs. Serving a i w rs \<in> set ts' \<longrightarrow> rs = []) \<longrightarrow>
      got = app_bytes (link_reader (pr_links cl r)) \<and> link_state (pr_links s' q) = Disconnected)"
proof -
  let ?ds = "chunks 16384 (link_reader (pr_links cl r))"
  obtain qs rest where sent: "sent = images (wire z) qs @ rest" "all_sendable qs" "rest = [] \<or> cut_off z rest"
      "prefix (link_events lid qs) (data_events ?ds @ [(Close, None)])"
      "client_speakers lid w (cl', us') = [] \<and> w_room (pr_writers cl' w) > 0 \<longrightarrow>
        rest = [] \<and> link_events lid qs = data_events ?ds @ [(Close, None)]"
    by (rule client_run_sent[OF assms(2-7)])
  obtain got where "w_out (link_writer (pr_links s' q)) = w_out (link_writer (pr_links s q)) @ got"
    "prefix got (concat ?ds)"
    "rest = [] \<and> link_events lid qs = data_events ?ds @ [(Close, None)] \<and>
        length (concat ?ds) \<le> w_room (link_writer (pr_links s q)) \<and> (\<exists>u l. Forwarding q u l \<in> set ts') \<and>
        (\<forall>a w rs. Serving a i w rs \<in> set ts' \<longrightarrow> rs = []) \<longrightarrow>
      got = concat ?ds \<and> link_state (pr_links s' q) = Disconnected"
    using user_receives[OF assms(1,8) reachable_tasks[OF assms(9)] reachable_inv[OF assms(9)] assms(11)
        assms(10)[unfolded sent(1)] sent(2-4) assms(12)] by blast
  then show ?thesis using sent(5) by (intro exI[of _ got]) (auto simp: concat_chunks)
qed

theorem end_to_end_to_server_witness:
  "\<exists>cl us cl' us' v sent s ts s' ts' q. sample_client_reachable (cl, us) \<and>
     (client_numbered_step zeros_zstd sample_links sample_hmac 1)\<^sup>*\<^sup>* (cl, us) (cl', us') \<and>
     w_out (pr_writers cl' v) = w_out (pr_writers cl v) @ sent \<and> sample_reachable (s, ts) \<and>
     (\<exists>w. Serving sample_peer 5 w sent \<in> set ts) \<and>
     (undisturbed zeros_zstd sample_order sample_hmac 1 q 5)\<^sup>*\<^sup>* (s, ts) (s', ts') \<and>
     w_out (link_writer (pr_links s q)) = [] \<and> w_out (link_writer (pr_links s' q)) = [5, 6, 7] \<and>
     link_state (pr_links s' q) = Disconnected"
proof -
  obtain cl us v cl' us' sent where run: "sample_client_reachable (cl, us)" "client_speakers 1 v (cl, us) = [Reading 1 v]"
      "not_offered 1 us" "(client_numbered_step zeros_zstd sample_links sample_hmac 1)\<^sup>*\<^sup>* (cl, us) (cl', us')"
      "w_out (pr_writers cl' v) = w_out (pr_writers cl v) @ sent" "client_speakers 1 v (cl', us') = []"
      "0 < w_room (pr_writers cl' v)" "app_bytes (link_reader (pr_links cl 1)) = [5, 6, 7]"
    by (rule sample_client_run)
  obtain s q w where s: "sample_reachable (s, [Serving sample_peer 5 w sent, Forwarding q w 1])" "link_live 1 q s"
      "link_writer (pr_links s q) = wsock_open 1000"
    by (rule sample_confirmed)
  let ?ts = "[Serving sample_peer 5 w sent, Forwarding q w 1]"
  obtain s' where s': "(undisturbed zeros_zstd sample_order sample_hmac 1 q 5)\<^sup>*\<^sup>* (s, ?ts) (s', [Leaving sample_peer 5, Forwarding q w 1])"
    using serving_steps[of "[Forwarding q w 1]" zeros_zstd 1 q 5 sample_order sample_hmac s sample_peer w sent] by auto
  have task: "Serving sample_peer 5 w sent \<in> set ?ts" by simp
  have start: "w_out (link_writer (pr_links s q)) = []" "w_room (link_writer (pr_links s q)) = 1000"
    using s(3) by (simp_all add: wsock_open_def w_room_def)
  have "w_out (link_writer (pr_links s' q)) = [5, 6, 7] \<and> link_state (pr_links s' q) = Disconnected"
    using end_to_end_to_server[OF zeros_zstd_lawful sample_links_lawful run(1-5) sample_order_lawful s(1) task s(2) s']
      run(6-8) start by (simp del: One_nat_def)
  then show ?thesis using run(1,4,5) s(1) task s' start(1) by blast
qed

end
