(* ===== verification/Blocking.thy ===== *)
theory Blocking
  imports Scenario "HOL-Library.Sublist"
begin

text \<open>
  The locks of one link of the client, at the grain of a single byte. \<open>forward_to_app\<close> of
  \<^verbatim>\<open>src/src/gateway/client.rs\<close> holds the lock of the link while it writes a payload to the
  application; the task of the link, \<open>app_exchange\<close>, takes the same lock to count the bytes that it has
  sent. The socket buffers between the client and the application are bounded, and the application is
  any program that reads and writes bytes. Elsewhere a call runs to its end in one step; here it is
  shown what those calls wait for.
\<close>

section \<open>The model\<close>

text \<open>
  The exchange loop of the client, as far as this link is concerned, and the task of the link. The
  lock of the link is held exactly in \<open>Writing\<close>: it guards one call of \<open>write_all\<close>, of which the
  bytes still to be written are kept. \<open>add_incoming\<close> needs the lock for one atomic step. Sending to
  the server does not wait here and no call fails; the end of a stream and the other links are left out.
\<close>

datatype forwarder = Unlocked | Writing bytes

datatype link_task = Awaiting | Sending bytes | Counting nat

text \<open>An application: what it does with a byte, if it is ready to read, and what it wants to write.\<close>

record 'st app_program =
  ap_read :: "'st \<Rightarrow> u8 \<Rightarrow> 'st option"
  ap_write :: "'st \<Rightarrow> (u8 \<times> 'st) option"

record 'st lane =
  ln_payloads :: "bytes list"    \<comment> \<open>data packets of the link that are still to come from the server\<close>
  ln_forwarder :: forwarder
  ln_inbox :: bytes              \<comment> \<open>written to the socket, not yet read by the application\<close>
  ln_got :: bytes                \<comment> \<open>read by the application\<close>
  ln_app :: 'st
  ln_outbox :: bytes             \<comment> \<open>written by the application, not yet read by the task\<close>
  ln_task :: link_task
  ln_sent :: "bytes list"        \<comment> \<open>data packets sent to the server\<close>
  ln_counted :: nat              \<comment> \<open>\<open>bytes_in\<close> of the link\<close>

inductive lane_step :: "'st app_program \<Rightarrow> nat \<Rightarrow> nat \<Rightarrow> 'st lane \<Rightarrow> 'st lane \<Rightarrow> bool"
  for ap cin cout where
  locks: "ln_forwarder s = Unlocked \<Longrightarrow> ln_payloads s = d # ds \<Longrightarrow>
    lane_step ap cin cout s (s\<lparr>ln_payloads := ds, ln_forwarder := Writing d\<rparr>)"
| puts: "ln_forwarder s = Writing (b # bs) \<Longrightarrow> length (ln_inbox s) < cin \<Longrightarrow>
    lane_step ap cin cout s (s\<lparr>ln_forwarder := Writing bs, ln_inbox := ln_inbox s @ [b]\<rparr>)"
| unlocks: "ln_forwarder s = Writing [] \<Longrightarrow> lane_step ap cin cout s (s\<lparr>ln_forwarder := Unlocked\<rparr>)"
| app_reads: "ln_inbox s = b # bs \<Longrightarrow> ap_read ap (ln_app s) b = Some st \<Longrightarrow>
    lane_step ap cin cout s (s\<lparr>ln_inbox := bs, ln_got := ln_got s @ [b], ln_app := st\<rparr>)"
| app_writes: "ap_write ap (ln_app s) = Some (b, st) \<Longrightarrow> length (ln_outbox s) < cout \<Longrightarrow>
    lane_step ap cin cout s (s\<lparr>ln_outbox := ln_outbox s @ [b], ln_app := st\<rparr>)"
| task_reads: "ln_task s = Awaiting \<Longrightarrow> ln_outbox s = d @ rest \<Longrightarrow> d \<noteq> [] \<Longrightarrow> length d \<le> BUFFER_SIZE \<Longrightarrow>
    lane_step ap cin cout s (s\<lparr>ln_outbox := rest, ln_task := Sending d\<rparr>)"
| task_sends: "ln_task s = Sending d \<Longrightarrow>
    lane_step ap cin cout s (s\<lparr>ln_sent := ln_sent s @ [d], ln_task := Counting (length d)\<rparr>)"
| task_counts: "ln_task s = Counting n \<Longrightarrow> ln_forwarder s = Unlocked \<Longrightarrow>
    lane_step ap cin cout s (s\<lparr>ln_counted := ln_counted s + n, ln_task := Awaiting\<rparr>)"

inductive_cases lane_stepE: "lane_step ap cin cout s s'"

definition lane_start :: "bytes list \<Rightarrow> 'st \<Rightarrow> 'st lane" where
  "lane_start ds st = \<lparr>ln_payloads = ds, ln_forwarder = Unlocked, ln_inbox = [], ln_got = [], ln_app = st,
     ln_outbox = [], ln_task = Awaiting, ln_sent = [], ln_counted = 0\<rparr>"

text \<open>What the exchange loop has still to write; whether anything can move.\<close>

fun being_written :: "forwarder \<Rightarrow> bytes" where
  "being_written Unlocked = []"
| "being_written (Writing bs) = bs"

definition undelivered :: "'st lane \<Rightarrow> bytes" where
  "undelivered s = being_written (ln_forwarder s) @ concat (ln_payloads s)"

definition stuck :: "'st app_program \<Rightarrow> nat \<Rightarrow> nat \<Rightarrow> 'st lane \<Rightarrow> bool" where
  "stuck ap cin cout s \<longleftrightarrow> (\<nexists>s'. lane_step ap cin cout s s')"

section \<open>Nothing is lost or reordered\<close>

definition lane_inv :: "nat \<Rightarrow> nat \<Rightarrow> bytes \<Rightarrow> 'st lane \<Rightarrow> bool" where
  "lane_inv cin cout bs s \<longleftrightarrow> ln_got s @ ln_inbox s @ undelivered s = bs \<and>
     length (ln_inbox s) \<le> cin \<and> length (ln_outbox s) \<le> cout \<and>
     (case ln_task s of Counting n \<Rightarrow> ln_counted s + n | _ \<Rightarrow> ln_counted s) = length (concat (ln_sent s))"

lemma lane_inv_step: "lane_step ap cin cout s s' \<Longrightarrow> lane_inv cin cout bs s \<Longrightarrow> lane_inv cin cout bs s'"
  by (erule lane_stepE) (auto simp: lane_inv_def undelivered_def split: link_task.split)

lemma lane_inv_run:
  "(lane_step ap cin cout)\<^sup>*\<^sup>* s s' \<Longrightarrow> lane_inv cin cout bs s \<Longrightarrow> lane_inv cin cout bs s'"
  by (induction rule: rtranclp_induct) (simp_all add: lane_inv_step)

lemma lane_inv_start: "lane_inv cin cout (concat ds) (lane_start ds st)"
  by (simp add: lane_inv_def lane_start_def undelivered_def)

section \<open>What a stuck link waits for\<close>

text \<open>
  A stuck link is at rest, or its application is not ready to read and its inbox is full, or the
  three wait for each other.
\<close>

lemma stuck_forwarder:
  assumes "stuck ap cin cout s"
  shows "ln_forwarder s = Unlocked \<and> ln_payloads s = [] \<or>
    (\<exists>b bs. ln_forwarder s = Writing (b # bs) \<and> cin \<le> length (ln_inbox s))"
proof (cases "ln_forwarder s")
  case Unlocked
  then show ?thesis using assms locks[OF Unlocked] unfolding stuck_def by (cases "ln_payloads s") blast+
next
  case (Writing bs)
  show ?thesis
  proof (cases bs)
    case Nil
    then show ?thesis using assms Writing unlocks[of s] unfolding stuck_def by blast
  next
    case (Cons b cs)
    then have "\<not> length (ln_inbox s) < cin" using assms Writing puts[of s b cs cin] unfolding stuck_def by blast
    then show ?thesis using Writing Cons by simp
  qed
qed

lemma stuck_app_reads: "stuck ap cin cout s \<Longrightarrow> ln_inbox s = b # bs \<Longrightarrow> ap_read ap (ln_app s) b = None"
  unfolding stuck_def using app_reads by (metis not_None_eq)

lemma stuck_app_writes: "stuck ap cin cout s \<Longrightarrow> ap_write ap (ln_app s) = Some x \<Longrightarrow> cout \<le> length (ln_outbox s)"
  unfolding stuck_def using app_writes by (metis not_less surj_pair)

lemma stuck_task:
  assumes "stuck ap cin cout s"
  shows "ln_task s = Awaiting \<and> ln_outbox s = [] \<or> (\<exists>n. ln_task s = Counting n) \<and> ln_forwarder s \<noteq> Unlocked"
proof (cases "ln_task s")
  case Awaiting
  then show ?thesis using assms task_reads[OF Awaiting, of "[hd (ln_outbox s)]" "tl (ln_outbox s)"]
    unfolding stuck_def by (cases "ln_outbox s") auto
next
  case (Sending d)
  then show ?thesis using assms task_sends[OF Sending] unfolding stuck_def by blast
next
  case (Counting n)
  then show ?thesis using assms task_counts[OF Counting] unfolding stuck_def by blast
qed

lemma stuck_cases:
  assumes "stuck ap cin cout s" and "0 < cin" and "undelivered s \<noteq> []"
  obtains b bs where "ln_inbox s = b # bs" "length (ln_inbox s) \<ge> cin" "ap_read ap (ln_app s) b = None"
    "\<exists>c cs. ln_forwarder s = Writing (c # cs)"
proof -
  obtain c cs where w: "ln_forwarder s = Writing (c # cs)" "cin \<le> length (ln_inbox s)"
    using stuck_forwarder[OF assms(1)] assms(3) by (auto simp: undelivered_def)
  then obtain b bs where "ln_inbox s = b # bs" using assms(2) by (cases "ln_inbox s") auto
  then show thesis using that w stuck_app_reads[OF assms(1)] by blast
qed

section \<open>An application that answers what it reads\<close>

text \<open>It reads a byte and writes it back before it reads the next one.\<close>

definition echo :: "u8 option app_program" where
  "echo = \<lparr>ap_read = (\<lambda>st b. if st = None then Some (Some b) else None),
     ap_write = (\<lambda>st. map_option (\<lambda>b. (b, None)) st)\<rparr>"

lemma echo_simps [simp]:
  "ap_read echo None b = Some (Some b)" "ap_read echo (Some c) b = None"
  "ap_write echo None = None" "ap_write echo (Some b) = Some (b, None)"
  by (simp_all add: echo_def)

abbreviation lane_run :: "'st app_program \<Rightarrow> nat \<Rightarrow> nat \<Rightarrow> 'st lane \<Rightarrow> 'st lane \<Rightarrow> bool" where
  "lane_run ap cin cout \<equiv> (lane_step ap cin cout)\<^sup>*\<^sup>*"

text \<open>The exchange loop gets to the next byte, whatever packets it is in.\<close>

lemma loads:
  assumes "undelivered s = b # bs"
  shows "\<exists>ds w. lane_run ap cin cout s (s\<lparr>ln_payloads := ds, ln_forwarder := Writing (b # w)\<rparr>) \<and>
    w @ concat ds = bs"
  using assms
proof (induction "ln_payloads s" arbitrary: s)
  case Nil
  then have "ln_forwarder s = Writing (b # bs)" by (cases "ln_forwarder s") (auto simp: undelivered_def)
  then have "s\<lparr>ln_payloads := [], ln_forwarder := Writing (b # bs)\<rparr> = s" using Nil.hyps by simp
  then show ?case by (intro exI[of _ "[]"] exI[of _ bs]) simp
next
  case (Cons d ds)
  let ?u = "s\<lparr>ln_forwarder := Unlocked\<rparr>" and ?v = "s\<lparr>ln_payloads := ds, ln_forwarder := Writing d\<rparr>"
  show ?case
  proof (cases "being_written (ln_forwarder s)")
    case (Cons c w)
    then have f: "ln_forwarder s = Writing (c # w)" by (cases "ln_forwarder s") auto
    then have "s\<lparr>ln_payloads := ln_payloads s, ln_forwarder := Writing (c # w)\<rparr> = s" by simp
    moreover have "c = b" "w @ concat (ln_payloads s) = bs" using Cons.prems f by (auto simp: undelivered_def)
    ultimately show ?thesis by (intro exI[of _ "ln_payloads s"] exI[of _ w]) simp
  next
    case Nil
    have "lane_run ap cin cout s ?u"
    proof (cases "ln_forwarder s")
      case Unlocked
      then have "?u = s" by simp
      then show ?thesis by simp
    next
      case (Writing w)
      then show ?thesis using Nil unlocks[of s ap cin cout] by auto
    qed
    moreover have "lane_step ap cin cout ?u ?v" using locks[of ?u d ds ap cin cout] Cons.hyps(2) by simp
    ultimately have run: "lane_run ap cin cout s ?v" by (rule rtranclp.rtrancl_into_rtrancl)
    have "undelivered ?v = b # bs" using Cons.prems Nil by (simp add: undelivered_def flip: Cons.hyps(2))
    then show ?thesis using Cons.hyps(1)[of ?v] run by (auto intro: rtranclp_trans)
  qed
qed

text \<open>One byte into the inbox, and one byte through the application.\<close>

lemma feeds:
  assumes "undelivered s = b # bs" and "length (ln_inbox s) < cin"
  obtains s' where "lane_run ap cin cout s s'" and "undelivered s' = bs" and "ln_inbox s' = ln_inbox s @ [b]"
    and "ln_app s' = ln_app s" and "ln_outbox s' = ln_outbox s" and "ln_task s' = ln_task s"
proof -
  obtain ds w where r: "lane_run ap cin cout s (s\<lparr>ln_payloads := ds, ln_forwarder := Writing (b # w)\<rparr>)"
    and bs: "w @ concat ds = bs" using loads[OF assms(1)] by blast
  let ?t = "s\<lparr>ln_payloads := ds, ln_forwarder := Writing (b # w)\<rparr>"
  let ?u = "?t\<lparr>ln_forwarder := Writing w, ln_inbox := ln_inbox ?t @ [b]\<rparr>"
  have "lane_step ap cin cout ?t ?u" by (rule puts) (simp_all add: assms(2))
  then have "lane_run ap cin cout s ?u" using r by (rule rtranclp.rtrancl_into_rtrancl[rotated])
  then show thesis by (rule that) (simp_all add: undelivered_def bs)
qed

lemma fills:
  assumes "k \<le> length (undelivered s)" and "length (ln_inbox s) + k \<le> cin"
  shows "\<exists>s'. lane_run ap cin cout s s' \<and> length (undelivered s') = length (undelivered s) - k \<and>
    length (ln_inbox s') = length (ln_inbox s) + k \<and>
    ln_app s' = ln_app s \<and> ln_outbox s' = ln_outbox s \<and> ln_task s' = ln_task s"
  using assms
proof (induction k arbitrary: s)
  case (Suc k)
  then obtain b bs where u: "undelivered s = b # bs" by (cases "undelivered s") auto
  obtain t where t: "lane_run ap cin cout s t" "undelivered t = bs" "ln_inbox t = ln_inbox s @ [b]"
      "ln_app t = ln_app s" "ln_outbox t = ln_outbox s" "ln_task t = ln_task s"
    by (rule feeds[OF u, of cin ap cout]) (use Suc.prems(2) in simp_all)
  have "k \<le> length (undelivered t)" "length (ln_inbox t) + k \<le> cin" using Suc.prems t(2,3) u by simp_all
  from Suc.IH[OF this] obtain s' where "lane_run ap cin cout t s'"
      "length (undelivered s') = length (undelivered t) - k" "length (ln_inbox s') = length (ln_inbox t) + k"
      "ln_app s' = ln_app t" "ln_outbox s' = ln_outbox t" "ln_task s' = ln_task t" by blast
  then show ?case using t u by (intro exI[of _ s']) (auto intro: rtranclp_trans)
qed auto

lemma pumps:
  assumes "k \<le> length (undelivered s)" and "length (ln_outbox s) + k \<le> cout" and "0 < cin"
    and "ln_app s = None" and "ln_inbox s = []"
  shows "\<exists>s'. lane_run echo cin cout s s' \<and> length (undelivered s') = length (undelivered s) - k \<and>
    ln_inbox s' = [] \<and> ln_app s' = None \<and> length (ln_outbox s') = length (ln_outbox s) + k \<and> ln_task s' = ln_task s"
  using assms
proof (induction k arbitrary: s)
  case (Suc k)
  then obtain b bs where u: "undelivered s = b # bs" by (cases "undelivered s") auto
  obtain t where t: "lane_run echo cin cout s t" "undelivered t = bs" "ln_inbox t = [b]"
      "ln_app t = None" "ln_outbox t = ln_outbox s" "ln_task t = ln_task s"
    by (rule feeds[OF u, of cin echo cout]) (use Suc.prems(3-5) in simp_all)
  let ?t1 = "t\<lparr>ln_inbox := [], ln_got := ln_got t @ [b], ln_app := Some b\<rparr>"
  let ?t2 = "?t1\<lparr>ln_outbox := ln_outbox ?t1 @ [b], ln_app := None\<rparr>"
  have "lane_step echo cin cout t ?t1" by (rule app_reads) (simp_all add: t(3,4))
  moreover have "lane_step echo cin cout ?t1 ?t2" by (rule app_writes) (use Suc.prems(2) t(5) in simp_all)
  ultimately have run: "lane_run echo cin cout s ?t2" using t(1) by (meson rtranclp.rtrancl_into_rtrancl)
  have len: "length (undelivered ?t2) = length (undelivered s) - 1" "length (ln_outbox ?t2) = Suc (length (ln_outbox s))"
    using t(2,5) u by (simp_all add: undelivered_def)
  then have "k \<le> length (undelivered ?t2)" "length (ln_outbox ?t2) + k \<le> cout"
    using Suc.prems by linarith+
  from Suc.IH[OF this Suc.prems(3)] obtain s' where "lane_run echo cin cout ?t2 s'"
      "length (undelivered s') = length (undelivered ?t2) - k" "ln_inbox s' = []" "ln_app s' = None"
      "length (ln_outbox s') = length (ln_outbox ?t2) + k" "ln_task s' = ln_task t" by auto
  then show ?case using run len t(6) by (intro exI[of _ s']) (auto intro: rtranclp_trans)
qed auto

text \<open>
  One byte has gone round, the task has started to send it, the outbox has filled up meanwhile, and the
  application waits to write one byte more.
\<close>

lemma echo_waits:
  assumes "0 < cin" and "0 < cout" and "cin + cout + 3 \<le> length (concat ds)"
  obtains s d c where "lane_run echo cin cout (lane_start ds None) s"
    and "length (undelivered s) = length (concat ds) - 2 - cout" and "ln_inbox s = []" and "ln_app s = Some c"
    and "length (ln_outbox s) = cout" and "ln_task s = Sending d"
proof -
  let ?s0 = "lane_start ds None :: u8 option lane"
  have s0: "undelivered ?s0 = concat ds" "ln_outbox ?s0 = []" "ln_inbox ?s0 = []" "ln_app ?s0 = None"
      "ln_task ?s0 = Awaiting"
    by (simp_all add: lane_start_def undelivered_def)
  \<comment> \<open>one byte goes round, and the task starts to send it\<close>
  obtain s1 where s1: "lane_run echo cin cout ?s0 s1" "length (undelivered s1) = length (concat ds) - 1"
      "ln_inbox s1 = []" "ln_app s1 = None" "length (ln_outbox s1) = 1" "ln_task s1 = Awaiting"
    using pumps[of 1 ?s0 cout cin] assms by (auto simp: s0)
  define s2 where "s2 = s1\<lparr>ln_outbox := [], ln_task := Sending (ln_outbox s1)\<rparr>"
  have "lane_step echo cin cout s1 s2"
    unfolding s2_def by (rule task_reads) (use s1(5,6) in auto)
  then have r2: "lane_run echo cin cout ?s0 s2" using s1(1) by (rule rtranclp.rtrancl_into_rtrancl[rotated])
  have s2: "length (undelivered s2) = length (concat ds) - 1" "ln_inbox s2 = []" "ln_app s2 = None"
      "ln_outbox s2 = []" "ln_task s2 = Sending (ln_outbox s1)"
    using s1 by (simp_all add: s2_def undelivered_def)
  \<comment> \<open>meanwhile the outbox fills up\<close>
  obtain s3 where s3: "lane_run echo cin cout s2 s3" "length (undelivered s3) = length (concat ds) - 1 - cout"
      "ln_inbox s3 = []" "ln_app s3 = None" "length (ln_outbox s3) = cout" "ln_task s3 = Sending (ln_outbox s1)"
    using pumps[of cout s2 cout cin] assms by (fastforce simp: s2)
  \<comment> \<open>the application takes one more byte and waits to write it\<close>
  have "undelivered s3 \<noteq> []" using s3(2) assms(3) by auto
  then obtain c cs where u: "undelivered s3 = c # cs" by (cases "undelivered s3") auto
  obtain s4 where s4: "lane_run echo cin cout s3 s4" "undelivered s4 = cs" "ln_inbox s4 = [c]" "ln_app s4 = None"
      "ln_outbox s4 = ln_outbox s3" "ln_task s4 = ln_task s3"
    by (rule feeds[OF u, of cin echo cout]) (use assms(1) s3(3,4) in simp_all)
  define s5 where "s5 = s4\<lparr>ln_inbox := [], ln_got := ln_got s4 @ [c], ln_app := Some c\<rparr>"
  have r5: "lane_step echo cin cout s4 s5" unfolding s5_def by (rule app_reads) (simp_all add: s4)
  have "undelivered s5 = cs" using s4(2) by (simp add: s5_def undelivered_def)
  moreover have "length cs = length (concat ds) - 2 - cout" using arg_cong[OF u, of length] s3(2) by simp
  ultimately have s5: "length (undelivered s5) = length (concat ds) - 2 - cout" "ln_inbox s5 = []" "ln_app s5 = Some c"
      "length (ln_outbox s5) = cout" "ln_task s5 = Sending (ln_outbox s1)"
    using s4(5,6) s3(5,6) by (simp_all add: s5_def)
  have "lane_run echo cin cout ?s0 s5"
    using r2 s3(1) s4(1) r5 by (meson r_into_rtranclp rtranclp_trans)
  then show thesis using that s5 by blast
qed

section \<open>Properties\<close>

text \<open>The calls of one step each that the other theories model.\<close>

lemma sends_out:
  assumes "link_state l = Connected" and "length (concat ds) \<le> w_room (link_writer l)"
  shows "w_out (link_writer (fold (\<lambda>d. link_send_packet (Some d)) ds l)) = w_out (link_writer l) @ concat ds"
  using assms
proof (induction ds arbitrary: l)
  case (Cons d ds)
  let ?l = "link_send_packet (Some d) l"
  have "link_state ?l = Connected" "length (concat ds) \<le> w_room (link_writer ?l)"
    using Cons.prems by (simp_all add: link_send_room)
  then show ?case using Cons.IH[of ?l] Cons.prems by (simp add: link_send_out)
qed simp


definition sink :: "unit app_program" where
  "sink = \<lparr>ap_read = (\<lambda>st b. Some ()), ap_write = (\<lambda>st. None)\<rparr>"


text \<open>
  C4: an application that writes its answer to each byte before it reads the next one, as an echo
  service does, can bring the client to a standstill, whatever the sizes of the socket buffers, as soon
  as there is more data than they hold. The exchange loop waits for the application to read, and holds
  the lock of the link; the task of the link, whose turn it is to read what the application writes,
  waits for that lock to count what it has sent; and the application waits for the task. Nothing
  moves any more, and data that the server has sent is never delivered.
\<close>

theorem echo_application_deadlocks:
  assumes "0 < cin" and "0 < cout" and "cin + cout + 3 \<le> length (concat ds)"
  shows "\<exists>s n b. lane_run echo cin cout (lane_start ds None) s \<and> stuck echo cin cout s \<and>
    undelivered s \<noteq> [] \<and> ln_forwarder s \<noteq> Unlocked \<and> ln_task s = Counting n \<and> ln_app s = Some b"
proof -
  let ?s0 = "lane_start ds None :: u8 option lane"
  obtain s5 d c where run: "lane_run echo cin cout ?s0 s5"
    and s5: "length (undelivered s5) = length (concat ds) - 2 - cout" "ln_inbox s5 = []" "ln_app s5 = Some c"
      "length (ln_outbox s5) = cout" "ln_task s5 = Sending d"
    by (rule echo_waits[OF assms])
  \<comment> \<open>the inbox fills up as well, in the middle of a packet\<close>
  have "cin \<le> length (undelivered s5)" "length (ln_inbox s5) + cin \<le> cin" using s5 assms(3) by simp_all
  from fills[OF this, of echo cout] obtain s6 where s6: "lane_run echo cin cout s5 s6" "length (undelivered s6) = length (concat ds) - 2 - cout - cin"
      "length (ln_inbox s6) = cin" "ln_app s6 = Some c" "length (ln_outbox s6) = cout" "ln_task s6 = Sending d"
    by (auto simp: s5)
  have "undelivered s6 \<noteq> []" using s6(2) assms(3) by auto
  then obtain e es where "undelivered s6 = e # es" by (cases "undelivered s6") auto
  then obtain ps w where r7: "lane_run echo cin cout s6 (s6\<lparr>ln_payloads := ps, ln_forwarder := Writing (e # w)\<rparr>)"
    using loads by blast
  \<comment> \<open>and the task, done with sending, asks for the lock\<close>
  let ?s7 = "s6\<lparr>ln_payloads := ps, ln_forwarder := Writing (e # w)\<rparr>"
  let ?s8 = "?s7\<lparr>ln_sent := ln_sent ?s7 @ [d], ln_task := Counting (length d)\<rparr>"
  have "lane_step echo cin cout ?s7 ?s8" by (rule task_sends) (simp add: s6)
  then have "lane_run echo cin cout ?s0 ?s8"
    using run s6(1) r7 by (meson r_into_rtranclp rtranclp_trans)
  moreover have "stuck echo cin cout ?s8"
    using s6(3-5) by (auto simp: stuck_def elim!: lane_stepE)
  ultimately show ?thesis
    by (intro exI[of _ ?s8] exI[of _ "length d"] exI[of _ c]) (simp add: undelivered_def s6(4))
qed

theorem echo_application_deadlocks_witness:
  "\<exists>s n b. lane_run echo 2 2 (lane_start [replicate 9 65] None) s \<and> stuck echo 2 2 s \<and>
    undelivered s \<noteq> [] \<and> ln_forwarder s \<noteq> Unlocked \<and> ln_task s = Counting n \<and> ln_app s = Some b"
  by (rule echo_application_deadlocks) simp_all

end
