(* ===== verification/Component_Theorems.thy ===== *)
theory Component_Theorems
  imports Scenario
begin

text \<open>
  What the single components guarantee: the wire format, the payload codec, sending and reading
  of packets, the buffer pool, links and their registry, identifiers, the session file, the
  configuration and the byte formatter.
\<close>

section \<open>The wire format\<close>

text \<open>
  A header that is written is the header that is read, whatever follows it in the buffer,
  and it takes 16 bytes.
\<close>

theorem header_roundtrip: "from_bytes (to_bytes p @ rest) = Some p \<and> length (to_bytes p) = 16"
  by simp

text \<open>
  Conversely, a header that was read from bytes is written back as the same first 14 bytes
  and two zeros, except that an unknown type code (anything but 0..13 and 30) becomes 0.
\<close>

theorem header_rewritten:
  assumes "from_bytes bs = Some p"
  shows "to_bytes p = (if bs ! 0 \<le> 13 \<or> bs ! 0 = 30 then bs ! 0 else 0) # take 13 (drop 1 bs) @ [0, 0]"
proof -
  have len: "16 \<le> length bs" using assms by (auto simp: from_bytes_eq split: if_splits)
  then have p: "p = \<lparr>packet_type = PacketType_from (bs ! 0), packet_id = from_le (slice_range 1 9 bs),
      link_id = from_le (slice_range 9 11 bs), data_size = from_le (slice_range 11 13 bs), flags = bs ! 13\<rparr>"
    using assms by (simp add: from_bytes_eq)
  have "take 13 (drop 1 bs) = slice_range 1 9 bs @ slice_range 9 11 bs @ slice_range 11 13 bs @ [bs ! 13]"
    using len take_add[of 8 5 "drop 1 bs"] take_add[of 2 3 "drop 9 bs"] take_add[of 2 1 "drop 11 bs"]
      take_Suc_conv_app_nth[of 0 "drop 13 bs"]
    by (simp add: slice_range_def del: One_nat_def) (simp add: One_nat_def)
  then show ?thesis using len
    by (simp add: p to_bytes_layout to_le_from_le length_slice PacketType_code_from del: One_nat_def)
qed

theorem header_rewritten_witness:
  "to_bytes (the (from_bytes (99 # replicate 15 3))) = 0 # replicate 13 3 @ [0, 0]"
proof -
  obtain p where p: "from_bytes (99 # replicate 15 3) = Some p" by (simp add: from_bytes_eq)
  show ?thesis using header_rewritten[OF p] p by simp
qed

section \<open>Payloads\<close>

text \<open>
  A payload survives compression and decompression, never gets longer, and is flagged as
  compressed only if it had at least 1024 bytes and got strictly shorter.
\<close>

theorem payload_roundtrip:
  assumes "zstd_lawful z"
  shows "decompress_data z (cr_data (compress_data z d)) (cr_is_compressed (compress_data z d)) = Some d \<and>
    length (cr_data (compress_data z d)) \<le> length d \<and>
    (cr_is_compressed (compress_data z d) \<longrightarrow>
       1024 \<le> length d \<and> length (cr_data (compress_data z d)) < length d)"
  using zstd_codec.inverse[OF assms] zstd_codec.never_longer compress_flagged by blast

theorem payload_roundtrip_witness:
  "cr_data (compress_data zeros_zstd (replicate 2000 0)) = [40, 208, 7] \<and>
   decompress_data zeros_zstd [40, 208, 7] True = Some (replicate 2000 0)"
proof -
  have "to_le 2 (2000 :: u16) = [208, 7]" by code_simp
  then have c: "compress_data zeros_zstd (replicate 2000 0) = \<lparr>cr_data = [40, 208, 7], cr_is_compressed = True\<rparr>"
    using compress_zeros[of 2000] by simp
  show ?thesis using payload_roundtrip[OF zeros_zstd_lawful, of "replicate 2000 0"]
    unfolding c by simp
qed

section \<open>Authentication tags\<close>

text \<open>
  The constant-time comparison accepts exactly the right tag, although it looks at every
  byte: a response of another length or with any differing bit is rejected.
\<close>

theorem verify_response_exact:
  assumes "hmac_lawful h"
  shows "verify_response h k nonce response \<longleftrightarrow> response = compute_response h k nonce"
  by (rule hmac_auth.verify_iff[OF assms])

theorem verify_response_exact_witness:
  "\<not> verify_response sample_hmac [1] [2] (replicate 32 0) \<and>
   verify_response sample_hmac [1] [2] ([1, 2] @ replicate 30 0)"
  using verify_response_exact[OF sample_hmac_lawful, of "[1]" "[2]"]
  by (simp add: compute_response_def sample_hmac_def numeral_eq_Suc)

section \<open>Sending and reading\<close>

text \<open>
  C24: one packet sent. The peer gets the wire image of header and (possibly compressed)
  payload, or the prefix of it that the connection still takes; the call fails exactly when the
  image does not fit; a packet is counted with all its bytes if and only if it went out whole; other
  connections see nothing.
\<close>

theorem send_packet_outcome:
  "pr_writers (snd (send_packet z w p d s)) v =
     (if v = w then snd (write_all (wire z p d) (pr_writers s w)) else pr_writers s v) \<and>
   w_out (pr_writers (snd (send_packet z w p d s)) w) =
     w_out (pr_writers s w) @ take (w_room (pr_writers s w)) (wire z p d) \<and>
   (isl (fst (send_packet z w p d s)) \<longleftrightarrow> w_room (pr_writers s w) < length (wire z p d)) \<and>
   gw_statistics (snd (send_packet z w p d s)) =
     (if w_room (pr_writers s w) < length (wire z p d) then gw_statistics s
      else add_bytes_out (of_nat (length (wire z p d))) (inc_packets_out (gw_statistics s)))"
  by (simp add: send_packet_def send_writer send_result send_statistics write_all_prefix)

lemma finish_read_commands:
  "mt_commands (pr_metrics (finish_read p n s)) = mt_commands (pr_metrics s) @
     (if mt_initialized (pr_metrics s)
      then [CountPacket (PacketType_debug (packet_type p)) ''in'', CountBytes (of_nat n) ''in'',
        ObserveProcessing (PacketType_debug (packet_type p)) (pr_elapsed s)]
      else [])"
  by (simp add: finish_read_def with_metrics_def metrics_defs Let_def)

lemma read_courses:
  assumes "read_packet z rs s = (x, rs', s')"
  shows "length rs < 16 \<Longrightarrow> x = None \<and> rs' = [] \<and> s' = s"
    and "16 \<le> length rs \<Longrightarrow> \<exists>p. from_bytes (take 16 rs) = Some p \<and>
      (let n = unat (data_size p); st = add_bytes_in 16 (inc_packets_in (gw_statistics s))
       in if n = 0 then x = Some (p, None) \<and> rs' = drop 16 rs \<and> gw_statistics s' = st
          else if length rs < 16 + n then x = None \<and> rs' = [] \<and> gw_statistics s' = st
          else x = map_option (\<lambda>d. (p, Some d)) (decompress_data z (take n (drop 16 rs)) (is_compressed p)) \<and>
            rs' = drop (16 + n) rs \<and> gw_statistics s' = add_bytes_in (of_nat n) st)"
    and "mt_commands (pr_metrics s') = mt_commands (pr_metrics s) @
      (case x of Some (p, d) \<Rightarrow> if mt_initialized (pr_metrics s)
         then [CountPacket (PacketType_debug (packet_type p)) ''in'',
               CountBytes (of_nat (16 + unat (data_size p))) ''in'',
               ObserveProcessing (PacketType_debug (packet_type p)) (pr_elapsed s)]
         else []
       | None \<Rightarrow> [])"
proof -
  note read = assms[unfolded read_packet_def]
  show "x = None \<and> rs' = [] \<and> s' = s" if "length rs < 16"
    using gw.read_end[OF that, of z s] assms by simp
  show "\<exists>p. from_bytes (take 16 rs) = Some p \<and>
      (let n = unat (data_size p); st = add_bytes_in 16 (inc_packets_in (gw_statistics s))
       in if n = 0 then x = Some (p, None) \<and> rs' = drop 16 rs \<and> gw_statistics s' = st
          else if length rs < 16 + n then x = None \<and> rs' = [] \<and> gw_statistics s' = st
          else x = map_option (\<lambda>d. (p, Some d)) (decompress_data z (take n (drop 16 rs)) (is_compressed p)) \<and>
            rs' = drop (16 + n) rs \<and> gw_statistics s' = add_bytes_in (of_nat n) st)" if "16 \<le> length rs"
  proof (cases rule: read_gw_packet_cases[of rs z s])
    case (data p r rs'' s'')
    then have "0 < unat (data_size p)" by (simp add: unat_gt_0)
    then show ?thesis using data read that
      by (intro exI[of _ p]) (auto simp: read_payload_eq Let_def add.commute split: option.splits if_splits)
  qed (use that read in auto)
  show "mt_commands (pr_metrics s') = mt_commands (pr_metrics s) @
      (case x of Some (p, d) \<Rightarrow> if mt_initialized (pr_metrics s)
         then [CountPacket (PacketType_debug (packet_type p)) ''in'',
               CountBytes (of_nat (16 + unat (data_size p))) ''in'',
               ObserveProcessing (PacketType_debug (packet_type p)) (pr_elapsed s)]
         else []
       | None \<Rightarrow> [])"
  proof (cases rule: read_gw_packet_cases[of rs z s])
    case (data p r rs'' s'')
    then show ?thesis using read
      by (auto simp: read_payload_eq Let_def finish_read_commands split: option.splits if_splits)
  qed (use read in \<open>auto simp: finish_read_commands\<close>)
qed

text \<open>
  C25: one packet read, on every course the bytes of the peer can force. Without a whole header
  nothing changes; a header with a size consumes exactly its payload, or all that is left when the
  payload breaks off; a payload that does not decompress is consumed and the read fails. The
  statistics count a packet from its header on; the metrics count it only when the read succeeds.
\<close>

theorem read_packet_outcome:
  assumes "read_packet z rs s = (x, rs', s')"
  shows "(if length rs < 16 then x = None \<and> rs' = [] \<and> s' = s
     else \<exists>p. from_bytes (take 16 rs) = Some p \<and>
      (let n = unat (data_size p); st = add_bytes_in 16 (inc_packets_in (gw_statistics s))
       in if n = 0 then x = Some (p, None) \<and> rs' = drop 16 rs \<and> gw_statistics s' = st
          else if length rs < 16 + n then x = None \<and> rs' = [] \<and> gw_statistics s' = st
          else x = map_option (\<lambda>d. (p, Some d)) (decompress_data z (take n (drop 16 rs)) (is_compressed p)) \<and>
            rs' = drop (16 + n) rs \<and> gw_statistics s' = add_bytes_in (of_nat n) st)) \<and>
    mt_commands (pr_metrics s') = mt_commands (pr_metrics s) @
      (case x of Some (p, d) \<Rightarrow> if mt_initialized (pr_metrics s)
         then [CountPacket (PacketType_debug (packet_type p)) ''in'',
               CountBytes (of_nat (16 + unat (data_size p))) ''in'',
               ObserveProcessing (PacketType_debug (packet_type p)) (pr_elapsed s)]
         else []
       | None \<Rightarrow> [])"
proof (cases "length rs < 16")
  case True
  then show ?thesis using read_courses(1,3)[OF assms] by simp
next
  case False
  then show ?thesis using read_courses(2,3)[OF assms] by simp
qed

theorem read_packet_outcome_witness:
  "\<exists>p s'. read_packet zeros_zstd (to_bytes (PacketGW_new Regular 1 2 5) @ [7, 8]) sample_server = (None, [], s') \<and>
     from_bytes (to_bytes (PacketGW_new Regular 1 2 5)) = Some p \<and> packets_in (gw_statistics s') = 1"
proof -
  let ?rs = "to_bytes (PacketGW_new Regular 1 2 5) @ [7, 8]"
  obtain x rs' s' where r: "read_packet zeros_zstd ?rs sample_server = (x, rs', s')" by (metis prod.collapse)
  have p: "from_bytes (take 16 ?rs) = Some (PacketGW_new Regular 1 2 5)" and l: "length ?rs = 18"
    using from_bytes_to_bytes_append[of "PacketGW_new Regular 1 2 5" "[]"] by simp_all
  have "x = None \<and> rs' = [] \<and> gw_statistics s' = add_bytes_in 16 (inc_packets_in (gw_statistics sample_server))"
    using read_packet_outcome[OF r] unfolding p l by (simp add: Let_def)
  then show ?thesis using r p
    by (simp add: scenario_defs ConnectionStatistics_new_def inc_packets_in_def add_bytes_in_def)
qed

text \<open>
  C23: what is sent is what is read. A sequence of packets, each well-formed for sending
  (\<open>sendable\<close>), that went out over a connection that did not break is read back as the same
  sequence: types, identifiers, links and payloads, in order.
\<close>

theorem packets_sent_are_packets_read:
  assumes "zstd_lawful z" and "list_all (\<lambda>(p, d). sendable p d) ps"
    and "w_out (pr_writers s w) = []" and "length (images (wire z) ps) \<le> w_room (pr_writers s w)"
  shows "map (\<lambda>(p, d). (packet_type p, packet_id p, link_id p, d))
      (fst (read_many (read_packet z) (length ps) (w_out (pr_writers (send_many (send_packet z) w ps s) w)) t)) =
    map (\<lambda>(p, d). (packet_type p, packet_id p, link_id p, d)) ps"
proof -
  have "w_out (pr_writers (send_many (send_packet z) w ps s) w) = images (wire z) ps"
    using gw.send_many_out[of z w ps s] assms(3,4) by simp
  then show ?thesis using gw.read_many_images[OF assms(1,2), of "[]" t]
    by (auto simp: case_prod_beta)
qed

theorem packets_sent_are_packets_read_witness:
  "map (\<lambda>(p, d). (packet_type p, packet_id p, link_id p, d)) (fst (read_many (read_packet zeros_zstd) 2
     (w_out (pr_writers (send_many (send_packet zeros_zstd) 0
       [(PacketGW_new Ping 7 0 0, None), (PacketGW_new Regular 8 1 2, Some [5, 6])] sample_client) 0)) sample_server)) =
   [(Ping, 7, 0, None), (Regular, 8, 1, Some [5, 6])]"
proof -
  let ?ps = "[(PacketGW_new Ping 7 0 0, None), (PacketGW_new Regular 8 1 2, Some [5, 6])]"
  have two: "length ?ps = 2" by simp
  have "list_all (\<lambda>(p, d). sendable p d) ?ps" by (simp add: sendable_def)
  moreover have "length (images (wire zeros_zstd) ?ps) \<le> w_room (pr_writers sample_client 0)"
    by (simp add: wire_def prepare_packet_def)
  ultimately show ?thesis
    using packets_sent_are_packets_read[OF zeros_zstd_lawful, of ?ps sample_client 0 sample_server]
    unfolding two by simp
qed



text \<open>
  No data of an earlier packet leaks through the pool: a buffer that \<open>acquire\<close> hands out
  holds zeros only, at least as many as the pool's buffer size, and dropping it again, with whatever
  was put into it, keeps it so for the next.
\<close>

theorem acquired_buffers_are_blank:
  assumes "pool_inv 65535 p" and "acquire p = (b, p')" and "length filled \<le> 65535"
    and "acquire (drop_buffer (deref_mut (\<lambda>v. v\<lparr>vec_data := filled\<rparr>)
      (deref_mut (vec_resize (length filled) 0) b)) p') = (c, p'')"
  shows "set (vec_data (deref b)) \<subseteq> {0} \<and> bp_buffer_size p \<le> length (vec_data (deref b)) \<and>
    set (vec_data (deref c)) \<subseteq> {0}"
proof -
  have blank: "set (vec_data v) \<subseteq> {0} \<and> k \<le> length (vec_data v)" if "idle_ok m k v" for m k v
    using that unfolding idle_ok_def by (metis in_set_replicate insertI1 subsetI)
  have "pool_inv 65535 (drop_buffer (deref_mut (\<lambda>v. v\<lparr>vec_data := filled\<rparr>)
      (deref_mut (vec_resize (length filled) 0) b)) p')"
    using pool.borrow_fill[OF assms(1,2,3)] .
  then show ?thesis using blank acquire_idle(1)[OF assms(1,2)] acquire_idle(1)[OF _ assms(4)]
    unfolding deref_def by blast
qed

theorem acquired_buffers_are_blank_witness:
  "set (vec_data (deref (fst (acquire BufferPool_default)))) \<subseteq> {0}"
proof -
  obtain b p' where a: "acquire BufferPool_default = (b, p')" by (metis prod.collapse)
  obtain c p'' where "acquire (drop_buffer (deref_mut (\<lambda>v. v\<lparr>vec_data := [1, 2, 3]\<rparr>)
      (deref_mut (vec_resize (length [1, 2, 3 :: u8]) 0) b)) p') = (c, p'')" by (metis prod.collapse)
  then show ?thesis using acquired_buffers_are_blank[OF pool_inv_default a, of "[1, 2, 3]" c p''] a by simp
qed

section \<open>Links\<close>

text \<open>The operations on a link, as data.\<close>

datatype link_op = Send "bytes option" | State ConnectionState | Incoming u64 | Await "nat option" | Shut

fun run_op :: "link_op \<Rightarrow> link \<Rightarrow> link" where
  "run_op (Send d) l = link_send_packet d l"
| "run_op (State x) l = set_state x l"
| "run_op (Incoming n) l = add_incoming n l"
| "run_op (Await a) l = set_awaiter a l"
| "run_op Shut l = close_connection l"

lemma run_op_shut:
  "w_shut (link_writer l) \<Longrightarrow>
     w_shut (link_writer (run_op x l)) \<and> w_out (link_writer (run_op x l)) = w_out (link_writer l)"
  by (cases x) (auto simp: link_send_packet_def write_all_def w_room_def set_awaiter_def shutdown_def Let_def
      split: option.split)

text \<open>
  A closed link stays closed. After \<open>close_connection\<close>, whatever is called on the
  link, even if another task marks it as connected again, not one more byte reaches the
  application.
\<close>

theorem closed_links_stay_silent:
  "w_out (link_writer (fold run_op xs (close_connection l))) = w_out (link_writer l)"
proof -
  have "w_out (link_writer (fold run_op xs k)) = w_out (link_writer k)" if "w_shut (link_writer k)" for k
    using that by (induction xs arbitrary: k) (simp_all add: run_op_shut)
  then show ?thesis by (simp add: shutdown_def)
qed

text \<open>
  One payload to a link, on every branch: a link that is not connected drops it without a
  trace; a connected one writes it, and counts it only if the write succeeded; the state never
  changes.
\<close>

theorem link_send_outcome:
  "(link_send_packet (Some d) l =
     (if link_state l \<noteq> Connected then l
      else if length d \<le> w_room (link_writer l)
      then l\<lparr>link_writer := snd (write_all d (link_writer l)),
             link_statistics := (link_statistics l)\<lparr>bytes_out := bytes_out (link_statistics l) + of_nat (length d)\<rparr>\<rparr>
      else l\<lparr>link_writer := snd (write_all d (link_writer l))\<rparr>)) \<and>
   (w_out (link_writer (link_send_packet (Some d) l)) =
     w_out (link_writer l) @ (if link_state l = Connected then take (w_room (link_writer l)) d else []))"
  by (simp add: link_send_packet_def write_all_def Let_def)

text \<open>
  Changing the state of a link resets both byte counters, whatever the new state, keeps the
  connection and its number, and wakes the waiter exactly when the new state is \<open>CONNECTED\<close>.
\<close>

theorem set_state_outcome:
  "link_state (set_state x l) = x \<and> get_stats (set_state x l) = (0, 0, x) \<and>
   connection_id (set_state x l) = connection_id l \<and> link_writer (set_state x l) = link_writer l \<and>
   connection_awaiter (set_state x l) =
     (if x = Connected then map_option (\<lambda>n. n + 1) (connection_awaiter l) else connection_awaiter l)"
  by (simp add: set_state_def get_stats_def Let_def split: option.split)

section \<open>The registry of links\<close>

text \<open>
  C34: closing all links does not depend on the order in which the hash map is drained: every
  registered link is closed, no other link is touched, the registry is empty and the metric is 0.
\<close>

theorem close_all_links_any_order:
  assumes "drains order (gw_links s)" and "drains order' (gw_links s)"
  shows "close_all_links order s = close_all_links order' s \<and>
    gw_links (close_all_links order s) = fmempty \<and>
    (\<forall>r. pr_links (close_all_links order s) r =
      (if r |\<in>| fmran (gw_links s) then close_connection (pr_links s r) else pr_links s r)) \<and>
    pr_metrics (close_all_links order s) = set_active_connections 0 (pr_metrics s)"
  by (simp add: close_all_links_eq[OF assms(1)] close_all_links_eq[OF assms(2)])

theorem close_all_links_any_order_witness:
  "link_state (pr_links (close_all_links [1] tunnel_server) 0) = Disconnected \<and>
   gw_links (close_all_links [1] tunnel_server) = fmempty"
proof -
  have d: "drains [1] (gw_links tunnel_server)"
    by (simp add: drains_def tunnel_defs)
  have "0 |\<in>| fmran (gw_links tunnel_server)" by (rule fmranI[of _ 1]) simp
  then show ?thesis using close_all_links_any_order[OF d d] by simp
qed

section \<open>Identifiers\<close>

text \<open>
  C37: up to 65536 connections in a row get different identifiers; after exactly 65536 the
  counter is back where it started, so that the identifiers repeat, and among them is 0, the number
  of the control packets. \<open>next_link_id\<close> does not look at the links that are still open.
\<close>

theorem link_ids_distinct_then_repeat:
  assumes "n \<le> 65536"
  shows "distinct (fst (take_link_ids n s)) \<and>
    set (fst (take_link_ids 65536 s)) = UNIV \<and>
    fst (next_link_id (snd (take_link_ids 65536 s))) = fst (next_link_id s)"
proof -
  have counter: "gw_link_id_counter (snd (take_link_ids m t)) = gw_link_id_counter t + of_nat m" for m t
    by (induction m arbitrary: t) (simp_all add: next_link_id_def Let_def case_prod_beta)
  have "card (set (fst (take_link_ids 65536 s))) = card (UNIV :: u16 set)"
    using distinct_card[OF take_link_ids_distinct[of 65536 s]] by (simp add: take_link_ids_eq card_word)
  then have "set (fst (take_link_ids 65536 s)) = UNIV" by (intro card_subset_eq) simp_all
  moreover have "(of_nat 65536 :: u16) = 0" by simp
  ultimately show ?thesis using take_link_ids_distinct[OF assms]
    by (simp add: next_link_id_def Let_def counter)
qed

theorem link_ids_distinct_then_repeat_witness:
  "fst (next_link_id (snd (take_link_ids 65536 sample_server))) = 1 \<and>
   distinct (fst (take_link_ids 3 sample_server))"
proof -
  have "fst (next_link_id sample_server) = 1" by (simp add: next_link_id_def scenario_defs)
  then show ?thesis using link_ids_distinct_then_repeat[of 3 sample_server] by simp
qed

section \<open>The session file\<close>

text \<open>
  A client that has saved its session identifier finds the same identifier after a restart;
  saving fails only for a path that cannot be written, and then changes nothing; other files are
  left alone.
\<close>

theorem session_id_survives_restart:
  assumes "uuid_lawful u" and "persist_session_id u i path fs = (r, fs')"
  shows "(is_ok r \<longleftrightarrow> session_path path |\<notin>| fs_readonly fs) \<and>
    load_session_id u path fs' = (if is_ok r then Some i else load_session_id u path fs) \<and>
    (\<forall>q. session_path q \<noteq> session_path path \<longrightarrow> load_session_id u q fs' = load_session_id u q fs)"
  using load_after_persist[OF assms(1), of i path fs fs'] load_other_path[of _ path u i fs r fs']
    persist_ok_iff[of u i path fs] assms(2)
  by (auto simp: persist_session_id_def Let_def split: if_splits)

definition sample_uuid :: uuid_crate where
  "sample_uuid = \<lparr>to_str = (\<lambda>i. [unat i + 20000]), parse_str = (\<lambda>t. case t of [n] \<Rightarrow> Some (of_nat (n - 20000)) | _ \<Rightarrow> None)\<rparr>"

lemma sample_uuid_lawful: "uuid_lawful sample_uuid"
  by (simp add: uuid_lawful_def sample_uuid_def is_white_space_def)

theorem session_id_survives_restart_witness:
  "load_session_id sample_uuid None (snd (persist_session_id sample_uuid 42 None
     \<lparr>fs_files = fmempty, fs_readonly = {||}\<rparr>)) = Some 42"
proof -
  obtain r fs' where p: "persist_session_id sample_uuid 42 None \<lparr>fs_files = fmempty, fs_readonly = {||}\<rparr> = (r, fs')"
    by (metis prod.collapse)
  show ?thesis using session_id_survives_restart[OF sample_uuid_lawful p] p by simp
qed

section \<open>Configuration\<close>

text \<open>
  Which configurations are accepted: client mode with both ports and both hosts, or server
  mode with an application port; the gateway port that the server listens on is not asked for. The
  mode is recognised in any mixture of upper and lower case, and nothing but the two names is.
\<close>

theorem validate_accepts_iff:
  "validate c = Inr () \<longleftrightarrow>
     to_ascii_lowercase (mode (general c)) = ''client'' \<and> port_gw (network c) \<noteq> 0 \<and>
       port_app (network c) \<noteq> 0 \<and> host_app (network c) \<noteq> [] \<and> host_gw (network c) \<noteq> [] \<or>
     to_ascii_lowercase (mode (general c)) = ''server'' \<and> port_app (network c) \<noteq> 0"
  by (simp add: validate_ok_iff app_mode_def AppMode_from_cases)

section \<open>The byte formatter\<close>

text \<open>
  The unit that \<open>format_bytes\<close> picks is the right one for the number it formats (the
  value as \<open>f64\<close>): at least 1 of the unit and, below \<open>TB\<close>, less than 1024 of it; below
  1024 bytes the number is printed exactly; otherwise the printed hundredths are off by at most half
  a hundredth of the unit.
\<close>

theorem format_bytes_unit:
  assumes "m = as_f64 b" and "k = unit_loop m 0" and "c = round_even (100 * m) (1024 ^ k)"
  shows "k < length UNITS \<and> (0 < k \<longrightarrow> 1024 ^ k \<le> m) \<and> (k < 4 \<longrightarrow> m < 1024 ^ Suc k) \<and>
    format_bytes b = (if k = 0 then dec_nat (unat b) else format_hundredths c) @ '' '' @ UNITS ! k \<and>
    2 * c * 1024 ^ k \<le> 200 * m + 1024 ^ k \<and> 200 * m \<le> 2 * c * 1024 ^ k + 1024 ^ k"
proof -
  have unit: "k \<le> 4 \<and> (0 < k \<longrightarrow> 1024 ^ k \<le> m) \<and> (k < 4 \<longrightarrow> m < 1024 * 1024 ^ k)"
    unfolding assms(2) by (rule unit_loop_spec) simp_all
  have "2 * (c * 1024 ^ k) \<le> 2 * (100 * m) + 1024 ^ k" "2 * (100 * m) \<le> 2 * (c * 1024 ^ k) + 1024 ^ k"
    unfolding assms(3) by (rule round_even_error; simp)+
  then have near: "2 * c * 1024 ^ k \<le> 200 * m + 1024 ^ k" "200 * m \<le> 2 * c * 1024 ^ k + 1024 ^ k"
    by (simp_all add: mult.assoc)
  have "format_bytes b = (if k = 0 then dec_nat (unat b) else format_hundredths c) @ '' '' @ UNITS ! k"
    unfolding assms(3) unfolding assms(2) unfolding assms(1) by (simp add: format_bytes_def Let_def)
  then show ?thesis using unit near by (simp add: UNITS_def)
qed

theorem format_bytes_unit_witness:
  "format_bytes 1536 = ''1.50 KB''"
proof -
  have m: "as_f64 1536 = 1536" by (simp add: as_f64_exact)
  have h: "format_hundredths 150 = ''1.50''" by code_simp
  have u: "unit_loop 1536 0 = 1"
    by (simp add: unit_loop.simps[of 1536 0] unit_loop.simps[of 1536 "Suc 0"] UNITS_def)
  have r: "round_even (100 * 1536) (1024 ^ 1) = 150" by (simp add: round_even_def)
  have "format_bytes 1536 = (if unit_loop (as_f64 1536) 0 = 0 then dec_nat (unat (1536 :: u64))
      else format_hundredths (round_even (100 * as_f64 1536) (1024 ^ unit_loop (as_f64 1536) 0)))
      @ '' '' @ UNITS ! unit_loop (as_f64 1536) 0"
    using format_bytes_unit[OF refl refl refl, of 1536] by (elim conjE)
  then show ?thesis unfolding m u r h by (simp add: UNITS_def)
qed

end
