(* ===== verification/Unit_Tests.thy ===== *)
theory Unit_Tests
  imports Component_Theorems
begin

text \<open>
  The unit tests of the repository, run on the model: each \<open>#[test]\<close> function under
  \<^verbatim>\<open>src/src\<close> is a definition with the same calls, and its value says whether all its assertions hold.
  What a test draws from its environment (nonces, the random session identifier, the crates) is an
  argument. \<open>test_now_epoch\<close>, which only looks at the clock, is left out.
\<close>

section \<open>\<^verbatim>\<open>auth.rs\<close>\<close>

definition test_nonce_generation :: "(nat \<Rightarrow> bytes) \<Rightarrow> (nat \<Rightarrow> bytes) \<Rightarrow> bool" where
  "test_nonce_generation fill1 fill2 \<longleftrightarrow>
     (let nonce1 = generate_nonce fill1; nonce2 = generate_nonce fill2
      in nonce1 \<noteq> nonce2 \<and> length nonce1 = NONCE_SIZE)"

definition test_response_computation :: "hmac \<Rightarrow> (nat \<Rightarrow> bytes) \<Rightarrow> bool" where
  "test_response_computation h fill \<longleftrightarrow>
     (let key = as_bytes ''test_secret_key''; nonce = generate_nonce fill;
          response = compute_response h key nonce; response2 = compute_response h key nonce
      in length response = RESPONSE_SIZE \<and> response = response2)"

definition test_response_verification :: "hmac \<Rightarrow> (nat \<Rightarrow> bytes) \<Rightarrow> (nat \<Rightarrow> bytes) \<Rightarrow> bool" where
  "test_response_verification h fill1 fill2 \<longleftrightarrow>
     (let key = as_bytes ''test_secret_key''; nonce = generate_nonce fill1;
          response = compute_response h key nonce;
          wrong_key = as_bytes ''wrong_key''; wrong_nonce = generate_nonce fill2
      in verify_response h key nonce response \<and> \<not> verify_response h wrong_key nonce response \<and>
         \<not> verify_response h key wrong_nonce response)"

definition test_invalid_response_length :: "hmac \<Rightarrow> (nat \<Rightarrow> bytes) \<Rightarrow> bool" where
  "test_invalid_response_length h fill \<longleftrightarrow>
     (let key = as_bytes ''test_key''; nonce = generate_nonce fill; short_response = replicate 16 0
      in \<not> verify_response h key nonce short_response)"

lemma auth_tests:
  assumes "hmac_lawful h"
  shows "test_nonce_generation f g \<longleftrightarrow> f 32 \<noteq> g 32 \<and> length (f 32) = 32"
    and "test_response_computation h f"
    and "test_response_verification h f g \<longleftrightarrow>
      h (as_bytes ''wrong_key'') (f 32) \<noteq> h (as_bytes ''test_secret_key'') (f 32) \<and>
      h (as_bytes ''test_secret_key'') (g 32) \<noteq> h (as_bytes ''test_secret_key'') (f 32)"
    and "test_invalid_response_length h f"
  using hmac_auth.wrong_size_rejected[OF assms] assms
  by (auto simp: test_nonce_generation_def test_response_computation_def test_response_verification_def
      test_invalid_response_length_def generate_nonce_def compute_response_def verify_response_iff_equal
      hmac_lawful_def Let_def)

section \<open>\<^verbatim>\<open>buffer_pool.rs\<close>\<close>

definition test_buffer_pool_acquire_release :: bool where
  "test_buffer_pool_acquire_release \<longleftrightarrow>
     (let pool = BufferPool_new 10 1024;
          (buffer, pool) = acquire pool;
          ok1 = length (vec_data (deref buffer)) = 1024;
          pool = drop_buffer buffer pool;
          (buffer2, pool) = acquire pool
      in ok1 \<and> length (vec_data (deref buffer2)) = 1024)"

definition test_buffer_pool_reuse :: bool where
  "test_buffer_pool_reuse \<longleftrightarrow>
     (let pool = BufferPool_new 2 512;
          (buffer, pool) = acquire pool;
          buffer = deref_mut (\<lambda>v. v\<lparr>vec_data := (vec_data v)[0 := 42]\<rparr>) buffer;
          pool = drop_buffer buffer pool;
          (buffer2, pool) = acquire pool
      in length (vec_data (deref buffer2)) = 512)"

lemma pool_tests: "test_buffer_pool_acquire_release" "test_buffer_pool_reuse"
  by (simp_all add: test_buffer_pool_acquire_release_def test_buffer_pool_reuse_def BufferPool_new_def
      push_zeroed_eq acquire_def vec_pop_def PooledBuffer_new_def drop_buffer_def deref_def deref_mut_def
      vec_zeroed_def vec_clear_def vec_resize_def butlast_append last_replicate Let_def)

section \<open>\<^verbatim>\<open>compression.rs\<close>\<close>

definition test_small_data_not_compressed :: "zstd \<Rightarrow> bool" where
  "test_small_data_not_compressed z \<longleftrightarrow>
     (let data = replicate 512 1; result = compress_data z data
      in \<not> cr_is_compressed result \<and> cr_data result = data)"

definition test_compressible_data :: "zstd \<Rightarrow> bool" where
  "test_compressible_data z \<longleftrightarrow>
     (let data = replicate 4096 0; result = compress_data z data
      in cr_is_compressed result \<and> length (cr_data result) < length data)"

definition test_roundtrip :: "zstd \<Rightarrow> bool" where
  "test_roundtrip z \<longleftrightarrow>
     (let data = replicate 4096 42; compressed = compress_data z data
      in decompress_data z (cr_data compressed) (cr_is_compressed compressed) = Some data)"

definition test_decompress_uncompressed :: "zstd \<Rightarrow> bool" where
  "test_decompress_uncompressed z \<longleftrightarrow>
     (let data = [1, 2, 3, 4]; result = decompress_data z data False in result = Some data)"

lemma compression_tests:
  assumes "zstd_lawful z"
  shows "test_small_data_not_compressed z"
    and "test_compressible_data z \<longleftrightarrow> (\<exists>c. encode_all z (replicate 4096 0) 3 = Some c \<and> length c < 4096)"
    and "test_roundtrip z" and "test_decompress_uncompressed z"
  using assms compress_small[of "replicate 512 1" z]
  by (auto simp: test_small_data_not_compressed_def test_compressible_data_def test_roundtrip_def
      test_decompress_uncompressed_def compress_data_def decompress_data_def zstd_lawful_def Let_def
      split: option.splits)

section \<open>\<^verbatim>\<open>metrics.rs\<close>\<close>

text \<open>
  \<open>m\<close> is the state in which an earlier test has left the collectors; \<open>init_metrics\<close> panics when
  the registry refuses a name, and a panic fails the test. The four \<open>OnceLock\<close>s are set together.
\<close>

definition after_init :: "(string \<Rightarrow> bool) \<Rightarrow> metrics \<Rightarrow> (metrics \<Rightarrow> metrics) \<Rightarrow> bool" where
  "after_init register m f = (case init_metrics register m of None \<Rightarrow> False | Some m \<Rightarrow> mt_initialized (f m))"

definition test_metrics_initialization :: "(string \<Rightarrow> bool) \<Rightarrow> metrics \<Rightarrow> bool" where
  "test_metrics_initialization register m = after_init register m (\<lambda>m. m)"

definition test_inc_packets :: "(string \<Rightarrow> bool) \<Rightarrow> metrics \<Rightarrow> bool" where
  "test_inc_packets register m = after_init register m
     (\<lambda>m. inc_packets_total ''Ping'' ''out'' (inc_packets_total ''Regular'' ''in'' m))"

definition test_inc_bytes :: "(string \<Rightarrow> bool) \<Rightarrow> metrics \<Rightarrow> bool" where
  "test_inc_bytes register m = after_init register m (\<lambda>m. inc_bytes_total 2048 ''out'' (inc_bytes_total 1024 ''in'' m))"

definition test_active_connections :: "(string \<Rightarrow> bool) \<Rightarrow> metrics \<Rightarrow> bool" where
  "test_active_connections register m = after_init register m (set_active_connections 5)"

text \<open>0.001 and 0.0005 seconds, in nanoseconds.\<close>

definition test_observe_processing_time :: "(string \<Rightarrow> bool) \<Rightarrow> metrics \<Rightarrow> bool" where
  "test_observe_processing_time register m = after_init register m
     (\<lambda>m. observe_packet_processing ''Ping'' 500000 (observe_packet_processing ''Regular'' 1000000 m))"

lemma metrics_tests:
  assumes "init_metrics register m \<noteq> None"
  shows "test_metrics_initialization register m" "test_inc_packets register m" "test_inc_bytes register m"
    "test_active_connections register m" "test_observe_processing_time register m"
  using assms
  by (auto simp: test_metrics_initialization_def test_inc_packets_def test_inc_bytes_def test_active_connections_def
      test_observe_processing_time_def after_init_def metrics_defs init_metrics_def split: if_splits)

section \<open>\<^verbatim>\<open>session_store.rs\<close>\<close>

definition test_session_store_save_restore :: "(unit \<Rightarrow> uuid) \<Rightarrow> bool" where
  "test_session_store_save_restore new_v4 \<longleftrightarrow>
     (let store = SessionStore_new; session_id = generate_session_id new_v4;
          store = save_session session_id [] store;
          ok1 = has_session session_id store;
          (restored, store) = restore_session session_id store
      in ok1 \<and> restored \<noteq> None \<and> \<not> has_session session_id store)"

definition test_session_store_remove :: "(unit \<Rightarrow> uuid) \<Rightarrow> bool" where
  "test_session_store_remove new_v4 \<longleftrightarrow>
     (let store = SessionStore_new; session_id = generate_session_id new_v4;
          store = save_session session_id [] store;
          ok1 = has_session session_id store;
          store = remove_session session_id store
      in ok1 \<and> \<not> has_session session_id store)"

definition test_session_id_persistence :: "uuid_crate \<Rightarrow> (unit \<Rightarrow> uuid) \<Rightarrow> string \<Rightarrow> file_system \<Rightarrow> bool" where
  "test_session_id_persistence u new_v4 temp_dir fs =
     (let session_id = generate_session_id new_v4; temp_path = temp_dir @ ''/test_session_id''
      in case persist_session_id u session_id (Some temp_path) fs of
           (Inl e, fs) \<Rightarrow> False
         | (Inr x, fs) \<Rightarrow> load_session_id u (Some temp_path) fs = Some session_id)"

lemma session_tests: "test_session_store_save_restore new_v4" "test_session_store_remove new_v4"
  by (simp_all add: test_session_store_save_restore_def test_session_store_remove_def session_store_defs Let_def)

lemma persistence_test:
  assumes "uuid_lawful u"
  shows "test_session_id_persistence u new_v4 d fs \<longleftrightarrow> d @ ''/test_session_id'' |\<notin>| fs_readonly fs"
proof -
  let ?i = "generate_session_id new_v4" and ?p = "Some (d @ ''/test_session_id'')"
  obtain r fs' where w: "persist_session_id u ?i ?p fs = (r, fs')" by fastforce
  have "is_ok r \<longleftrightarrow> d @ ''/test_session_id'' |\<notin>| fs_readonly fs"
    using persist_ok_iff[of u ?i ?p fs] w by (simp add: session_path_def)
  then show ?thesis using w load_after_persist[OF assms, of ?i ?p fs fs']
    by (auto simp: test_session_id_persistence_def Let_def split: sum.splits)
qed

section \<open>\<^verbatim>\<open>packet.rs\<close>, \<^verbatim>\<open>utils.rs\<close>, \<^verbatim>\<open>consts.rs\<close>\<close>

definition test_packet_roundtrip :: bool where
  "test_packet_roundtrip =
     (let packet = PacketGW_new Open 42 7 1024; bytes = to_bytes packet
      in case from_bytes bytes of
           None \<Rightarrow> False
         | Some parsed \<Rightarrow> packet_type parsed = Open \<and> packet_id parsed = 42 \<and> link_id parsed = 7 \<and> data_size parsed = 1024)"

definition test_common_types :: bool where
  "test_common_types \<longleftrightarrow> is_common Regular \<and> is_common Ping \<and> is_common Open \<and>
     \<not> is_common GwAuth \<and> \<not> is_common GwConnected \<and> \<not> is_common GwDeny"

definition test_from_short_buffer :: bool where
  "test_from_short_buffer \<longleftrightarrow> from_bytes (replicate 5 0) = None"

definition test_format_bytes :: bool where
  "test_format_bytes \<longleftrightarrow> format_bytes 0 = ''0 B'' \<and> format_bytes 1024 = ''1.00 KB'' \<and>
     format_bytes 1048576 = ''1.00 MB'' \<and> format_bytes 512 = ''512 B''"

definition test_app_mode_from_str :: bool where
  "test_app_mode_from_str \<longleftrightarrow> AppMode_from ''client'' = Client \<and> AppMode_from ''CLIENT'' = Client \<and>
     AppMode_from ''Client'' = Client \<and> AppMode_from ''server'' = Server \<and> AppMode_from ''SERVER'' = Server \<and>
     AppMode_from ''unknown'' = Undefined \<and> AppMode_from '''' = Undefined"

definition test_app_mode_display :: bool where
  "test_app_mode_display \<longleftrightarrow> AppMode_display Client = ''CLIENT'' \<and> AppMode_display Server = ''SERVER'' \<and>
     AppMode_display Undefined = ''UNDEFINED''"

lemma packet_tests: "test_packet_roundtrip" "test_common_types" "test_from_short_buffer"
  using from_bytes_to_bytes_append[of "PacketGW_new Open 42 7 1024" "[]"]
  by (simp_all add: test_packet_roundtrip_def PacketGW_new_def test_common_types_def test_from_short_buffer_def
      from_bytes_None_iff Let_def)

lemma format_small: "unat b < 1024 \<Longrightarrow> format_bytes b = dec_nat (unat b) @ '' B''"
  by (simp add: format_bytes_def as_f64_exact unit_loop.simps UNITS_def Let_def)

lemma format_tests: "test_format_bytes"
proof -
  have m: "as_f64 1024 = 1024" "as_f64 1048576 = 1048576" by (simp_all add: as_f64_exact)
  have u: "unit_loop 1024 0 = 1" "unit_loop 1048576 0 = 2"
    by (simp_all add: unit_loop.simps[of _ 0] unit_loop.simps[of _ "Suc 0"] unit_loop.simps[of _ "Suc (Suc 0)"] UNITS_def)
  have r: "round_even (100 * 1024) (1024 ^ 1) = 100" "round_even (100 * 1048576) (1024 ^ 2) = 100"
    by (simp_all add: round_even_def)
  have h: "format_hundredths 100 = ''1.00''" "dec_nat 0 = ''0''" "dec_nat 512 = ''512''" by code_simp+
  have "format_bytes 1024 = ''1.00 KB''" unfolding format_bytes_def m u r h Let_def by (simp add: UNITS_def r h)
  moreover have "format_bytes 1048576 = ''1.00 MB''"
    unfolding format_bytes_def m u Let_def using r(2) h(1) by (simp add: UNITS_def)
  ultimately show ?thesis using format_small[of 0] format_small[of 512] h by (simp add: test_format_bytes_def)
qed

lemma mode_tests: "test_app_mode_from_str" "test_app_mode_display"
  unfolding test_app_mode_from_str_def test_app_mode_display_def by (intro conjI; code_simp)+

section \<open>Property\<close>



end
