(* ===== verification/Client_Theorems.thy ===== *)
theory Client_Theorems
  imports Scenario Operations
begin

text \<open>
  What the client does with the packets of the server, on every branch.
\<close>

lemma client_send_frame:
  "cl_dialled (snd (send_gw_packet z w p d s)) = cl_dialled s"
  "cl_tasks (snd (send_gw_packet z w p d s)) = cl_tasks s"
  "cl_last_activity (snd (send_gw_packet z w p d s)) = cl_last_activity s"
  using send_gw_packet_shape[of z w p d s] by auto

lemma update_link_client [simp]:
  "cl_dialled (update_link r f s) = cl_dialled s" "cl_tasks (update_link r f s) = cl_tasks s"
  by (simp_all add: update_link_def)

lemma send_control_out:
  "16 \<le> w_room (pr_writers s w) \<Longrightarrow>
     w_out (pr_writers (snd (send_gw_packet z w (PacketGW_new t i l 0) None s)) w) =
       w_out (pr_writers s w) @ to_bytes (PacketGW_new t i l 0)"
  by (simp add: send_out wire_def prepare_packet_def)

text \<open>
  C29: the request to open a connection. The client dials the configured application; if that
  succeeds, it registers a connected link under the number the server asked for, answers \<open>Opened\<close>
  and starts the task that forwards the application's data; if it fails, it answers \<open>OpenFail\<close>
  and its registry is as before.
\<close>

theorem client_answers_open:
  assumes "cl_app_connects s = answer # answers" and "16 \<le> w_room (pr_writers s w)"
    and "client_dispatch z w (PacketGW_new Open i lid 0) None s = (go_on, s')"
  shows "go_on \<and>
    cl_dialled s' = cl_dialled s @ [host_app (network (gw_config s)) @ '':'' @ dec_nat (unat (port_app (network (gw_config s))))] \<and>
    w_out (pr_writers s' w) = w_out (pr_writers s w) @
      to_bytes (PacketGW_new (if answer = None then OpenFail else Opened) (gw_packet_id_counter s + 1) lid 0) \<and>
    (case answer of
       None \<Rightarrow> gw_links s' = gw_links s \<and> cl_tasks s' = cl_tasks s
     | Some k \<Rightarrow> gw_links s' = fmupd lid (pr_next_link s) (gw_links s) \<and>
         pr_links s' (pr_next_link s) = set_state Connected (Link_new k lid) \<and>
         cl_tasks s' = cl_tasks s @ [ClientAppExchange (pr_next_link s) w])"
proof (cases answer)
  case None
  let ?t = "s\<lparr>cl_dialled := cl_dialled s @ [host_port (host_app (network (gw_config s))) (port_app (network (gw_config s)))],
      cl_app_connects := answers, gw_packet_id_counter := gw_packet_id_counter s + 1\<rparr>"
  have s': "s' = snd (send_gw_packet z w (PacketGW_new OpenFail (gw_packet_id_counter s + 1) lid 0) None ?t)" "go_on"
    using assms(1,3) None
    by (simp_all add: client_dispatch_def connect_client_def connect_app_def send_open_fail_def next_packet_id_eq Let_def)
  show ?thesis using None assms(2) client_send_frame[of z w _ None ?t]
    by (simp add: s' send_control_out host_port_def)
next
  case (Some k)
  let ?r = "pr_next_link s"
  let ?t = "update_link ?r (set_state Connected) (add_link ?r (s\<lparr>cl_dialled := cl_dialled s @
      [host_port (host_app (network (gw_config s))) (port_app (network (gw_config s)))], cl_app_connects := answers,
      pr_links := (pr_links s)(?r := Link_new k lid), pr_next_link := Suc ?r\<rparr>))
      \<lparr>gw_packet_id_counter := gw_packet_id_counter s + 1\<rparr>"
  let ?u = "snd (send_gw_packet z w (PacketGW_new Opened (gw_packet_id_counter s + 1) lid 0) None ?t)"
  have s': "s' = ?u\<lparr>cl_tasks := cl_tasks ?u @ [ClientAppExchange ?r w]\<rparr>" "go_on"
    using assms(1,3) Some
    by (simp_all add: client_dispatch_def connect_client_def connect_app_def send_opened_def next_packet_id_eq
        alloc_link_def spawn_def add_link_eq update_link_def Let_def)
  show ?thesis using Some assms(2) client_send_frame[of z w _ None ?t]
    by (simp add: s' send_control_out host_port_def add_link_eq)
qed

theorem client_answers_open_witness:
  "w_out (pr_writers (snd (client_dispatch zeros_zstd 0 (PacketGW_new Open 5 3 0) None
     (sample_client\<lparr>cl_app_connects := [None]\<rparr>))) 0) = to_bytes (PacketGW_new OpenFail 1 3 0)"
proof -
  let ?s = "sample_client\<lparr>cl_app_connects := [None]\<rparr>"
  obtain g s' where d: "client_dispatch zeros_zstd 0 (PacketGW_new Open 5 3 0) None ?s = (g, s')"
    by (metis prod.collapse)
  have "gw_packet_id_counter sample_client = 0" by (simp add: scenario_defs)
  then show ?thesis using client_answers_open[OF _ _ d, of None "[]"] d by simp
qed

text \<open>
  Keep-alive. Each \<open>Ping\<close> of the server is answered by exactly one \<open>Pong\<close> with a fresh
  identifier, and it counts as activity; the time stamp of the keep-alive is set by \<open>Pong\<close> alone.
\<close>

theorem client_answers_ping:
  assumes "16 \<le> w_room (pr_writers s w)"
  shows "w_out (pr_writers (snd (client_dispatch z w (PacketGW_new Ping i l 0) None s)) w) =
      w_out (pr_writers s w) @ to_bytes (PacketGW_new Pong (gw_packet_id_counter s + 1) 0 0) \<and>
    cl_last_activity (snd (client_dispatch z w (PacketGW_new Ping i l 0) None s)) = pr_now s \<and>
    gw_keep_alive_stamp (snd (client_dispatch z w (PacketGW_new Ping i l 0) None s)) = gw_keep_alive_stamp s \<and>
    gw_keep_alive_stamp (snd (client_dispatch z w (PacketGW_new Pong i l 0) None s)) = pr_now s"
  using send_control_out[of "s\<lparr>gw_packet_id_counter := gw_packet_id_counter s + 1\<rparr>" w z Pong
      "gw_packet_id_counter s + 1" 0] assms
  by (simp add: client_dispatch_def send_pong_def next_packet_id_eq update_keepalive_def Let_def)

theorem client_answers_ping_witness:
  "w_out (pr_writers (snd (client_dispatch zeros_zstd 0 (PacketGW_new Ping 9 0 0) None sample_client)) 0) =
     to_bytes (PacketGW_new Pong 1 0 0)"
proof -
  have "gw_packet_id_counter sample_client = 0" by (simp add: scenario_defs)
  then show ?thesis using client_answers_ping[of sample_client 0 zeros_zstd 9 0] by simp
qed

end
