(* ===== verification/Spec2Isabelle.thy ===== *)
theory Spec2Isabelle
  imports End_To_End Half_Close Blocking Client_Concurrent Client_Runs Unit_Tests Client_Theorems Main_App
begin

text \<open>
  A model of \<^verbatim>\<open>iog\<close>, an I/O gateway: users connect to the application port of a gateway in
  server mode; each of their connections is tunnelled, as a numbered link, over one authenticated
  TCP connection to a gateway in client mode, which connects it to a local application. The packets
  of all links share that connection.

  \<^bold>\<open>Parts and theories\<close> (sources under \<^verbatim>\<open>src/src/\<close>).

  \<^item> \<open>Gw_Prelude\<close>: machine integers as words, byte strings, little-endian conversion, results of
    fallible I/O, and the collections of simplification rules the other theories share.
  \<^item> \<open>Net_Io\<close>: the environment, not the program: what sockets do. A write half has the bytes the peer
    got and a credit after which the connection breaks; a read half of the gateway connection is the
    bytes that will arrive; an application's read half is the outcomes of its \<open>read\<close> calls.
  \<^item> \<open>Packet\<close> (\<^verbatim>\<open>gateway/packet.rs\<close>), \<open>Gw_Consts\<close> (\<^verbatim>\<open>gateway/consts.rs\<close>), \<open>Gw_Utils\<close>
    (\<^verbatim>\<open>gateway/utils.rs\<close>), \<open>App_Config\<close> (\<^verbatim>\<open>configuration.rs\<close>, \<^verbatim>\<open>consts.rs\<close>), \<open>Metrics\<close>
    (\<^verbatim>\<open>gateway/metrics.rs\<close>), \<open>Link\<close> (\<^verbatim>\<open>gateway/link.rs\<close>): data and pure operations.
  \<^item> \<open>Auth\<close> (\<^verbatim>\<open>gateway/auth.rs\<close>), \<open>Compression\<close> (\<^verbatim>\<open>gateway/compression.rs\<close>), \<open>Buffer_Pool\<close>
    (\<^verbatim>\<open>gateway/buffer_pool.rs\<close>), \<open>Session_Store\<close> (\<^verbatim>\<open>gateway/session_store.rs\<close>): each with the
    locale of what its callers rely on (\<open>authenticator\<close>, \<open>payload_codec\<close>, \<open>buffer_source\<close>,
    \<open>keyed_store\<close>), interpreted on the model. HMAC, \<open>zstd\<close>, the random generator and the \<open>uuid\<close>
    crate are parameters; what is assumed of them is \<open>hmac_lawful\<close> (tags of 32 bytes),
    \<open>zstd_lawful\<close> (decompression inverts compression, frames are not empty) and \<open>uuid_lawful\<close>.
  \<^item> \<open>Gateway\<close> (\<^verbatim>\<open>gateway/mod.rs\<close>): the record \<open>gateway\<close>, which extends what the tasks of a process
    share (\<open>process\<close>: a heap of links and of write halves, the pool, the metrics, the clock), and its
    operations. \<open>Operations\<close> (\<^verbatim>\<open>gateway/operations.rs\<close>): the trait \<open>GatewayOperations\<close> as a locale.
  \<^item> \<open>Client\<close> (\<^verbatim>\<open>gateway/client.rs\<close>) and \<open>Server\<close> (\<^verbatim>\<open>gateway/server.rs\<close>): records that extend
    \<open>gateway\<close>, one definition per method, a separate one for each turn of an exchange loop and for
    each stage of a handler between two awaits.
  \<^item> \<open>Server_System\<close>: the spawned tasks of the server as an inductive step relation over the shared
    record, in any interleaving, with the invariant of all reachable states.
    \<open>Server_Progress\<close>: a measure that every step of a task decreases, and that some task can always step.
  \<^item> \<open>Client_System\<close>: the tasks of the client in the same way: the main task with its connections, and
    the tasks of the applications, which outlive the connection they were started on.
  \<^item> \<open>Lifecycle\<close>: the trait \<open>GatewayTrait\<close> as a locale, interpreted on both gateways. \<open>Main_App\<close>: the
    client's reconnection loop, the statistics, standard input, \<open>main\<close> and the shutdown signal
    (\<^verbatim>\<open>main.rs\<close>). \<open>Listeners\<close>: the accept loops and \<open>run\<close> of the server.
  \<^item> \<open>Blocking\<close>: one link of the client at a finer grain, byte by byte: \<open>forward_to_app\<close> and \<open>app_exchange\<close>
    with the lock they share, the bounded buffers of the socket, and the program at its other end.
  \<^item> \<open>Unit_Tests\<close>: the repository's own tests, function by function, as definitions over the model.
  \<^item> \<open>Scenario\<close>: concrete data at which theorems are instantiated.

  \<^bold>\<open>Correspondence.\<close> A method on a shared object is a function from the state to its result and
  the new state; a mutex or lock is the atomicity of one such step. Early returns and errors are
  branches: \<open>Inl\<close> of a sum, \<open>None\<close>, or \<open>False\<close> where the source returns a boolean. A hash map is a
  finite map; where the code iterates over one, the order is a parameter of which only is assumed that
  every entry comes once. Counters are words that wrap, as in a release build. Exchange loops are
  recursions, total because every turn consumes bytes of a finite stream; there is no fuel.

  \<^bold>\<open>What is shown.\<close>

  \<^item> \<open>Tunnel\<close>: the two exchange loops of one direction composed over the wire: transparency in both
    directions, delivery of a prefix when anything breaks, separation of the multiplexed links.
  \<^item> \<open>Emission\<close> and \<open>Receiving\<close>: the same property without the assumption that nothing else happens.
    The locale \<open>conversation\<close> is the sending end: tasks whose steps put whole packets on a connection
    and say of a link what its reader returned; any interleaved run says exactly that. The locale
    \<open>receiver\<close> is the receiving end: an exchange loop that gives a connected link the payloads of its
    number. Both ends of the wire interpret both: \<open>Server_Streams\<close> and \<open>Client_Streams\<close> the first on the
    tasks of the server and of the client, \<open>Receiving\<close> the second on the two exchange loops.
    \<open>Concurrent_Theorems\<close> and \<open>Client_Concurrent\<close>: transparency of a link in both directions, in any
    interleaving with all other links, clients and connections.
  \<^item> \<open>Delivery\<close>, \<open>Client_Delivery\<close>, \<open>Server_Delivery\<close> and \<open>End_To_End\<close>: both gateways at once. The
    delivery at each end as an invariant of its task system, composed with what the tasks of the other
    gateway have sent: what one side wrote is what the other receives, in both directions, however
    the tasks of both gateways interleave. On the server no other client may interfere with the
    link (\<open>undisturbed\<close>), since the code does not prevent it.
  \<^item> \<open>Half_Close\<close>: a user that ends its sending side receives nothing more. \<open>Blocking\<close>: an application
    that always reads gets everything, with locks and buffers taken into account; one that answers while
    it reads can bring the client to a standstill.
  \<^item> \<open>Unit_Tests\<close>: all tests pass on the model, and on which conditions.
  \<^item> \<open>Server_Runs\<close>, \<open>Client_Runs\<close>, \<open>Listeners\<close>: the handlers, the client's \<open>run\<close> and the accept loops,
    each written as one function, are runs of the interleaved tasks.
  \<^item> \<open>Client_System_Theorems\<close>: the phases of the client, to which connection its links belong, and the
    task of a lost connection that cuts off the link of the next one.
  \<^item> \<open>Handshake\<close>: agreement of the two sides, soundness of admission, the client's verdict.
  \<^item> \<open>Server_Theorems\<close>: sessions, store and links in every reachable state, a clean server when the
    last task has ended, the clean-up of a client, and three behaviours in which tasks or clients
    disturb each other (the confirmation race, the registration race, the missing check of ownership).
  \<^item> \<open>Component_Theorems\<close>, \<open>Client_Theorems\<close>, \<open>Lifecycle\<close>, \<open>Main_App\<close>: the guarantees of the single
    components and operations, on every branch.

  \<^bold>\<open>Bounds.\<close> Payloads have at most 65535 bytes, so \<open>65535\<close> bounds every request to the buffer pool;
  applications are read in chunks of at most 16384 bytes. Session identifiers are assumed fresh.

  \<^bold>\<open>Not modelled.\<close> Logging, the HTTP protocol and the collectors of the metrics, argument
  parsing, the installation of signal handlers; real time (sleeps and timeouts are the
  environment's choice); blocking on locks outside \<open>Blocking\<close>, including the \<open>try_read\<close> of \<open>state\<close>; interleaving
  inside a turn of an exchange loop (with the connection attempt of \<open>connect_client\<close>) or inside
  \<open>cleanup_client\<close>. The concurrent transparency theorems ask that the number of the link is not
  handed out a second time in the run, which it can be after 65536 others.
\<close>

end
